(* ===== verification/Wi_Prelude.thy ===== *)
theory Wi_Prelude
  imports Main "HOL-Library.Word" "HOL-Library.Char_ord" "HOL-Library.List_Lexorder"
begin

text \<open>
  The prelude of the development: the types every component shares and the small part of the
  Rust language and standard library the sources use.

  \<^item> A Rust \<open>u64\<close> is a \<open>64 word\<close> (\<open>u64\<close>), a stored SQLite \<open>INTEGER\<close> (an \<open>i64\<close>) is an
    \<open>int\<close>, a \<open>usize\<close> length is a \<open>nat\<close>.
  \<^item> A Rust \<open>str\<close>/\<open>String\<close> is the list of its UTF-8 bytes: a HOL \<open>char\<close> is one byte.
  \<^item> \<open>Result<T, E>\<close> is the sum \<open>'e + 'a\<close> with \<open>Err\<close> on the left and \<open>Ok\<close> on the right; the
    \<open>?\<close> operator is \<open>and_then\<close>.
  \<^item> \<open>wi_results\<close> collects the rewrite rules of the result operations, \<open>wi_words\<close> those of the
    machine integers.
\<close>

named_theorems wi_results \<open>rewrite rules for results and early returns\<close>
named_theorems wi_words \<open>rewrite rules for 64-bit words\<close>

type_synonym u64 = "64 word"
type_synonym i64 = int
type_synonym str = string

section \<open>Results\<close>

abbreviation Err :: "'e \<Rightarrow> 'e + 'a" where
  "Err \<equiv> Inl"

abbreviation Ok :: "'a \<Rightarrow> 'e + 'a" where
  "Ok \<equiv> Inr"

fun and_then :: "'e + 'a \<Rightarrow> ('a \<Rightarrow> 'e + 'b) \<Rightarrow> 'e + 'b" where
  "and_then (Inl e) f = Inl e"
| "and_then (Inr a) f = f a"

fun map_err :: "('e \<Rightarrow> 'f) \<Rightarrow> 'e + 'a \<Rightarrow> 'f + 'a" where
  "map_err f (Inl e) = Inl (f e)"
| "map_err f (Inr a) = Inr a"

fun map_ok :: "('a \<Rightarrow> 'b) \<Rightarrow> 'e + 'a \<Rightarrow> 'e + 'b" where
  "map_ok f (Inl e) = Inl e"
| "map_ok f (Inr a) = Inr (f a)"

fun ok_or :: "'e \<Rightarrow> 'a option \<Rightarrow> 'e + 'a" where
  "ok_or e None = Inl e"
| "ok_or e (Some a) = Inr a"

text \<open>\<open>if c { return Err(e) }\<close>: the guard fails when the condition holds.\<close>

definition reject_if :: "bool \<Rightarrow> 'e \<Rightarrow> 'e + unit" where
  "reject_if c e = (if c then Inl e else Inr ())"

fun is_ok :: "'e + 'a \<Rightarrow> bool" where
  "is_ok (Inl e) = False"
| "is_ok (Inr a) = True"

fun ok_part :: "'e + 'a \<Rightarrow> 'a option" where
  "ok_part (Inl e) = None"
| "ok_part (Inr a) = Some a"

text \<open>\<open>Option<Result>::transpose\<close> after \<open>map\<close>.\<close>

fun map_transpose :: "('a \<Rightarrow> 'e + 'b) \<Rightarrow> 'a option \<Rightarrow> 'e + 'b option" where
  "map_transpose f None = Inr None"
| "map_transpose f (Some a) = map_ok Some (f a)"

text \<open>\<open>iter().map(f).collect::<Result<Vec<_>>>()\<close>: the first error wins.\<close>

fun collect_results :: "('a \<Rightarrow> 'e + 'b) \<Rightarrow> 'a list \<Rightarrow> 'e + 'b list" where
  "collect_results f [] = Inr []"
| "collect_results f (x # xs) =
     and_then (f x) (\<lambda>y. and_then (collect_results f xs) (\<lambda>ys. Inr (y # ys)))"

lemma and_then_Ok_iff [wi_results]:
  "and_then m f = Inr b \<longleftrightarrow> (\<exists>a. m = Inr a \<and> f a = Inr b)"
  by (cases m) auto

lemma and_then_Err_iff:
  "and_then m f = Inl e \<longleftrightarrow> m = Inl e \<or> (\<exists>a. m = Inr a \<and> f a = Inl e)"
  by (cases m) auto

lemma and_then_assoc: "and_then (and_then m f) g = and_then m (\<lambda>a. and_then (f a) g)"
  by (cases m) auto

lemma map_err_Ok_iff [wi_results]: "map_err f m = Inr a \<longleftrightarrow> m = Inr a"
  by (cases m) auto

lemma map_ok_Ok_iff [wi_results]: "map_ok f m = Inr b \<longleftrightarrow> (\<exists>a. m = Inr a \<and> b = f a)"
  by (cases m) auto

lemma ok_or_Ok_iff [wi_results]: "ok_or e x = Inr a \<longleftrightarrow> x = Some a"
  by (cases x) auto

lemma reject_if_Ok_iff [wi_results]: "reject_if c e = Inr u \<longleftrightarrow> \<not> c"
  by (simp add: reject_if_def)

lemma reject_if_Err_iff: "reject_if c e = Inl e' \<longleftrightarrow> c \<and> e' = e"
  by (auto simp: reject_if_def)

lemma is_ok_iff [wi_results]: "is_ok m \<longleftrightarrow> (\<exists>a. m = Inr a)"
  by (cases m) auto

lemma map_transpose_Ok_iff [wi_results]:
  "map_transpose f x = Inr y \<longleftrightarrow>
     (case x of None \<Rightarrow> y = None | Some a \<Rightarrow> (\<exists>b. f a = Inr b \<and> y = Some b))"
  by (cases x) (auto simp: map_ok_Ok_iff)

lemma collect_results_Ok_iff [wi_results]:
  "collect_results f xs = Inr ys \<longleftrightarrow> list_all2 (\<lambda>x y. f x = Inr y) xs ys"
  by (induction xs arbitrary: ys) (auto simp: and_then_Ok_iff list_all2_Cons1)

section \<open>64-bit integers\<close>

text \<open>\<open>u64::checked_add\<close>, \<open>u64::checked_mul\<close>, \<open>u64::try_from(usize)\<close>, and the conversions
  between \<open>u64\<close> and SQLite's \<open>i64\<close>.\<close>

definition checked_add_u64 :: "u64 \<Rightarrow> u64 \<Rightarrow> u64 option" where
  "checked_add_u64 a b = (if unat a + unat b < 2 ^ 64 then Some (a + b) else None)"

definition checked_mul_u64 :: "u64 \<Rightarrow> u64 \<Rightarrow> u64 option" where
  "checked_mul_u64 a b = (if unat a * unat b < 2 ^ 64 then Some (a * b) else None)"

definition u64_try_from_usize :: "nat \<Rightarrow> u64 option" where
  "u64_try_from_usize n = (if n < 2 ^ 64 then Some (of_nat n) else None)"

definition i64_try_from_u64 :: "u64 \<Rightarrow> i64 option" where
  "i64_try_from_u64 w = (if unat w < 2 ^ 63 then Some (uint w) else None)"

definition u64_try_from_i64 :: "i64 \<Rightarrow> u64 option" where
  "u64_try_from_i64 i = (if 0 \<le> i \<and> i < 2 ^ 63 then Some (of_int i) else None)"

lemma unat_u64_bound [intro]: "unat (w :: u64) < 2 ^ 64"
  using unsigned_less [where ?'a = nat, of w] by simp

lemma unat_of_nat_u64 [wi_words]: "n < 2 ^ 64 \<Longrightarrow> unat (of_nat n :: u64) = n"
  by (simp add: unat_of_nat)

lemma of_nat_unat_u64 [wi_words]: "of_nat (unat (w :: u64)) = w"
  by simp

lemma checked_add_u64_Some: "checked_add_u64 a b = Some c \<longleftrightarrow> unat c = unat a + unat b"
proof
  assume "checked_add_u64 a b = Some c"
  then show "unat c = unat a + unat b"
    by (auto simp: checked_add_u64_def unat_word_ariths split: if_splits)
next
  assume c: "unat c = unat a + unat b"
  then have bound: "unat a + unat b < 2 ^ 64" using unat_u64_bound [of c] by linarith
  then have "unat (a + b) = unat c" using c by (simp add: unat_word_ariths)
  then have "a + b = c" by (simp only: word_unat_eq_iff)
  with bound show "checked_add_u64 a b = Some c" by (simp add: checked_add_u64_def)
qed

lemma checked_add_u64_less: "checked_add_u64 a 1 = Some c \<Longrightarrow> a < c"
  by (simp add: checked_add_u64_Some word_less_nat_alt)

lemma u64_try_from_usize_Some [wi_words]:
  "u64_try_from_usize n = Some w \<longleftrightarrow> unat w = n"
proof
  assume "u64_try_from_usize n = Some w"
  then show "unat w = n"
    by (auto simp: u64_try_from_usize_def unat_of_nat_u64 split: if_splits)
next
  assume "unat w = n"
  then have "n = unat w" by simp
  then show "u64_try_from_usize n = Some w"
    using unat_u64_bound [of w] by (simp add: u64_try_from_usize_def)
qed

lemma uint_unat_less: "uint (w :: u64) < 2 ^ 63 \<longleftrightarrow> unat w < 2 ^ 63"
proof -
  have "uint w < int (2 ^ 63) \<longleftrightarrow> unat w < 2 ^ 63"
    unfolding uint_nat by (rule of_nat_less_iff)
  then show ?thesis by simp
qed

lemma i64_u64_round_trip: "i64_try_from_u64 w = Some i \<Longrightarrow> u64_try_from_i64 i = Some w"
proof -
  assume "i64_try_from_u64 w = Some i"
  then have "unat w < 2 ^ 63" and i: "i = uint w"
    unfolding i64_try_from_u64_def by (simp_all split: if_splits)
  then have "uint w < 2 ^ 63" unfolding uint_unat_less by simp
  then show ?thesis by (simp add: u64_try_from_i64_def i)
qed

lemma u64_i64_round_trip: "u64_try_from_i64 i = Some w \<Longrightarrow> i64_try_from_u64 w = Some i"
proof -
  assume "u64_try_from_i64 i = Some w"
  then have b: "0 \<le> i" "i < 2 ^ 63" and w: "w = of_int i"
    unfolding u64_try_from_i64_def by (simp_all split: if_splits)
  from b have u: "uint w = i" by (simp add: w uint_word_of_int take_bit_int_eq_self)
  with b have "uint w < 2 ^ 63" by simp
  then have "unat w < 2 ^ 63" unfolding uint_unat_less .
  then show ?thesis by (simp add: i64_try_from_u64_def u)
qed

section \<open>Lists\<close>

text \<open>\<open>str::strip_prefix\<close> and \<open>str::split_once\<close> for one byte.\<close>

fun strip_prefix :: "'a list \<Rightarrow> 'a list \<Rightarrow> 'a list option" where
  "strip_prefix [] s = Some s"
| "strip_prefix (p # ps) [] = None"
| "strip_prefix (p # ps) (c # s) = (if p = c then strip_prefix ps s else None)"

lemma strip_prefix_Some [simp]: "strip_prefix p s = Some r \<longleftrightarrow> s = p @ r"
  by (induction p s rule: strip_prefix.induct) auto

lemma strip_prefix_append [simp]: "strip_prefix p (p @ r) = Some r"
  by simp

fun split_once :: "'a \<Rightarrow> 'a list \<Rightarrow> ('a list \<times> 'a list) option" where
  "split_once d [] = None"
| "split_once d (c # s) =
     (if c = d then Some ([], s) else map_option (\<lambda>(a, b). (c # a, b)) (split_once d s))"

lemma split_once_Some: "split_once d s = Some (a, b) \<longleftrightarrow> s = a @ d # b \<and> d \<notin> set a"
proof (induction s arbitrary: a)
  case Nil
  then show ?case by simp
next
  case (Cons c s)
  show ?case
  proof (cases "c = d")
    case True
    then show ?thesis by (cases a) auto
  next
    case False
    then have "split_once d (c # s) = Some (a, b) \<longleftrightarrow>
        (\<exists>a'. split_once d s = Some (a', b) \<and> a = c # a')"
      by (cases "split_once d s") auto
    also have "\<dots> \<longleftrightarrow> c # s = a @ d # b \<and> d \<notin> set a"
      using Cons.IH False by (cases a) auto
    finally show ?thesis .
  qed
qed

text \<open>\<open>str::split\<close> on one byte, collected: always at least one part.\<close>

fun split_on :: "'a \<Rightarrow> 'a list \<Rightarrow> 'a list list" where
  "split_on d [] = [[]]"
| "split_on d (c # s) =
     (if c = d then [] # split_on d s
      else case split_on d s of [] \<Rightarrow> [[c]] | p # ps \<Rightarrow> (c # p) # ps)"

fun join_on :: "'a \<Rightarrow> 'a list list \<Rightarrow> 'a list" where
  "join_on d [] = []"
| "join_on d [p] = p"
| "join_on d (p # q # ps) = p @ d # join_on d (q # ps)"

lemma split_on_nonempty [simp]: "split_on d s \<noteq> []"
  by (induction s) (auto split: list.split)

lemma join_split_on: "join_on d (split_on d s) = s"
proof (induction s)
  case (Cons c s)
  obtain p ps where "split_on d s = p # ps" by (cases "split_on d s") auto
  then show ?case using Cons by (cases ps) auto
qed simp

lemma split_on_single: "d \<notin> set p \<Longrightarrow> split_on d p = [p]"
  by (induction p) auto

lemma split_on_append: "d \<notin> set p \<Longrightarrow> split_on d (p @ d # s) = p # split_on d s"
  by (induction p) auto

lemma split_on_join: "ps \<noteq> [] \<Longrightarrow> \<forall>p \<in> set ps. d \<notin> set p \<Longrightarrow> split_on d (join_on d ps) = ps"
  by (induction d ps rule: join_on.induct) (auto simp: split_on_single split_on_append)

lemma split_on_parts: "p \<in> set (split_on d s) \<Longrightarrow> d \<notin> set p \<and> set p \<subseteq> set s"
proof (induction s arbitrary: p)
  case (Cons c s)
  obtain q qs where "split_on d s = q # qs" by (cases "split_on d s") auto
  then show ?case using Cons by (fastforce split: if_splits)
qed simp

lemma butlast_concat_terminated: "ps \<noteq> [] \<Longrightarrow> butlast (concat (map (\<lambda>p. p @ [d]) ps)) = join_on d ps"
  by (induction d ps rule: join_on.induct) (auto simp: butlast_append)

text \<open>\<open>slice::windows(2)\<close> with a predicate that must fail on every adjacent pair.\<close>

fun adjacent :: "('a \<Rightarrow> 'a \<Rightarrow> bool) \<Rightarrow> 'a list \<Rightarrow> bool" where
  "adjacent P (x # y # zs) = (P x y \<and> adjacent P (y # zs))"
| "adjacent P xs = True"

lemma adjacent_sorted_wrt: "transp P \<Longrightarrow> adjacent P xs \<longleftrightarrow> sorted_wrt P xs"
  by (induction P xs rule: adjacent.induct) (auto dest: transpD)

end
