(* ===== verification/Rust_Numbers.thy ===== *)
theory Rust_Numbers
  imports Rust_Text
begin

text \<open>
  Printing and parsing of unsigned numbers as the Rust standard library does it:
  \<open>u64::to_string\<close>, \<open>str::parse::<u64>\<close>, \<open>format!("{v:016x}")\<close> and \<open>u64::from_str_radix(_, 16)\<close>.
  The facts the identifier and cursor components need: a printed number parses back, the only
  canonical spelling of a number is the printed one, and fixed-width hexadecimal spellings are
  ordered like the numbers.
\<close>

section \<open>Decimal\<close>

definition is_ascii_digit :: "char \<Rightarrow> bool" where
  "is_ascii_digit c \<longleftrightarrow> 48 \<le> byte c \<and> byte c \<le> 57"

definition digit_char :: "nat \<Rightarrow> char" where
  "digit_char d = char_of (48 + d)"

fun decimal_string :: "nat \<Rightarrow> str" where
  "decimal_string n =
     (if n < 10 then [digit_char n] else decimal_string (n div 10) @ [digit_char (n mod 10)])"

declare decimal_string.simps [simp del]

definition digits_value :: "str \<Rightarrow> nat" where
  "digits_value s = foldl (\<lambda>v c. 10 * v + (byte c - 48)) 0 s"

definition u64_to_string :: "u64 \<Rightarrow> str" where
  "u64_to_string w = decimal_string (unat w)"

text \<open>\<open><u64 as FromStr>\<close>: an optional plus sign, then at least one digit, no overflow.\<close>

definition u64_from_str :: "str \<Rightarrow> u64 option" where
  "u64_from_str s =
     (let d = (case s of c # r \<Rightarrow> if c = CHR ''+'' then r else s | [] \<Rightarrow> [])
      in if d \<noteq> [] \<and> list_all is_ascii_digit d \<and> digits_value d < 2 ^ 64
         then Some (of_nat (digits_value d)) else None)"

lemma byte_digit_char [simp]: "d < 10 \<Longrightarrow> byte (digit_char d) = 48 + d"
  by (simp add: digit_char_def)

lemma is_ascii_digit_char [simp]: "d < 10 \<Longrightarrow> is_ascii_digit (digit_char d)"
  by (simp add: is_ascii_digit_def)

lemma digit_char_byte: "is_ascii_digit c \<Longrightarrow> digit_char (byte c - 48) = c"
  by (simp add: digit_char_def is_ascii_digit_def)

lemma digits_value_snoc [simp]: "digits_value (s @ [c]) = 10 * digits_value s + (byte c - 48)"
  by (simp add: digits_value_def)

lemma digits_value_single [simp]: "digits_value [c] = byte c - 48"
  by (simp add: digits_value_def)

lemma decimal_string_small: "n < 10 \<Longrightarrow> decimal_string n = [digit_char n]"
  by (simp add: decimal_string.simps)

lemma decimal_string_large:
  "\<not> n < 10 \<Longrightarrow> decimal_string n = decimal_string (n div 10) @ [digit_char (n mod 10)]"
  by (subst decimal_string.simps) simp

lemma decimal_string_nonempty [simp]: "decimal_string n \<noteq> []"
  by (subst decimal_string.simps) simp

lemma decimal_string_digits: "list_all is_ascii_digit (decimal_string n)"
proof (induction n rule: decimal_string.induct)
  case (1 n)
  then show ?case
    by (cases "n < 10") (simp_all add: decimal_string_small decimal_string_large)
qed

lemma digits_value_decimal_string [simp]: "digits_value (decimal_string n) = n"
proof (induction n rule: decimal_string.induct)
  case (1 n)
  then show ?case
    by (cases "n < 10") (simp_all add: decimal_string_small decimal_string_large)
qed

text \<open>A spelling is canonical when it is a nonempty run of digits without a leading zero.\<close>

definition canonical_decimal :: "str \<Rightarrow> bool" where
  "canonical_decimal s \<longleftrightarrow>
     s \<noteq> [] \<and> list_all is_ascii_digit s \<and> \<not> (length s > 1 \<and> hd s = CHR ''0'')"

lemma zero_digit: "is_ascii_digit c \<Longrightarrow> byte c - 48 = 0 \<Longrightarrow> c = CHR ''0''"
proof -
  assume "is_ascii_digit c" "byte c - 48 = 0"
  then have "byte c = byte (CHR ''0'')" by (simp add: is_ascii_digit_def)
  then show ?thesis by (metis of_char_eq_iff)
qed

lemma digits_value_pos:
  "s \<noteq> [] \<Longrightarrow> list_all is_ascii_digit s \<Longrightarrow> hd s \<noteq> CHR ''0'' \<Longrightarrow> 0 < digits_value s"
proof (induction s rule: rev_induct)
  case Nil
  then show ?case by simp
next
  case (snoc c s)
  show ?case
  proof (cases "s = []")
    case True
    with snoc.prems have "byte c - 48 \<noteq> 0" using zero_digit [of c] by auto
    with True show ?thesis by simp
  next
    case False
    with snoc show ?thesis by simp
  qed
qed

lemma decimal_string_digits_value: "canonical_decimal s \<Longrightarrow> decimal_string (digits_value s) = s"
proof (induction s rule: rev_induct)
  case Nil
  then show ?case by (simp add: canonical_decimal_def)
next
  case (snoc c s)
  from snoc.prems have dc: "is_ascii_digit c" and ds: "list_all is_ascii_digit s"
    by (auto simp: canonical_decimal_def)
  have c9: "byte c - 48 < 10" using dc unfolding is_ascii_digit_def by linarith
  show ?case
  proof (cases "s = []")
    case True
    then show ?thesis using c9 dc by (simp add: decimal_string_small digit_char_byte)
  next
    case False
    with snoc.prems have hd: "hd s \<noteq> CHR ''0''" by (cases s) (auto simp: canonical_decimal_def)
    with False ds have pos: "0 < digits_value s" by (intro digits_value_pos)
    have can: "canonical_decimal s" using False ds hd by (simp add: canonical_decimal_def)
    let ?n = "10 * digits_value s + (byte c - 48)"
    have "\<not> ?n < 10" using pos by simp
    then have "decimal_string ?n = decimal_string (?n div 10) @ [digit_char (?n mod 10)]"
      by (rule decimal_string_large)
    also have "?n div 10 = digits_value s" using c9 by simp
    also have "?n mod 10 = byte c - 48" using c9 by simp
    finally show ?thesis using snoc.IH [OF can] dc by (simp add: digit_char_byte)
  qed
qed

lemma canonical_decimal_string: "canonical_decimal (decimal_string n)"
proof (induction n rule: decimal_string.induct)
  case (1 n)
  show ?case
  proof (cases "n < 10")
    case True
    then show ?thesis by (simp add: canonical_decimal_def decimal_string_small)
  next
    case False
    let ?t = "decimal_string (n div 10)"
    have t: "canonical_decimal ?t" using 1 False by simp
    have "hd ?t \<noteq> CHR ''0''"
    proof
      assume h: "hd ?t = CHR ''0''"
      with t have "length ?t = 1" by (cases ?t) (auto simp: canonical_decimal_def)
      then obtain c where c: "?t = [c]" by (cases ?t) auto
      with h have "?t = ''0''" by simp
      then have "digits_value ?t = 0" by (simp add: digits_value_def)
      then show False using False by simp
    qed
    then show ?thesis
      using t False by (simp add: canonical_decimal_def decimal_string_large)
  qed
qed

lemma u64_from_str_digits:
  "list_all is_ascii_digit s \<Longrightarrow>
     u64_from_str s = (if s \<noteq> [] \<and> digits_value s < 2 ^ 64 then Some (of_nat (digits_value s)) else None)"
  by (cases s) (auto simp: u64_from_str_def is_ascii_digit_def)

lemma u64_from_str_to_string [simp]: "u64_from_str (u64_to_string w) = Some w"
  using decimal_string_digits [of "unat w"] unat_u64_bound [of w]
  by (simp add: u64_to_string_def u64_from_str_digits)

lemma u64_to_string_inj [simp]: "u64_to_string v = u64_to_string w \<longleftrightarrow> v = w"
  by (metis option.inject u64_from_str_to_string)

lemma u64_to_string_nonempty [simp]: "u64_to_string w \<noteq> []"
  by (simp add: u64_to_string_def)

lemma u64_to_string_digits: "list_all is_ascii_digit (u64_to_string w)"
  by (simp add: u64_to_string_def decimal_string_digits)

lemma no_colon_u64 [simp]: "CHR '':'' \<notin> set (u64_to_string w)"
proof
  assume "CHR '':'' \<in> set (u64_to_string w)"
  with u64_to_string_digits [of w] have "is_ascii_digit (CHR '':'')" by (auto simp: list_all_iff)
  then show False by (simp add: is_ascii_digit_def)
qed

section \<open>Hexadecimal\<close>

definition is_lower_hex :: "char \<Rightarrow> bool" where
  "is_lower_hex c \<longleftrightarrow> is_ascii_digit c \<or> (97 \<le> byte c \<and> byte c \<le> 102)"

definition hex_char :: "nat \<Rightarrow> char" where
  "hex_char d = (if d < 10 then char_of (48 + d) else char_of (87 + d))"

definition hex_digit_value :: "char \<Rightarrow> nat option" where
  "hex_digit_value c =
     (if is_ascii_digit c then Some (byte c - 48)
      else if 97 \<le> byte c \<and> byte c \<le> 102 then Some (byte c - 87)
      else if 65 \<le> byte c \<and> byte c \<le> 70 then Some (byte c - 55)
      else None)"

text \<open>\<open>{v:0kx}\<close> for a number below \<open>16 ^ k\<close>.\<close>

primrec hex_digits :: "nat \<Rightarrow> nat \<Rightarrow> str" where
  "hex_digits 0 n = []"
| "hex_digits (Suc k) n = hex_char (n div 16 ^ k) # hex_digits k (n mod 16 ^ k)"

definition hex_value :: "str \<Rightarrow> nat" where
  "hex_value s = foldl (\<lambda>v c. 16 * v + the (hex_digit_value c)) 0 s"

text \<open>\<open>u64::from_str_radix(s, 16)\<close>.\<close>

definition u64_from_hex :: "str \<Rightarrow> u64 option" where
  "u64_from_hex s =
     (let d = (case s of c # r \<Rightarrow> if c = CHR ''+'' then r else s | [] \<Rightarrow> [])
      in if d \<noteq> [] \<and> list_all (\<lambda>c. hex_digit_value c \<noteq> None) d \<and> hex_value d < 2 ^ 64
         then Some (of_nat (hex_value d)) else None)"

lemma length_hex_digits [simp]: "length (hex_digits k n) = k"
  by (induction k arbitrary: n) auto

lemma hex_char_byte: "d < 16 \<Longrightarrow> byte (hex_char d) = (if d < 10 then 48 + d else 87 + d)"
  by (simp add: hex_char_def)

lemma hex_char_lower [simp]: "d < 16 \<Longrightarrow> is_lower_hex (hex_char d)"
  by (auto simp: is_lower_hex_def is_ascii_digit_def hex_char_byte)

lemma hex_char_value [simp]: "d < 16 \<Longrightarrow> hex_digit_value (hex_char d) = Some d"
  by (auto simp: hex_digit_value_def is_ascii_digit_def hex_char_byte)

lemma hex_char_less: "d < e \<Longrightarrow> e < 16 \<Longrightarrow> hex_char d < hex_char e"
  by (simp add: less_char_def hex_char_byte)

lemma hex_digit_value_lower:
  assumes "is_lower_hex c"
  obtains d where "hex_digit_value c = Some d" "d < 16" "hex_char d = c"
proof (cases "is_ascii_digit c")
  case True
  then have "byte c - 48 < 10" "48 \<le> byte c" unfolding is_ascii_digit_def by linarith+
  with True show thesis by (intro that [of "byte c - 48"]) (auto simp: hex_digit_value_def hex_char_def)
next
  case False
  with assms have b: "97 \<le> byte c" "byte c \<le> 102" by (auto simp: is_lower_hex_def)
  then have "byte c - 87 < 16" "\<not> byte c - 87 < 10" "87 + (byte c - 87) = byte c" by linarith+
  with False b show thesis
    by (intro that [of "byte c - 87"]) (auto simp: hex_digit_value_def hex_char_def)
qed

lemma hex_digits_lower: "n < 16 ^ k \<Longrightarrow> list_all is_lower_hex (hex_digits k n)"
proof (induction k arbitrary: n)
  case (Suc k)
  have "n div 16 ^ k < 16" using Suc.prems by (simp add: less_mult_imp_div_less)
  then show ?case using Suc.IH [of "n mod 16 ^ k"] by simp
qed simp

lemma hex_value_foldl:
  "foldl (\<lambda>v c. 16 * v + the (hex_digit_value c)) a s = a * 16 ^ length s + hex_value s"
proof (induction s rule: rev_induct)
  case Nil
  then show ?case by (simp add: hex_value_def)
next
  case (snoc c s)
  then show ?case by (simp add: hex_value_def)
qed

lemma hex_value_Cons: "hex_value (c # s) = the (hex_digit_value c) * 16 ^ length s + hex_value s"
  using hex_value_foldl [of "the (hex_digit_value c)" s] by (simp add: hex_value_def)

lemma hex_value_Nil [simp]: "hex_value [] = 0"
  by (simp add: hex_value_def)

lemma hex_value_digits [simp]: "n < 16 ^ k \<Longrightarrow> hex_value (hex_digits k n) = n"
proof (induction k arbitrary: n)
  case (Suc k)
  have "n div 16 ^ k < 16" using Suc.prems by (simp add: less_mult_imp_div_less)
  then show ?case using Suc.IH [of "n mod 16 ^ k"] by (simp add: hex_value_Cons div_mult_mod_eq)
qed simp

lemma hex_value_bound: "list_all is_lower_hex s \<Longrightarrow> hex_value s < 16 ^ length s"
proof (induction s)
  case (Cons c s)
  from Cons.prems have "is_lower_hex c" by simp
  then obtain d where d: "hex_digit_value c = Some d" "d < 16"
    by (rule hex_digit_value_lower)
  have "d * 16 ^ length s + hex_value s < d * 16 ^ length s + 16 ^ length s"
    using Cons by simp
  also have "\<dots> = Suc d * 16 ^ length s" by simp
  also have "\<dots> \<le> 16 * 16 ^ length s" using d(2) by (intro mult_le_mono) auto
  finally show ?case using d(1) by (simp add: hex_value_Cons)
qed simp

lemma hex_digits_value: "list_all is_lower_hex s \<Longrightarrow> hex_digits (length s) (hex_value s) = s"
proof (induction s)
  case (Cons c s)
  from Cons.prems have "is_lower_hex c" by simp
  then obtain d where d: "hex_digit_value c = Some d" "d < 16" "hex_char d = c"
    by (rule hex_digit_value_lower)
  have b: "hex_value s < 16 ^ length s" using Cons.prems by (simp add: hex_value_bound)
  have v: "hex_value (c # s) = d * 16 ^ length s + hex_value s" using d by (simp add: hex_value_Cons)
  have "hex_value (c # s) div 16 ^ length s = d" "hex_value (c # s) mod 16 ^ length s = hex_value s"
    unfolding v using b by simp_all
  then show ?case using d Cons by simp
qed simp

lemma hex_digits_less:
  "m < n \<Longrightarrow> n < 16 ^ k \<Longrightarrow> hex_digits k m @ u < hex_digits k n @ v"
proof (induction k arbitrary: m n)
  case (Suc k)
  let ?p = "16 ^ k :: nat"
  have n: "n div ?p < 16" using Suc.prems by (simp add: less_mult_imp_div_less)
  have le: "m div ?p \<le> n div ?p" using Suc.prems by (intro div_le_mono) simp
  show ?case
  proof (cases "m div ?p = n div ?p")
    case True
    then have "m mod ?p < n mod ?p"
      using Suc.prems(1) by (metis div_mult_mod_eq nat_add_left_cancel_less)
    then have "hex_digits k (m mod ?p) @ u < hex_digits k (n mod ?p) @ v" by (intro Suc.IH) simp_all
    with True show ?thesis by simp
  next
    case False
    then have "hex_char (m div ?p) < hex_char (n div ?p)" using le n by (intro hex_char_less) simp_all
    then show ?thesis by simp
  qed
qed simp

lemma u64_from_hex_lower:
  assumes "list_all is_lower_hex s" "s \<noteq> []" "length s \<le> 16"
  shows "u64_from_hex s = Some (of_nat (hex_value s))"
proof -
  have d: "list_all (\<lambda>c. hex_digit_value c \<noteq> None) s"
    using assms(1) by (auto simp: list_all_iff elim: hex_digit_value_lower)
  have "hex_value s < 16 ^ length s" using assms(1) by (rule hex_value_bound)
  also have "\<dots> \<le> (16 :: nat) ^ 16" using assms(3) by (intro power_increasing) simp_all
  finally have "hex_value s < 2 ^ 64" by simp
  moreover have "hd s \<noteq> CHR ''+''"
  proof
    assume "hd s = CHR ''+''"
    with assms(1,2) have "is_lower_hex (CHR ''+'')" by (cases s) auto
    then show False by (simp add: is_lower_hex_def is_ascii_digit_def)
  qed
  ultimately show ?thesis using d assms(2) by (cases s) (auto simp: u64_from_hex_def)
qed

end
