(* ===== verification/Identifiers.thy ===== *)
theory Identifiers
  imports Rust_Numbers
begin

text \<open>
  The identifiers of \<open>src/identifiers.rs\<close>, \<open>src/storage/ids.rs\<close>, \<open>src/conversation/ids.rs\<close> and the
  two spelling checks of \<open>src/conversation/mod.rs\<close>.

  The \<open>uuid\<close> crate is a parameter, \<open>uuid_crate\<close>: \<open>Uuid::parse_str\<close>, \<open>Uuid::is_nil\<close> and the
  hyphenated spelling.  An application session id, run id, operation id or stored event id is the
  string it wraps; the constructors that check it are \<open>storage_id_from_str\<close> and
  \<open>is_canonical_uuid\<close>.
\<close>

section \<open>Universally unique ids\<close>

record 'u uuid_crate =
  uuid_parse_str :: "str \<Rightarrow> 'u option"
  uuid_is_nil :: "'u \<Rightarrow> bool"
  uuid_hyphenated :: "'u \<Rightarrow> str"

definition str_is_ascii :: "str \<Rightarrow> bool" where
  "str_is_ascii s \<longleftrightarrow> list_all (\<lambda>c. byte c < 128) s"

definition is_canonical_uuid :: "'u uuid_crate \<Rightarrow> str \<Rightarrow> bool" where
  "is_canonical_uuid uu value =
     (if length value \<noteq> 36 \<or> \<not> str_is_ascii value then False
      else case uuid_parse_str uu value of
             None \<Rightarrow> False
           | Some i \<Rightarrow> \<not> uuid_is_nil uu i \<and> uuid_hyphenated uu i = value)"

definition is_local_event_id :: "'u uuid_crate \<Rightarrow> str \<Rightarrow> str \<Rightarrow> u64 \<Rightarrow> bool" where
  "is_local_event_id uu event session sequence =
     (if \<not> is_canonical_uuid uu session \<or> sequence = 0 \<or> length event > 57 then False
      else case Option.bind (strip_prefix session event) (strip_prefix '':'') of
             None \<Rightarrow> False
           | Some decimal \<Rightarrow> decimal = u64_to_string sequence)"

text \<open>\<open>ApplicationSessionId::from_str\<close>, and through the macro \<open>storage_id!\<close> the one of \<open>OperationId\<close>,
  \<open>RunId\<close> and \<open>StoredEventId\<close>.  The error is \<open>storage.invalid_input\<close>.\<close>

datatype storage_id_error = StorageIdInvalid

definition storage_id_from_str :: "'u uuid_crate \<Rightarrow> str \<Rightarrow> storage_id_error + str" where
  "storage_id_from_str uu value =
     and_then (ok_or StorageIdInvalid (uuid_parse_str uu value)) (\<lambda>i.
     and_then (reject_if (uuid_is_nil uu i \<or> uuid_hyphenated uu i \<noteq> value) StorageIdInvalid) (\<lambda>_.
     Ok value))"

lemma storage_id_from_str_Ok: "storage_id_from_str uu value = Ok i \<Longrightarrow> i = value"
  by (auto simp: storage_id_from_str_def wi_results)

lemma storage_id_not_empty:
  assumes "storage_id_from_str uu value = Ok i"
    and "\<And>u. length (uuid_hyphenated uu u) = 36"
  shows "length i = 36"
  using assms by (auto simp: storage_id_from_str_def wi_results)

section \<open>Decimal numbers and field ids\<close>

definition decimal :: "str \<Rightarrow> u64 option" where
  "decimal value =
     (if value = [] \<or> \<not> list_all is_ascii_digit value \<or> (length value > 1 \<and> hd value = CHR ''0'')
      then None else u64_from_str value)"

definition valid_field_id :: "str \<Rightarrow> bool" where
  "valid_field_id value \<longleftrightarrow>
     value = ''text'' \<or> (length value = 64 \<and> list_all is_lower_hex value)"

lemma decimal_canonical:
  "decimal s = (if canonical_decimal s \<and> digits_value s < 2 ^ 64 then Some (of_nat (digits_value s)) else None)"
  by (auto simp: decimal_def canonical_decimal_def u64_from_str_digits)

lemma decimal_Some: "decimal s = Some w \<longleftrightarrow> s = u64_to_string w"
proof
  assume "decimal s = Some w"
  then have c: "canonical_decimal s" and b: "digits_value s < 2 ^ 64" and w: "w = of_nat (digits_value s)"
    by (auto simp: decimal_canonical split: if_splits)
  have "unat w = digits_value s" using b by (simp add: w unat_of_nat_u64)
  then show "s = u64_to_string w" using c by (simp add: u64_to_string_def decimal_string_digits_value)
next
  assume "s = u64_to_string w"
  then show "decimal s = Some w"
    using unat_u64_bound [of w]
    by (simp add: decimal_canonical u64_to_string_def canonical_decimal_string)
qed

section \<open>Entry ids\<close>

record EntryId =
  first_sequence :: u64
  position_slot :: u64

datatype EntryIdError = EntryIdError

definition EntryId_new :: "u64 \<Rightarrow> u64 \<Rightarrow> EntryIdError + EntryId" where
  "EntryId_new first slot =
     and_then (reject_if (first = 0) EntryIdError) (\<lambda>_.
     Ok \<lparr>first_sequence = first, position_slot = slot\<rparr>)"

definition EntryId_from_str :: "str \<Rightarrow> EntryIdError + EntryId" where
  "EntryId_from_str value =
     and_then (ok_or EntryIdError (Option.bind (strip_prefix ''e:'' value) (split_once CHR '':''))) (\<lambda>(sequence, slot).
     and_then (ok_or EntryIdError (decimal sequence)) (\<lambda>sequence.
     and_then (ok_or EntryIdError (decimal slot)) (\<lambda>slot.
     EntryId_new sequence slot)))"

definition EntryId_to_string :: "EntryId \<Rightarrow> str" where
  "EntryId_to_string i = ''e:'' @ u64_to_string (first_sequence i) @ '':'' @ u64_to_string (position_slot i)"

text \<open>The derived order: by sequence, then by slot.\<close>

definition EntryId_less :: "EntryId \<Rightarrow> EntryId \<Rightarrow> bool" where
  "EntryId_less a b \<longleftrightarrow>
     first_sequence a < first_sequence b \<or>
     (first_sequence a = first_sequence b \<and> position_slot a < position_slot b)"

lemma EntryId_new_Ok:
  "EntryId_new f s = Ok i \<longleftrightarrow> f \<noteq> 0 \<and> first_sequence i = f \<and> position_slot i = s"
  by (cases i) (auto simp: EntryId_new_def wi_results)

lemma EntryId_from_str_iff:
  "EntryId_from_str s = Ok i \<longleftrightarrow> first_sequence i \<noteq> 0 \<and> s = EntryId_to_string i"
  by (auto simp: EntryId_from_str_def EntryId_to_string_def wi_results EntryId_new_Ok
      split_once_Some decimal_Some Option.bind_eq_Some_conv)

lemma EntryId_to_string_inj [simp]: "EntryId_to_string a = EntryId_to_string b \<longleftrightarrow> a = b"
proof
  have sp: "split_once CHR '':'' (u64_to_string (first_sequence i) @ CHR '':'' # u64_to_string (position_slot i)) =
      Some (u64_to_string (first_sequence i), u64_to_string (position_slot i))" for i
    by (simp add: split_once_Some)
  assume "EntryId_to_string a = EntryId_to_string b"
  then have "Some (u64_to_string (first_sequence a), u64_to_string (position_slot a)) =
      Some (u64_to_string (first_sequence b), u64_to_string (position_slot b))"
    unfolding sp [symmetric] by (simp add: EntryId_to_string_def)
  then show "a = b" by simp
qed simp

lemma EntryId_to_string_nonempty [simp]: "EntryId_to_string i \<noteq> []"
  by (simp add: EntryId_to_string_def)

lemma EntryId_less_linear: "EntryId_less a b \<or> a = b \<or> EntryId_less b a"
  by (cases a; cases b) (auto simp: EntryId_less_def)

lemma EntryId_less_transp: "transp EntryId_less"
  by (auto simp: transp_def EntryId_less_def)

section \<open>Properties\<close>

text \<open>C35: an entry id and its spelling correspond one to one: a string parses exactly to the positive-sequence
  id it is the printed form of, so no second spelling is accepted.\<close>

theorem entry_id_round_trip:
  "EntryId_from_str s = Ok i \<longleftrightarrow> first_sequence i \<noteq> 0 \<and> s = EntryId_to_string i"
  by (rule EntryId_from_str_iff)

text \<open>C36: the provider boundary and the storage layer accept the same ids: for a uuid library whose
  hyphenated spelling is 36 ASCII bytes, \<open>is_canonical_uuid\<close> holds of exactly the strings
  \<open>ApplicationSessionId::from_str\<close> accepts.\<close>

theorem canonical_uuid_agrees:
  assumes "\<And>u. length (uuid_hyphenated uu u) = 36 \<and> str_is_ascii (uuid_hyphenated uu u)"
  shows "is_canonical_uuid uu value \<longleftrightarrow> storage_id_from_str uu value = Ok value"
proof (cases "uuid_parse_str uu value")
  case (Some u)
  then show ?thesis
    using assms [of u] by (auto simp: is_canonical_uuid_def storage_id_from_str_def reject_if_def)
qed (simp add: is_canonical_uuid_def storage_id_from_str_def)

theorem canonical_uuid_agrees_witness:
  "is_canonical_uuid
     \<lparr>uuid_parse_str = (\<lambda>s. Some (length s)), uuid_is_nil = (\<lambda>n. n = 0), uuid_hyphenated = (\<lambda>n. replicate 36 CHR ''a'')\<rparr>
     (replicate 36 CHR ''a'')"
  by (subst canonical_uuid_agrees)
    (simp_all add: str_is_ascii_def list_all_iff storage_id_from_str_def reject_if_def)

text \<open>C37: the only event id accepted for a session and a positive local sequence number is the session id, a
  colon and the number's canonical decimal spelling.\<close>

theorem local_event_id_unique:
  assumes "is_local_event_id uu event session sequence"
  shows "event = session @ '':'' @ u64_to_string sequence \<and> sequence \<noteq> 0 \<and> is_canonical_uuid uu session"
  using assms
  by (auto simp: is_local_event_id_def Option.bind_eq_Some_conv split: if_splits option.splits)

theorem local_event_id_unique_witness:
  "\<exists>uu session event. is_local_event_id (uu :: nat uuid_crate) event session 3 \<and> event = session @ '':'' @ u64_to_string 3"
proof -
  let ?u = "\<lparr>uuid_parse_str = (\<lambda>s. Some (length s)), uuid_is_nil = (\<lambda>n. n = 0), uuid_hyphenated = (\<lambda>n. replicate 36 CHR ''a'')\<rparr>"
  let ?s = "replicate 36 CHR ''a''"
  have ok: "is_local_event_id ?u (?s @ '':'' @ u64_to_string 3) ?s 3"
    by (simp add: is_local_event_id_def is_canonical_uuid_def str_is_ascii_def list_all_iff
        u64_to_string_def decimal_string_small)
  then show ?thesis using local_event_id_unique [OF ok] by blast
qed

end
