(* ===== verification/Order_Keys.thy ===== *)
theory Order_Keys
  imports Identifiers "HOL-Library.Option_ord" "HOL-Library.Product_Lexorder"
begin

text \<open>
  \<open>OrderKey\<close> and \<open>FieldRank\<close> of \<open>src/conversation/primitives.rs\<close>.  The store keeps the printed key
  in a text column and orders and ranges over it with SQLite's byte-wise comparison, so the code
  relies on the printed keys being ordered like \<open>OrderKey::cmp\<close>.  The locale \<open>order_code\<close> states what
  makes that work for one component of the key: a smaller value is spelled below a larger one
  whatever follows.
\<close>

datatype ProjectionError = ProjectionError

datatype FieldRank =
    RankSummary | RankFallback | RankContent | RankFunctionName | RankFunctionArguments
  | RankToolName | RankToolOutput | RankUnsupported | RankNotice

fun FieldRank_code :: "FieldRank \<Rightarrow> u64" where
  "FieldRank_code RankSummary = 0"
| "FieldRank_code RankFallback = 1"
| "FieldRank_code RankContent = 2"
| "FieldRank_code RankFunctionName = 3"
| "FieldRank_code RankFunctionArguments = 4"
| "FieldRank_code RankToolName = 5"
| "FieldRank_code RankToolOutput = 6"
| "FieldRank_code RankUnsupported = 7"
| "FieldRank_code RankNotice = 8"

fun FieldRank_group :: "FieldRank \<Rightarrow> u64" where
  "FieldRank_group RankSummary = 0"
| "FieldRank_group RankFallback = 1"
| "FieldRank_group RankContent = 1"
| "FieldRank_group RankFunctionName = 2"
| "FieldRank_group RankFunctionArguments = 3"
| "FieldRank_group RankToolName = 4"
| "FieldRank_group RankToolOutput = 5"
| "FieldRank_group RankUnsupported = 6"
| "FieldRank_group RankNotice = 7"

text \<open>The derived order of the enum is the order of its declaration.\<close>

fun FieldRank_index :: "FieldRank \<Rightarrow> nat" where
  "FieldRank_index RankSummary = 0"
| "FieldRank_index RankFallback = 1"
| "FieldRank_index RankContent = 2"
| "FieldRank_index RankFunctionName = 3"
| "FieldRank_index RankFunctionArguments = 4"
| "FieldRank_index RankToolName = 5"
| "FieldRank_index RankToolOutput = 6"
| "FieldRank_index RankUnsupported = 7"
| "FieldRank_index RankNotice = 8"

lemma FieldRank_index_inj: "FieldRank_index r = FieldRank_index r' \<Longrightarrow> r = r'"
  by (cases r; cases r') simp_all

instantiation FieldRank :: linorder
begin

definition less_eq_FieldRank :: "FieldRank \<Rightarrow> FieldRank \<Rightarrow> bool" where
  "less_eq_FieldRank r r' \<longleftrightarrow> FieldRank_index r \<le> FieldRank_index r'"

definition less_FieldRank :: "FieldRank \<Rightarrow> FieldRank \<Rightarrow> bool" where
  "less_FieldRank r r' \<longleftrightarrow> FieldRank_index r < FieldRank_index r'"

instance
  by standard (auto simp: less_eq_FieldRank_def less_FieldRank_def intro: FieldRank_index_inj)

end

record OrderKey =
  key_output :: "u64 option"
  key_rank :: FieldRank
  key_summary :: "u64 option"
  key_content :: "u64 option"

definition OrderKey_new :: "u64 option \<Rightarrow> FieldRank \<Rightarrow> u64 option \<Rightarrow> u64 option \<Rightarrow> OrderKey" where
  "OrderKey_new output rank summary content =
     \<lparr>key_output = output, key_rank = rank, key_summary = summary, key_content = content\<rparr>"

definition sortable_tuple ::
    "OrderKey \<Rightarrow> u64 option \<times> u64 \<times> u64 option \<times> u64 option \<times> FieldRank" where
  "sortable_tuple k =
     (key_output k, FieldRank_group (key_rank k), key_summary k, key_content k, key_rank k)"

text \<open>\<open>OrderKey::cmp(a, b) == Less\<close>.\<close>

definition OrderKey_less :: "OrderKey \<Rightarrow> OrderKey \<Rightarrow> bool" where
  "OrderKey_less a b \<longleftrightarrow> sortable_tuple a < sortable_tuple b"

definition hex :: "u64 \<Rightarrow> str" where
  "hex value = hex_digits 16 (unat value)"

definition parse_hex :: "str \<Rightarrow> ProjectionError + u64" where
  "parse_hex value =
     and_then (reject_if (length value \<noteq> 16 \<or> \<not> list_all is_lower_hex value) ProjectionError) (\<lambda>_.
     ok_or ProjectionError (u64_from_hex value))"

fun component :: "u64 option \<Rightarrow> str" where
  "component None = ''0''"
| "component (Some value) = CHR ''1'' # hex value"

definition parse_component :: "str \<Rightarrow> ProjectionError + u64 option" where
  "parse_component value =
     (if value = ''0'' then Ok None
      else and_then (ok_or ProjectionError (strip_prefix ''1'' value)) (\<lambda>digits.
           map_ok Some (parse_hex digits)))"

definition OrderKey_to_string :: "OrderKey \<Rightarrow> str" where
  "OrderKey_to_string k =
     component (key_output k) @ '':'' @ hex (FieldRank_group (key_rank k)) @ '':'' @
     component (key_summary k) @ '':'' @ component (key_content k) @ '':'' @
     hex (FieldRank_code (key_rank k))"

definition rank_of_code :: "u64 \<Rightarrow> ProjectionError + FieldRank" where
  "rank_of_code c =
     (if c = 0 then Ok RankSummary
      else if c = 1 then Ok RankFallback
      else if c = 2 then Ok RankContent
      else if c = 3 then Ok RankFunctionName
      else if c = 4 then Ok RankFunctionArguments
      else if c = 5 then Ok RankToolName
      else if c = 6 then Ok RankToolOutput
      else if c = 7 then Ok RankUnsupported
      else if c = 8 then Ok RankNotice
      else Err ProjectionError)"

text \<open>\<open>parts.next().ok_or(..)\<close> for the part at position i.\<close>

definition next_part :: "str list \<Rightarrow> nat \<Rightarrow> ProjectionError + str" where
  "next_part parts i = ok_or ProjectionError (if i < length parts then Some (parts ! i) else None)"

definition OrderKey_from_str :: "str \<Rightarrow> ProjectionError + OrderKey" where
  "OrderKey_from_str value =
     (let parts = split_on CHR '':'' value in
      and_then (and_then (next_part parts 0) parse_component) (\<lambda>output.
      and_then (and_then (next_part parts 1) parse_hex) (\<lambda>group.
      and_then (and_then (next_part parts 2) parse_component) (\<lambda>summary.
      and_then (and_then (next_part parts 3) parse_component) (\<lambda>content.
      and_then (and_then (and_then (next_part parts 4) parse_hex) rank_of_code) (\<lambda>rank.
      and_then (reject_if (group \<noteq> FieldRank_group rank \<or> 5 < length parts) ProjectionError) (\<lambda>_.
      Ok (OrderKey_new output rank summary content))))))))"

definition source_spelling :: "OrderKey \<Rightarrow> str" where
  "source_spelling k =
     (let content = (if key_rank k = RankFallback then None else key_content k) in
      component (key_output k) @ '':'' @ u64_to_string (FieldRank_code (key_rank k)) @ '':'' @
      component (key_summary k) @ '':'' @ component content)"

definition output_range :: "u64 \<Rightarrow> str \<times> str" where
  "output_range output =
     (let prefix = component (Some output) in (prefix @ '':'', prefix @ '';''))"

section \<open>Order-preserving spellings\<close>

locale order_code =
  fixes enc :: "'a :: linorder \<Rightarrow> str"
  assumes below: "x < y \<Longrightarrow> enc x @ u < enc y @ v"
begin

lemma enc_append_eq: "enc x @ u = enc y @ v \<longleftrightarrow> x = y \<and> u = v"
proof
  assume eq: "enc x @ u = enc y @ v"
  have "x = y"
  proof (rule ccontr)
    assume "x \<noteq> y"
    then have "x < y \<or> y < x" by auto
    with eq show False using below [of x y u v] below [of y x v u] by auto
  qed
  with eq show "x = y \<and> u = v" by simp
qed simp

lemma append_less_append: "(a :: str) @ u < a @ v \<longleftrightarrow> u < v"
  by (induction a) auto

lemma enc_append_less: "enc x @ u < enc y @ v \<longleftrightarrow> x < y \<or> x = y \<and> u < v"
proof (cases rule: linorder_cases [of x y])
  case less
  then show ?thesis using below by simp
next
  case equal
  then show ?thesis by (simp add: append_less_append)
next
  case greater
  then have "enc y @ v < enc x @ u" by (rule below)
  with greater show ?thesis by (auto dest: less_not_sym)
qed

lemma enc_eq: "enc x = enc y \<longleftrightarrow> x = y"
  using enc_append_eq [of x "[]" y "[]"] by simp

lemma enc_less: "enc x < enc y \<longleftrightarrow> x < y"
  using enc_append_less [of x "[]" y "[]"] by simp

end

lemma hex_below: "x < y \<Longrightarrow> hex x @ u < hex y @ v"
  using unat_u64_bound [of y] unfolding hex_def word_less_nat_alt by (intro hex_digits_less) simp_all

lemma component_below: "x < y \<Longrightarrow> component x @ u < component y @ v"
  by (cases x; cases y) (auto simp: hex_below less_char_def)

interpretation hex_code: order_code hex
  by unfold_locales (rule hex_below)

interpretation component_code: order_code component
  by unfold_locales (rule component_below)

lemmas order_code_facts = hex_code.enc_append_eq hex_code.enc_append_less hex_code.enc_eq
  hex_code.enc_less component_code.enc_append_eq component_code.enc_append_less component_code.enc_eq

section \<open>Parsing\<close>

lemma hex_chars: "list_all is_lower_hex (hex w)"
  using unat_u64_bound [of w] by (simp add: hex_def hex_digits_lower)

lemma parse_hex_iff: "parse_hex s = Ok w \<longleftrightarrow> s = hex w"
proof
  assume "parse_hex s = Ok w"
  then have l: "length s = 16" and h: "list_all is_lower_hex s" and p: "u64_from_hex s = Some w"
    by (auto simp: parse_hex_def wi_results)
  have b: "hex_value s < 2 ^ 64" using hex_value_bound [OF h] by (simp add: l)
  from l have ne: "s \<noteq> []" by auto
  have "w = of_nat (hex_value s)" using u64_from_hex_lower [OF h ne] l p by simp
  then have "unat w = hex_value s" using b by (simp add: unat_of_nat_u64)
  then show "s = hex w" using hex_digits_value [OF h] by (simp add: hex_def l)
next
  assume s: "s = hex w"
  have l: "length s = 16" by (simp add: s hex_def)
  have h: "list_all is_lower_hex s" by (simp add: s hex_chars)
  have v: "hex_value s = unat w" using unat_u64_bound [of w] by (simp add: s hex_def)
  have ne: "s \<noteq> []" using l by auto
  show "parse_hex s = Ok w" using u64_from_hex_lower [OF h ne] l h v by (simp add: parse_hex_def reject_if_def)
qed

lemma parse_component_iff: "parse_component s = Ok x \<longleftrightarrow> s = component x"
  by (cases x) (auto simp: parse_component_def parse_hex_iff wi_results)

lemma no_colon_hex [simp]: "CHR '':'' \<notin> set (hex w)"
proof
  assume "CHR '':'' \<in> set (hex w)"
  with hex_chars [of w] have "is_lower_hex (CHR '':'')" by (auto simp: list_all_iff)
  then show False by (simp add: is_lower_hex_def is_ascii_digit_def)
qed

lemma no_colon_component [simp]: "CHR '':'' \<notin> set (component x)"
  by (cases x) simp_all

lemma rank_of_code_iff: "rank_of_code c = Ok r \<longleftrightarrow> c = FieldRank_code r"
  by (cases r) (auto simp: rank_of_code_def)

lemma FieldRank_code_inj [simp]: "FieldRank_code r = FieldRank_code r' \<longleftrightarrow> r = r'"
  using rank_of_code_iff [of "FieldRank_code r" r'] rank_of_code_iff [of "FieldRank_code r" r] by auto

lemma OrderKey_string_join:
  "OrderKey_to_string k =
     join_on CHR '':'' [component (key_output k), hex (FieldRank_group (key_rank k)),
       component (key_summary k), component (key_content k), hex (FieldRank_code (key_rank k))]"
  by (simp add: OrderKey_to_string_def)

lemma split_OrderKey_string:
  "split_on CHR '':'' (OrderKey_to_string k) =
     [component (key_output k), hex (FieldRank_group (key_rank k)),
      component (key_summary k), component (key_content k), hex (FieldRank_code (key_rank k))]"
  unfolding OrderKey_string_join by (rule split_on_join) simp_all

lemma OrderKey_parse_print: "OrderKey_from_str (OrderKey_to_string k) = Ok k"
proof -
  have "\<And>w. parse_hex (hex w) = Ok w" and "\<And>x. parse_component (component x) = Ok x"
    and "\<And>r. rank_of_code (FieldRank_code r) = Ok r"
    by (simp_all add: parse_hex_iff parse_component_iff rank_of_code_iff)
  then show ?thesis
    by (simp add: OrderKey_from_str_def split_OrderKey_string next_part_def reject_if_def
        OrderKey_new_def)
qed

lemma five_parts: "length ps = 5 \<Longrightarrow> ps = [ps ! 0, ps ! 1, ps ! 2, ps ! 3, ps ! 4]"
  by (rule nth_equalityI) (auto simp: less_Suc_eq numeral_eq_Suc)

lemma OrderKey_print_parse: "OrderKey_from_str s = Ok k \<Longrightarrow> OrderKey_to_string k = s"
proof -
  let ?p = "split_on CHR '':'' s"
  assume ok: "OrderKey_from_str s = Ok k"
  then have len: "length ?p = 5"
    and parts: "?p ! 0 = component (key_output k)" "?p ! 1 = hex (FieldRank_group (key_rank k))"
      "?p ! 2 = component (key_summary k)" "?p ! 3 = component (key_content k)"
      "?p ! 4 = hex (FieldRank_code (key_rank k))"
    by (auto simp: OrderKey_from_str_def next_part_def wi_results parse_hex_iff parse_component_iff
        rank_of_code_iff OrderKey_new_def Let_def split: if_splits)
  have "s = join_on CHR '':'' ?p" by (simp add: join_split_on)
  also have "\<dots> = OrderKey_to_string k"
    unfolding OrderKey_string_join using five_parts [OF len] parts by metis
  finally show ?thesis by simp
qed

section \<open>Properties\<close>

lemma FieldRank_code_less: "FieldRank_code r < FieldRank_code r' \<longleftrightarrow> r < r'"
  by (cases r; cases r') (simp_all add: less_FieldRank_def)

lemma pair_less: "(a :: 'a :: linorder, b :: 'b :: linorder) < (c, d) \<longleftrightarrow> a < c \<or> a = c \<and> b < d"
  by auto

text \<open>C27: the keys and their spellings correspond one to one: a string parses to a key exactly when it is
  that key's printed form.\<close>

theorem order_key_round_trip: "OrderKey_from_str s = Ok k \<longleftrightarrow> s = OrderKey_to_string k"
  using OrderKey_parse_print OrderKey_print_parse by metis

text \<open>C25: comparing the printed keys byte by byte, as SQLite does for the \<open>order_key\<close> column, gives the
  order \<open>OrderKey::cmp\<close> defines.\<close>

theorem order_key_text_order: "OrderKey_to_string a < OrderKey_to_string b \<longleftrightarrow> OrderKey_less a b"
  by (simp add: OrderKey_to_string_def OrderKey_less_def sortable_tuple_def order_code_facts
      FieldRank_code_less pair_less del: less_prod_simp)

text \<open>C28: the half-open text range of \<open>OrderKey::output_range\<close> selects exactly the keys of that output.\<close>

theorem output_range_exact:
  "fst (output_range output) \<le> OrderKey_to_string k \<and> OrderKey_to_string k < snd (output_range output)
     \<longleftrightarrow> key_output k = Some output"
proof -
  have "OrderKey_to_string k = component (key_output k) @ CHR '':'' # drop (Suc (length (component (key_output k)))) (OrderKey_to_string k)"
    by (simp add: OrderKey_to_string_def)
  then obtain r where r: "OrderKey_to_string k = component (key_output k) @ CHR '':'' # r" by blast
  have "component (Some output) @ '':'' \<le> component (key_output k) @ CHR '':'' # r \<longleftrightarrow> Some output \<le> key_output k"
    unfolding le_less component_code.enc_append_less component_code.enc_append_eq by (cases r) auto
  moreover have "component (key_output k) @ CHR '':'' # r < component (Some output) @ '';'' \<longleftrightarrow> key_output k \<le> Some output"
    unfolding component_code.enc_append_less by (auto simp: less_char_def)
  ultimately show ?thesis by (auto simp: output_range_def Let_def r)
qed

text \<open>The spelling a field's identity is hashed from determines its output, rank and summary index, and
  its content index unless the field is a fallback, whose content index is placement only.\<close>

lemma source_spelling_inj:
  "source_spelling a = source_spelling b \<longleftrightarrow>
     key_output a = key_output b \<and> key_rank a = key_rank b \<and> key_summary a = key_summary b \<and>
     (key_rank a = RankFallback \<or> key_content a = key_content b)"
proof -
  have rank: "u64_to_string (FieldRank_code r) @ CHR '':'' # x = u64_to_string (FieldRank_code r') @ CHR '':'' # y
      \<longleftrightarrow> r = r' \<and> x = y" for r r' x y
  proof -
    have "split_once CHR '':'' (u64_to_string w @ CHR '':'' # z) = Some (u64_to_string w, z)" for w z
      by (simp add: split_once_Some)
    then show ?thesis by (metis FieldRank_code_inj option.inject prod.inject u64_to_string_inj)
  qed
  show ?thesis
    by (auto simp: source_spelling_def Let_def component_code.enc_append_eq component_code.enc_eq rank)
qed

end
