(* ===== verification/Text_Chunks.thy ===== *)
theory Text_Chunks
  imports Order_Keys
begin

text \<open>
  \<open>TextChunks\<close> of \<open>src/conversation/primitives.rs\<close>, the iterator that cuts a field's text into stored
  chunks of at most \<open>CHUNK_BYTES\<close> bytes at character boundaries.  The iterator's state is a record,
  \<open>TextChunks_next\<close> one call of \<open>next\<close>, and \<open>TextChunks_collect\<close> a \<open>for\<close> loop over it; that the loop ends
  is part of what is proved.
\<close>

definition CHUNK_BYTES :: nat where
  "CHUNK_BYTES = 8192"

record TextChunk =
  start_byte :: u64
  chunk_text :: str

record TextChunks =
  remaining :: str
  next_byte :: u64

definition TextChunks_new :: "str \<Rightarrow> u64 \<Rightarrow> ProjectionError + TextChunks" where
  "TextChunks_new text start =
     and_then (ok_or ProjectionError (u64_try_from_usize (length text))) (\<lambda>length.
     and_then (ok_or ProjectionError (checked_add_u64 start length)) (\<lambda>_.
     Ok \<lparr>remaining = text, next_byte = start\<rparr>))"

definition TextChunks_next :: "TextChunks \<Rightarrow> (TextChunk \<times> TextChunks) option" where
  "TextChunks_next st =
     (if remaining st = [] then None
      else
        let end = floor_char_boundary (remaining st) (min (length (remaining st)) CHUNK_BYTES);
            chunk = \<lparr>start_byte = next_byte st, chunk_text = take end (remaining st)\<rparr>
        in Some (chunk, \<lparr>remaining = drop end (remaining st), next_byte = next_byte st + of_nat end\<rparr>))"

partial_function (option) TextChunks_collect :: "TextChunks \<Rightarrow> TextChunk list option" where
  "TextChunks_collect st =
     (case TextChunks_next st of
        None \<Rightarrow> Some []
      | Some (chunk, st') \<Rightarrow> Option.bind (TextChunks_collect st') (\<lambda>chunks. Some (chunk # chunks)))"

text \<open>What the stored chunks of a text that starts at byte n look like: contiguous, nonempty, at most
  \<open>CHUNK_BYTES\<close> long, each a well-formed string, and filled up to the last whole character.\<close>

fun chunk_layout :: "nat \<Rightarrow> TextChunk list \<Rightarrow> bool" where
  "chunk_layout n [] \<longleftrightarrow> True"
| "chunk_layout n (c # cs) \<longleftrightarrow>
     unat (start_byte c) = n \<and> chunk_text c \<noteq> [] \<and> length (chunk_text c) \<le> CHUNK_BYTES \<and>
     utf8_valid (chunk_text c) \<and> (cs \<noteq> [] \<longrightarrow> CHUNK_BYTES < length (chunk_text c) + 4) \<and>
     chunk_layout (n + length (chunk_text c)) cs"

abbreviation chunks_text :: "TextChunk list \<Rightarrow> str" where
  "chunks_text cs \<equiv> concat (map chunk_text cs)"

lemma TextChunks_new_Ok:
  "TextChunks_new text start = Ok st \<longleftrightarrow>
     unat start + length text < 2 ^ 64 \<and> remaining st = text \<and> next_byte st = start"
proof -
  have "(\<exists>w. unat w = length text \<and> (\<exists>c :: u64. unat c = unat start + unat (w :: u64))) \<longleftrightarrow>
      unat start + length text < 2 ^ 64"
  proof
    assume "\<exists>w. unat w = length text \<and> (\<exists>c :: u64. unat c = unat start + unat (w :: u64))"
    then obtain c :: u64 where "unat c = unat start + length text" by auto
    then show "unat start + length text < 2 ^ 64" using unat_u64_bound [of c] by linarith
  next
    assume b: "unat start + length text < 2 ^ 64"
    then have "unat (of_nat (length text) :: u64) = length text"
      "unat (of_nat (unat start + length text) :: u64) = unat start + length text"
      by (simp_all only: unat_of_nat_u64)
    then show "\<exists>w. unat w = length text \<and> (\<exists>c :: u64. unat c = unat start + unat (w :: u64))" by metis
  qed
  then show ?thesis
    by (cases st) (auto simp: TextChunks_new_def wi_results wi_words checked_add_u64_Some)
qed

lemma chunk_end_full: "floor_char_boundary s (length s) = length s"
  using floor_greatest [of s "length s" "length s"] floor_le [of s "length s"]
  by (simp add: is_char_boundary_def)

lemma chunk_end_pos:
  assumes "utf8_valid s" "s \<noteq> []"
  shows "0 < floor_char_boundary s (min (length s) CHUNK_BYTES)"
proof (cases "length s \<le> CHUNK_BYTES")
  case True
  then show ?thesis using assms by (simp add: min_def chunk_end_full)
next
  case False
  then have "CHUNK_BYTES < floor_char_boundary s CHUNK_BYTES + 4"
    by (intro floor_near assms) simp
  with False show ?thesis by (simp add: min_def CHUNK_BYTES_def)
qed

lemma chunks_of_valid:
  assumes "utf8_valid (remaining st)" "unat (next_byte st) + length (remaining st) < 2 ^ 64"
  shows "\<exists>cs. TextChunks_collect st = Some cs \<and> chunks_text cs = remaining st \<and>
           chunk_layout (unat (next_byte st)) cs"
  using assms
proof (induction "length (remaining st)" arbitrary: st rule: less_induct)
  case less
  show ?case
  proof (cases "remaining st = []")
    case True
    then show ?thesis by (simp add: TextChunks_collect.simps TextChunks_next_def)
  next
    case False
    let ?s = "remaining st"
    let ?e = "floor_char_boundary ?s (min (length ?s) CHUNK_BYTES)"
    let ?st = "\<lparr>remaining = drop ?e ?s, next_byte = next_byte st + of_nat ?e\<rparr>"
    have e: "0 < ?e" using less.prems(1) False by (rule chunk_end_pos)
    have el: "?e \<le> length ?s" "?e \<le> CHUNK_BYTES"
      using floor_le [of ?s "min (length ?s) CHUNK_BYTES"] by linarith+
    have valid: "utf8_valid (take ?e ?s)" "utf8_valid (drop ?e ?s)"
      using utf8_cut [OF less.prems(1) floor_boundary] by auto
    have nb: "unat (next_byte ?st) = unat (next_byte st) + ?e"
      using less.prems(2) el by (simp add: unat_word_ariths unat_of_nat_u64)
    have full: "drop ?e ?s \<noteq> [] \<longrightarrow> CHUNK_BYTES < ?e + 4"
    proof
      assume "drop ?e ?s \<noteq> []"
      then have "CHUNK_BYTES \<le> length ?s" using chunk_end_full [of ?s] by (cases "length ?s \<le> CHUNK_BYTES") auto
      then show "CHUNK_BYTES < ?e + 4"
        using floor_near [OF less.prems(1), of CHUNK_BYTES] by (simp add: min_def)
    qed
    have "\<exists>cs. TextChunks_collect ?st = Some cs \<and> chunks_text cs = remaining ?st \<and>
        chunk_layout (unat (next_byte ?st)) cs"
      using less.prems el e valid nb by (intro less.hyps) (simp_all add: False)
    then obtain cs where cs: "TextChunks_collect ?st = Some cs" "chunks_text cs = drop ?e ?s"
      "chunk_layout (unat (next_byte st) + ?e) cs" using nb by auto
    have ne: "cs \<noteq> [] \<longrightarrow> drop ?e ?s \<noteq> []" using cs(2,3) by (cases cs) auto
    have "TextChunks_collect st = Some (\<lparr>start_byte = next_byte st, chunk_text = take ?e ?s\<rparr> # cs)"
      using cs(1) False by (subst TextChunks_collect.simps) (simp add: TextChunks_next_def Let_def)
    moreover have "length (take ?e ?s) = ?e" using el by simp
    moreover have "take ?e ?s \<noteq> []" using e False by simp
    ultimately show ?thesis using cs(2,3) el valid full ne by (simp del: length_take take_eq_Nil)
  qed
qed

section \<open>Properties\<close>

text \<open>C26: iterating over the chunks of a text that the constructor accepts ends, and the chunks are the text
  cut into consecutive well-formed pieces of 1 to 8192 bytes whose start offsets never wrap; only
  the last piece can be more than three bytes short of 8192.\<close>

theorem text_chunks_cut:
  assumes "utf8_valid text" "TextChunks_new text start = Ok st"
  shows "\<exists>cs. TextChunks_collect st = Some cs \<and> chunks_text cs = text \<and> chunk_layout (unat start) cs"
  using chunks_of_valid [of st] assms by (auto simp: TextChunks_new_Ok)

theorem text_chunks_cut_witness:
  "\<exists>cs. TextChunks_collect \<lparr>remaining = ''wi'', next_byte = 5\<rparr> = Some cs \<and> chunks_text cs = ''wi'' \<and>
     chunk_layout (unat (5 :: u64)) cs"
proof (rule text_chunks_cut)
  show "utf8_valid ''wi''"
    by (simp add: utf8_valid.simps scalar_width_def lead_width_def second_byte_ok_def)
  show "TextChunks_new ''wi'' 5 = Ok \<lparr>remaining = ''wi'', next_byte = 5\<rparr>"
    by (simp add: TextChunks_new_Ok)
qed

end
