(* ===== verification/Json.thy ===== *)
theory Json
  imports Rust_Numbers
begin

text \<open>
  JSON values as \<open>serde_json::Value\<close> has them (an object is the list of its members, in the order the
  serializer writes them), and the \<open>serde_json\<close>, \<open>base64\<close> and \<open>ring\<close> functions the conversation
  components call, gathered in one record of parameters.  The laws a theorem needs of them are the
  definitions \<open>json_laws\<close> and \<open>base64_laws\<close>; \<open>example_crates\<close> is an instance that meets both.
\<close>

datatype Number = PosInt u64 | NegInt i64 | Float "64 word"

datatype Value =
    Null
  | Bool bool
  | Number Number
  | String str
  | Array "Value list"
  | Object "(str \<times> Value) list"

fun as_str :: "Value \<Rightarrow> str option" where
  "as_str (String s) = Some s"
| "as_str _ = None"

fun as_u64 :: "Value \<Rightarrow> u64 option" where
  "as_u64 (Number (PosInt n)) = Some n"
| "as_u64 _ = None"

fun as_bool :: "Value \<Rightarrow> bool option" where
  "as_bool (Bool b) = Some b"
| "as_bool _ = None"

fun as_array :: "Value \<Rightarrow> Value list option" where
  "as_array (Array vs) = Some vs"
| "as_array _ = None"

fun is_object :: "Value \<Rightarrow> bool" where
  "is_object (Object _) = True"
| "is_object _ = False"

text \<open>\<open>Value::get(key)\<close> and \<open>value[key]\<close> (\<open>Null\<close> when the member is missing).\<close>

fun get_member :: "Value \<Rightarrow> str \<Rightarrow> Value option" where
  "get_member (Object ms) k = map_of ms k"
| "get_member _ k = None"

definition index_member :: "Value \<Rightarrow> str \<Rightarrow> Value" where
  "index_member v k = (case get_member v k of None \<Rightarrow> Null | Some x \<Rightarrow> x)"

record crates =
  json_to_vec :: "Value \<Rightarrow> str option"
  json_display :: "Value \<Rightarrow> str"
  json_from_slice :: "str \<Rightarrow> Value option"
  base64_encode :: "str \<Rightarrow> str"
  base64_decode :: "str \<Rightarrow> str option"
  sha256 :: "str \<Rightarrow> str"

text \<open>The arrays the cursors are made of: the version 1 and then strings.\<close>

abbreviation tagged_array :: "str list \<Rightarrow> Value" where
  "tagged_array ss \<equiv> Array (Number (PosInt 1) # map String ss)"

text \<open>What the cursors rely on: \<open>to_vec\<close> and \<open>to_string\<close> write the same compact text, that text parses
  back, and base64 without padding is a bijection between byte strings and the spellings it
  accepts.\<close>

definition json_laws :: "crates \<Rightarrow> bool" where
  "json_laws cr \<longleftrightarrow>
     (\<forall>v. json_to_vec cr v = Some (json_display cr v)) \<and>
     (\<forall>ss. json_from_slice cr (json_display cr (tagged_array ss)) = Some (tagged_array ss))"

definition base64_laws :: "crates \<Rightarrow> bool" where
  "base64_laws cr \<longleftrightarrow>
     (\<forall>b. base64_decode cr (base64_encode cr b) = Some b) \<and>
     (\<forall>e b. base64_decode cr e = Some b \<longrightarrow> e = base64_encode cr b)"

section \<open>An instance of the parameters\<close>

text \<open>Strings are written with a mark before each byte and a mark at the end; base64 is the identity.\<close>

fun mark_string :: "str \<Rightarrow> str" where
  "mark_string [] = ''.''"
| "mark_string (c # s) = CHR ''-'' # c # mark_string s"

definition mark_strings :: "str list \<Rightarrow> str" where
  "mark_strings ss = concat (map mark_string ss)"

fun unmark_strings :: "str \<Rightarrow> str \<Rightarrow> str list option" where
  "unmark_strings acc [] = (if acc = [] then Some [] else None)"
| "unmark_strings acc (c # s) =
     (if c = CHR ''.'' then map_option (\<lambda>ss. rev acc # ss) (unmark_strings [] s)
      else case s of [] \<Rightarrow> None | d # s' \<Rightarrow> unmark_strings (d # acc) s')"

fun tagged_strings :: "Value \<Rightarrow> str list option" where
  "tagged_strings (Array (v # vs)) =
     (if v = Number (PosInt 1) \<and> list_all (\<lambda>x. as_str x \<noteq> None) vs
      then Some (map (the \<circ> as_str) vs) else None)"
| "tagged_strings _ = None"

definition example_display :: "Value \<Rightarrow> str" where
  "example_display v = (case tagged_strings v of None \<Rightarrow> ''null'' | Some ss \<Rightarrow> mark_strings ss)"

definition example_crates :: crates where
  "example_crates =
     \<lparr>json_to_vec = (\<lambda>v. Some (example_display v)),
      json_display = example_display,
      json_from_slice = (\<lambda>b. map_option tagged_array (unmark_strings [] b)),
      base64_encode = (\<lambda>b. b),
      base64_decode = Some,
      sha256 = (\<lambda>b. take 32 (b @ replicate 32 CHR 0x00))\<rparr>"

lemma unmark_mark_string:
  "unmark_strings acc (mark_string s @ r) = map_option (\<lambda>ss. (rev acc @ s) # ss) (unmark_strings [] r)"
  by (induction s arbitrary: acc) (simp_all add: comp_def)

lemma unmark_mark_strings: "unmark_strings [] (mark_strings ss) = Some ss"
  by (induction ss) (simp_all add: mark_strings_def unmark_mark_string)

lemma tagged_strings_array [simp]: "tagged_strings (tagged_array ss) = Some ss"
  by (simp add: list_all_iff comp_def)

lemma example_json_laws: "json_laws example_crates"
  by (simp add: json_laws_def example_crates_def example_display_def unmark_mark_strings
      del: tagged_strings.simps)

lemma example_base64_laws: "base64_laws example_crates"
  by (simp add: base64_laws_def example_crates_def)

end
