(* ===== verification/Source_Keys.thy ===== *)
theory Source_Keys
  imports Order_Keys Json
begin

text \<open>
  \<open>EntrySource\<close> and \<open>SourceKey\<close> of \<open>src/conversation/primitives.rs\<close>: the stable identity of a displayed
  entry or field is the SHA-256 digest of a versioned JSON tuple.  The JSON writer and the digest
  are parameters.
\<close>

datatype EntrySource =
    SourceHuman
  | SourceAssistant str
  | SourceTool str
  | SourceReuse u64 u64
  | SourceNotice u64 u64

text \<open>The derived serializer: variant names in snake case, fields in the order of declaration.\<close>

fun EntrySource_value :: "EntrySource \<Rightarrow> Value" where
  "EntrySource_value SourceHuman = String ''human''"
| "EntrySource_value (SourceAssistant turn_id) =
     Object [(''assistant'', Object [(''turn_id'', String turn_id)])]"
| "EntrySource_value (SourceTool call_id) =
     Object [(''tool'', Object [(''call_id'', String call_id)])]"
| "EntrySource_value (SourceReuse sequence slot) =
     Object [(''reuse'', Object [(''sequence'', Number (PosInt sequence)), (''slot'', Number (PosInt slot))])]"
| "EntrySource_value (SourceNotice sequence slot) =
     Object [(''notice'', Object [(''sequence'', Number (PosInt sequence)), (''slot'', Number (PosInt slot))])]"

definition SourceKey_hash :: "crates \<Rightarrow> Value \<Rightarrow> ProjectionError + str" where
  "SourceKey_hash cr tuple =
     and_then (ok_or ProjectionError (json_to_vec cr tuple)) (\<lambda>encoded. Ok (sha256 cr encoded))"

definition entry_tuple :: "str \<Rightarrow> EntrySource \<Rightarrow> Value" where
  "entry_tuple run source =
     Array [Number (PosInt 1), String ''wi.conversation.entry'', String run, EntrySource_value source]"

definition SourceKey_entry :: "crates \<Rightarrow> str \<Rightarrow> EntrySource \<Rightarrow> ProjectionError + str" where
  "SourceKey_entry cr run source = SourceKey_hash cr (entry_tuple run source)"

definition field_tuple :: "str \<Rightarrow> EntryId \<Rightarrow> OrderKey \<Rightarrow> Value" where
  "field_tuple run entry order =
     Array [Number (PosInt 1), String ''wi.conversation.field'', String run,
       String (EntryId_to_string entry), String (source_spelling order)]"

definition SourceKey_field :: "crates \<Rightarrow> str \<Rightarrow> EntryId \<Rightarrow> OrderKey \<Rightarrow> ProjectionError + str" where
  "SourceKey_field cr run entry order = SourceKey_hash cr (field_tuple run entry order)"

definition field_id :: "str \<Rightarrow> str" where
  "field_id key = concat (map (\<lambda>b. hex_digits 2 (byte b)) key)"

lemma EntrySource_value_inj: "EntrySource_value a = EntrySource_value b \<longleftrightarrow> a = b"
  by (cases a; cases b) auto

lemma hex2_below: "x < y \<Longrightarrow> hex_digits 2 (byte x) @ u < hex_digits 2 (byte y) @ v"
  using nat_of_char_less_256 [of y] unfolding less_char_def by (intro hex_digits_less) simp_all

interpretation byte_code: order_code "\<lambda>c. hex_digits 2 (byte c)"
  by unfold_locales (rule hex2_below)

lemma field_id_inj: "field_id a = field_id b \<Longrightarrow> length a = length b \<Longrightarrow> a = b"
proof (induction a arbitrary: b)
  case (Cons x a)
  then obtain y b' where b: "b = y # b'" by (cases b) auto
  with Cons show ?case
    using byte_code.enc_append_eq [of x "field_id a" y "field_id b'"] by (simp add: field_id_def)
qed simp

lemma hex2_lower: "list_all is_lower_hex (hex_digits 2 (byte c))"
  using hex_digits_lower [of "byte c" 2] nat_of_char_less_256 [of c] by simp

section \<open>Properties\<close>

text \<open>C29: the hashed tuples lose nothing: two entries share a tuple only if run and source agree, two fields
  only if run, entry and logical source agree (a fallback's placement is not part of it), and no
  entry tuple is a field tuple.\<close>

theorem source_tuples_injective:
  "(entry_tuple run src = entry_tuple run' src' \<longleftrightarrow> run = run' \<and> src = src') \<and>
   (field_tuple run e k = field_tuple run' e' k' \<longleftrightarrow>
      run = run' \<and> e = e' \<and> key_output k = key_output k' \<and> key_rank k = key_rank k' \<and>
      key_summary k = key_summary k' \<and> (key_rank k = RankFallback \<or> key_content k = key_content k')) \<and>
   entry_tuple run src \<noteq> field_tuple run' e' k'"
  by (simp add: entry_tuple_def field_tuple_def EntrySource_value_inj EntryId_to_string_inj
      source_spelling_inj)

text \<open>C30: the id of a field made from a 32-byte digest is one that \<open>valid_field_id\<close> accepts, and different
  digests give different ids.\<close>

theorem field_id_valid:
  assumes "length key = 32"
  shows "valid_field_id (field_id key) \<and> (length other = 32 \<and> field_id other = field_id key \<longrightarrow> other = key)"
proof -
  have "length (field_id k) = 2 * length k" for k by (induction k) (simp_all add: field_id_def)
  moreover have "list_all is_lower_hex (field_id k)" for k
    by (induction k) (auto simp: field_id_def hex2_lower simp del: hex_digits.simps)
  ultimately show ?thesis using assms field_id_inj [of other key] by (simp add: valid_field_id_def)
qed

theorem field_id_valid_witness:
  "valid_field_id (field_id (replicate 32 CHR ''a''))"
  using field_id_valid [of "replicate 32 CHR ''a''"] by simp

end
