(* ===== verification/Cursors.thy ===== *)
theory Cursors
  imports Identifiers Json
begin

text \<open>
  The opaque cursors of \<open>src/conversation/cursors.rs\<close>: construction checks, printing and parsing.  A
  cursor is a prefix and the unpadded URL-safe base64 of a compact JSON array whose first element is
  the version 1.  The parser accepts a token only if re-encoding its fields gives the same bytes;
  the theorems show that this makes the printed form the only accepted spelling.
\<close>

definition MAX_CURSOR_BYTES :: nat where
  "MAX_CURSOR_BYTES = 4096"

datatype CursorError = CursorError
datatype ConstructionError = ConstructionError

definition cursor_decode :: "crates \<Rightarrow> nat \<Rightarrow> str \<Rightarrow> str \<Rightarrow> CursorError + Value list" where
  "cursor_decode cr n value prefix =
     and_then (reject_if (length value > MAX_CURSOR_BYTES) CursorError) (\<lambda>_.
     and_then (ok_or CursorError (strip_prefix prefix value)) (\<lambda>encoded.
     and_then (ok_or CursorError (base64_decode cr encoded)) (\<lambda>bytes.
     and_then (ok_or CursorError (Option.bind (json_from_slice cr bytes) as_array)) (\<lambda>fields.
     and_then (reject_if ((case fields of [] \<Rightarrow> None | v # _ \<Rightarrow> as_u64 v) \<noteq> Some 1) CursorError) (\<lambda>_.
     and_then (ok_or CursorError (json_to_vec cr (Array fields))) (\<lambda>again.
     and_then (reject_if (again \<noteq> bytes) CursorError) (\<lambda>_.
     and_then (reject_if (length fields \<noteq> n) CursorError) (\<lambda>_.
     Ok fields))))))))"

definition cursor_text :: "Value \<Rightarrow> CursorError + str" where
  "cursor_text value = ok_or CursorError (as_str value)"

definition cursor_number :: "Value \<Rightarrow> CursorError + u64" where
  "cursor_number value = and_then (cursor_text value) (\<lambda>t. ok_or CursorError (decimal t))"

definition cursor_id :: "(str \<Rightarrow> 'e + 'a) \<Rightarrow> Value \<Rightarrow> CursorError + 'a" where
  "cursor_id parse value = and_then (cursor_text value) (\<lambda>t. map_err (\<lambda>_. CursorError) (parse t))"

definition cursor_encode :: "crates \<Rightarrow> str \<Rightarrow> Value \<Rightarrow> str" where
  "cursor_encode cr prefix value = prefix @ base64_encode cr (json_display cr value)"

section \<open>Block cursors\<close>

record BlockCursor =
  bc_session_id :: str
  bc_before_accepted_sequence :: u64

definition BlockCursor_new :: "str \<Rightarrow> u64 \<Rightarrow> ConstructionError + BlockCursor" where
  "BlockCursor_new session before =
     and_then (reject_if (before = 0) ConstructionError) (\<lambda>_.
     Ok \<lparr>bc_session_id = session, bc_before_accepted_sequence = before\<rparr>)"

definition BlockCursor_to_string :: "crates \<Rightarrow> BlockCursor \<Rightarrow> str" where
  "BlockCursor_to_string cr c =
     cursor_encode cr ''g11b.''
       (Array [Number (PosInt 1), String (bc_session_id c), String (u64_to_string (bc_before_accepted_sequence c))])"

definition BlockCursor_from_str :: "'u uuid_crate \<Rightarrow> crates \<Rightarrow> str \<Rightarrow> CursorError + BlockCursor" where
  "BlockCursor_from_str uu cr value =
     and_then (cursor_decode cr 3 value ''g11b.'') (\<lambda>fields.
     and_then (cursor_id (storage_id_from_str uu) (fields ! 1)) (\<lambda>session.
     and_then (cursor_number (fields ! 2)) (\<lambda>before.
     map_err (\<lambda>_. CursorError) (BlockCursor_new session before))))"

section \<open>Activity cursors\<close>

record ActivityCursor =
  ac_session_id :: str
  ac_run_id :: str
  ac_before_entry_sequence :: u64
  ac_before_slot :: u64

definition ActivityCursor_new :: "str \<Rightarrow> str \<Rightarrow> u64 \<Rightarrow> u64 \<Rightarrow> ConstructionError + ActivityCursor" where
  "ActivityCursor_new session run before slot =
     and_then (reject_if (before = 0) ConstructionError) (\<lambda>_.
     Ok \<lparr>ac_session_id = session, ac_run_id = run, ac_before_entry_sequence = before, ac_before_slot = slot\<rparr>)"

definition ActivityCursor_to_string :: "crates \<Rightarrow> ActivityCursor \<Rightarrow> str" where
  "ActivityCursor_to_string cr c =
     cursor_encode cr ''g11s.''
       (Array [Number (PosInt 1), String (ac_session_id c), String (ac_run_id c),
          String (u64_to_string (ac_before_entry_sequence c)), String (u64_to_string (ac_before_slot c))])"

definition ActivityCursor_from_str :: "'u uuid_crate \<Rightarrow> crates \<Rightarrow> str \<Rightarrow> CursorError + ActivityCursor" where
  "ActivityCursor_from_str uu cr value =
     and_then (cursor_decode cr 5 value ''g11s.'') (\<lambda>fields.
     and_then (cursor_id (storage_id_from_str uu) (fields ! 1)) (\<lambda>session.
     and_then (cursor_id (storage_id_from_str uu) (fields ! 2)) (\<lambda>run.
     and_then (cursor_number (fields ! 3)) (\<lambda>before.
     and_then (cursor_number (fields ! 4)) (\<lambda>slot.
     map_err (\<lambda>_. CursorError) (ActivityCursor_new session run before slot))))))"

section \<open>Content cursors\<close>

record ContentCursor =
  cc_session_id :: str
  cc_run_id :: str
  cc_entry_id :: EntryId
  cc_content_epoch :: u64
  cc_upper_field_id :: str
  cc_upper_generation :: u64
  cc_exclusive_upper_byte :: u64

definition ContentCursor_to_string :: "crates \<Rightarrow> ContentCursor \<Rightarrow> str" where
  "ContentCursor_to_string cr c =
     cursor_encode cr ''g11c.''
       (Array [Number (PosInt 1), String (cc_session_id c), String (cc_run_id c),
          String (EntryId_to_string (cc_entry_id c)), String (u64_to_string (cc_content_epoch c)),
          String (cc_upper_field_id c), String (u64_to_string (cc_upper_generation c)),
          String (u64_to_string (cc_exclusive_upper_byte c))])"

definition ContentCursor_new ::
    "crates \<Rightarrow> str \<Rightarrow> str \<Rightarrow> EntryId \<Rightarrow> u64 \<Rightarrow> str \<Rightarrow> u64 \<Rightarrow> u64 \<Rightarrow> ConstructionError + ContentCursor" where
  "ContentCursor_new cr session run entry epoch field generation upper =
     and_then (reject_if (epoch < first_sequence entry \<or> generation < first_sequence entry
                 \<or> \<not> valid_field_id field) ConstructionError) (\<lambda>_.
     let cursor = \<lparr>cc_session_id = session, cc_run_id = run, cc_entry_id = entry, cc_content_epoch = epoch,
           cc_upper_field_id = field, cc_upper_generation = generation, cc_exclusive_upper_byte = upper\<rparr>
     in and_then (reject_if (length (ContentCursor_to_string cr cursor) > MAX_CURSOR_BYTES) ConstructionError) (\<lambda>_.
        Ok cursor))"

definition ContentCursor_from_str :: "'u uuid_crate \<Rightarrow> crates \<Rightarrow> str \<Rightarrow> CursorError + ContentCursor" where
  "ContentCursor_from_str uu cr value =
     and_then (cursor_decode cr 8 value ''g11c.'') (\<lambda>fields.
     and_then (cursor_id (storage_id_from_str uu) (fields ! 1)) (\<lambda>session.
     and_then (cursor_id (storage_id_from_str uu) (fields ! 2)) (\<lambda>run.
     and_then (cursor_id EntryId_from_str (fields ! 3)) (\<lambda>entry.
     and_then (cursor_number (fields ! 4)) (\<lambda>epoch.
     and_then (cursor_text (fields ! 5)) (\<lambda>field.
     and_then (cursor_number (fields ! 6)) (\<lambda>generation.
     and_then (cursor_number (fields ! 7)) (\<lambda>upper.
     map_err (\<lambda>_. CursorError) (ContentCursor_new cr session run entry epoch field generation upper)))))))))"

section \<open>Live cursors\<close>

type_synonym u8 = "8 word"

definition u8_to_string :: "u8 \<Rightarrow> str" where
  "u8_to_string w = decimal_string (unat w)"

definition u8_try_from_u64 :: "u64 \<Rightarrow> u8 option" where
  "u8_try_from_u64 w = (if unat w < 256 then Some (of_nat (unat w)) else None)"

record LiveCursor =
  lc_session_id :: str
  lc_sequence :: u64
  lc_rank :: u8
  lc_run_id :: "str option"
  lc_entry_id :: "EntryId option"

definition valid_identity :: "u8 \<Rightarrow> str option \<Rightarrow> EntryId option \<Rightarrow> bool" where
  "valid_identity rank run entry =
     (if rank = 0 \<or> rank = 3 then run = None \<and> entry = None
      else if rank = 1 then run \<noteq> None \<and> entry = None
      else if rank = 2 then run \<noteq> None \<and> entry \<noteq> None
      else False)"

definition LiveCursor_new ::
    "str \<Rightarrow> u64 \<Rightarrow> u8 \<Rightarrow> str option \<Rightarrow> EntryId option \<Rightarrow> ConstructionError + LiveCursor" where
  "LiveCursor_new session sequence rank run entry =
     and_then (reject_if (sequence = 0 \<or> \<not> valid_identity rank run entry
                 \<or> (case entry of None \<Rightarrow> False | Some i \<Rightarrow> first_sequence i > sequence)) ConstructionError) (\<lambda>_.
     Ok \<lparr>lc_session_id = session, lc_sequence = sequence, lc_rank = rank, lc_run_id = run, lc_entry_id = entry\<rparr>)"

definition LiveCursor_to_string :: "crates \<Rightarrow> LiveCursor \<Rightarrow> str" where
  "LiveCursor_to_string cr c =
     cursor_encode cr ''g11l.''
       (Array [Number (PosInt 1), String (lc_session_id c), String (u64_to_string (lc_sequence c)),
          String (u8_to_string (lc_rank c)), String (case lc_run_id c of None \<Rightarrow> [] | Some r \<Rightarrow> r),
          String (case lc_entry_id c of None \<Rightarrow> [] | Some i \<Rightarrow> EntryId_to_string i)])"

definition LiveCursor_from_str :: "'u uuid_crate \<Rightarrow> crates \<Rightarrow> str \<Rightarrow> CursorError + LiveCursor" where
  "LiveCursor_from_str uu cr value =
     and_then (cursor_decode cr 6 value ''g11l.'') (\<lambda>fields.
     and_then (cursor_number (fields ! 3)) (\<lambda>rank.
     and_then (cursor_text (fields ! 4)) (\<lambda>run.
     and_then (cursor_text (fields ! 5)) (\<lambda>entry.
     and_then (if run = [] then Ok None else map_ok Some (cursor_id (storage_id_from_str uu) (fields ! 4))) (\<lambda>run_id.
     and_then (if entry = [] then Ok None else map_ok Some (cursor_id EntryId_from_str (fields ! 5))) (\<lambda>entry_id.
     and_then (cursor_id (storage_id_from_str uu) (fields ! 1)) (\<lambda>session.
     and_then (cursor_number (fields ! 2)) (\<lambda>sequence.
     and_then (ok_or CursorError (u8_try_from_u64 rank)) (\<lambda>rank.
     map_err (\<lambda>_. CursorError) (LiveCursor_new session sequence rank run_id entry_id))))))))))"

section \<open>Decoding\<close>

lemma as_u64_Some [simp]: "as_u64 v = Some n \<longleftrightarrow> v = Number (PosInt n)"
  by (cases v rule: as_u64.cases) auto

lemma as_str_Some [simp]: "as_str v = Some s \<longleftrightarrow> v = String s"
  by (cases v) auto

lemma as_array_Some [simp]: "as_array v = Some vs \<longleftrightarrow> v = Array vs"
  by (cases v) auto

lemma cursor_text_Ok: "cursor_text v = Ok s \<longleftrightarrow> v = String s"
  by (simp add: cursor_text_def wi_results)

lemma cursor_number_Ok: "cursor_number v = Ok n \<longleftrightarrow> v = String (u64_to_string n)"
  by (auto simp: cursor_number_def wi_results cursor_text_Ok decimal_Some)

lemma cursor_id_Ok: "cursor_id p v = Ok i \<longleftrightarrow> (\<exists>t. v = String t \<and> p t = Ok i)"
  by (auto simp: cursor_id_def wi_results cursor_text_Ok)

lemma cursor_storage_id_Ok:
  "cursor_id (storage_id_from_str uu) v = Ok i \<longleftrightarrow> v = String i \<and> storage_id_from_str uu i = Ok i"
  unfolding cursor_id_Ok using storage_id_from_str_Ok [of uu _ i] by auto

lemma cursor_entry_id_Ok:
  "cursor_id EntryId_from_str v = Ok i \<longleftrightarrow> v = String (EntryId_to_string i) \<and> first_sequence i \<noteq> 0"
  by (auto simp: cursor_id_Ok EntryId_from_str_iff)

lemmas cursor_fields = cursor_text_Ok cursor_number_Ok cursor_storage_id_Ok cursor_entry_id_Ok

lemma cursor_decode_print:
  assumes "json_laws cr" "base64_laws cr" "cursor_decode cr n s p = Ok fs"
  shows "length fs = n \<and> length s \<le> MAX_CURSOR_BYTES \<and> fs \<noteq> [] \<and> fs ! 0 = Number (PosInt 1) \<and>
           s = cursor_encode cr p (Array fs)"
  using assms
  by (auto simp: cursor_decode_def wi_results Option.bind_eq_Some_conv json_laws_def base64_laws_def
      cursor_encode_def split: list.splits)

lemma cursor_decode_fields:
  assumes "json_laws cr" "base64_laws cr" "cursor_decode cr n s p = Ok fs"
    and "n = Suc (length ss)" "\<And>i. i < length ss \<Longrightarrow> fs ! Suc i = String (ss ! i)"
  shows "length s \<le> MAX_CURSOR_BYTES \<and> s = cursor_encode cr p (tagged_array ss)"
proof -
  note d = cursor_decode_print [OF assms(1-3)]
  have "fs = Number (PosInt 1) # map String ss"
  proof (rule nth_equalityI)
    fix i
    assume "i < length fs"
    then show "fs ! i = (Number (PosInt 1) # map String ss) ! i" using d assms(4,5) by (cases i) auto
  qed (use d assms(4) in simp)
  with d show ?thesis by auto
qed

lemma cursor_decode_encode:
  assumes "json_laws cr" "base64_laws cr" "n = Suc (length ss)" "s = cursor_encode cr p (tagged_array ss)"
    and "length s \<le> MAX_CURSOR_BYTES"
  shows "cursor_decode cr n s p = Ok (Number (PosInt 1) # map String ss)"
proof -
  have "json_from_slice cr (json_display cr (tagged_array ss)) = Some (tagged_array ss)"
    "\<And>v. json_to_vec cr v = Some (json_display cr v)"
    "\<And>b. base64_decode cr (base64_encode cr b) = Some b"
    using assms(1,2) unfolding json_laws_def base64_laws_def by blast+
  then show ?thesis
    using assms(3-5) by (auto simp: cursor_decode_def cursor_encode_def reject_if_def)
qed

lemma cursor_number_print [simp]: "cursor_number (String (u64_to_string n)) = Ok n"
  by (simp add: cursor_number_Ok)

lemma u8_to_string: "u8_to_string w = u64_to_string (of_nat (unat w))"
proof -
  have "unat w < 256" using unsigned_less [where ?'a = nat, of w] by simp
  then have "unat (of_nat (unat w) :: u64) = unat w" by (intro unat_of_nat_u64) simp
  then show ?thesis by (simp add: u8_to_string_def u64_to_string_def)
qed

lemma u8_try_from_u64_Some: "u8_try_from_u64 w = Some r \<longleftrightarrow> w = of_nat (unat r)"
proof
  assume "u8_try_from_u64 w = Some r"
  then have "unat w < 256" "r = of_nat (unat w)" by (auto simp: u8_try_from_u64_def split: if_splits)
  then have "unat r = unat w" using unat_of_nat [of "unat w", where ?'a = 8] by simp
  then show "w = of_nat (unat r)" by simp
next
  assume w: "w = of_nat (unat r)"
  have "unat r < 256" using unsigned_less [where ?'a = nat, of r] by simp
  then have "unat w = unat r" unfolding w by (intro unat_of_nat_u64) simp
  with \<open>unat r < 256\<close> show "u8_try_from_u64 w = Some r" by (simp add: u8_try_from_u64_def)
qed

lemma ContentCursor_new_Ok:
  "ContentCursor_new cr session run entry epoch field generation upper = Ok c \<longleftrightarrow>
     cc_session_id c = session \<and> cc_run_id c = run \<and> cc_entry_id c = entry \<and> cc_content_epoch c = epoch \<and>
     cc_upper_field_id c = field \<and> cc_upper_generation c = generation \<and> cc_exclusive_upper_byte c = upper \<and>
     first_sequence entry \<le> epoch \<and> first_sequence entry \<le> generation \<and> valid_field_id field \<and>
     length (ContentCursor_to_string cr c) \<le> MAX_CURSOR_BYTES"
  by (cases c) (auto simp: ContentCursor_new_def wi_results Let_def)

lemma LiveCursor_new_Ok:
  "LiveCursor_new session sequence rank run entry = Ok c \<longleftrightarrow>
     lc_session_id c = session \<and> lc_sequence c = sequence \<and> lc_rank c = rank \<and> lc_run_id c = run \<and>
     lc_entry_id c = entry \<and> sequence \<noteq> 0 \<and> valid_identity rank run entry \<and>
     (case entry of None \<Rightarrow> True | Some i \<Rightarrow> first_sequence i \<le> sequence)"
  by (cases c) (auto simp: LiveCursor_new_def wi_results split: option.split)

lemmas cursor_defs = wi_results cursor_fields BlockCursor_from_str_def BlockCursor_new_def
  ActivityCursor_from_str_def ActivityCursor_new_def ContentCursor_from_str_def
  LiveCursor_from_str_def LiveCursor_new_Ok

section \<open>Example values\<close>

text \<open>A \<open>uuid_crate\<close> whose ids are the 36-byte strings.\<close>

definition example_uuid :: "str uuid_crate" where
  "example_uuid =
     \<lparr>uuid_parse_str = (\<lambda>s. if length s = 36 then Some s else None),
      uuid_is_nil = (\<lambda>u. u = ''00000000-0000-0000-0000-000000000000''),
      uuid_hyphenated = (\<lambda>u. take 36 (u @ replicate 36 CHR ''0''))\<rparr>"

definition example_id :: str where
  "example_id = ''01234567-89ab-4cde-8fab-0123456789ab''"

definition example_content_cursor :: ContentCursor where
  "example_content_cursor =
     \<lparr>cc_session_id = example_id, cc_run_id = example_id,
      cc_entry_id = \<lparr>first_sequence = 7, position_slot = 7\<rparr>, cc_content_epoch = 7,
      cc_upper_field_id = ''text'', cc_upper_generation = 7, cc_exclusive_upper_byte = 7\<rparr>"

definition example_live_cursor :: LiveCursor where
  "example_live_cursor =
     \<lparr>lc_session_id = example_id, lc_sequence = 7, lc_rank = 2, lc_run_id = Some example_id,
      lc_entry_id = Some \<lparr>first_sequence = 7, position_slot = 7\<rparr>\<rparr>"

lemma length_example_id [simp]: "length example_id = 36"
  by (simp add: example_id_def)

lemma example_uuid_length: "length (uuid_hyphenated example_uuid u) = 36"
  by (simp add: example_uuid_def)

lemma example_id_valid: "storage_id_from_str example_uuid example_id = Ok example_id"
  by (simp add: storage_id_from_str_def example_uuid_def reject_if_def)
    (simp add: example_id_def)

lemma length_mark_string: "length (mark_string s) = Suc (2 * length s)"
  by (induction s) simp_all

lemma example_cursor_length:
  "length (cursor_encode example_crates p (Array (Number (PosInt 1) # vs))) =
     length p + (if list_all (\<lambda>x. as_str x \<noteq> None) vs then sum_list (map (\<lambda>v. Suc (2 * length (the (as_str v)))) vs) else 4)"
  by (simp add: cursor_encode_def example_crates_def example_display_def mark_strings_def length_concat
      length_mark_string comp_def)

lemma example_number_length: "length (u64_to_string 7) = 1" "length (u64_to_string 2) = 1"
  by (simp_all add: u64_to_string_def decimal_string_small)

section \<open>Properties\<close>

text \<open>C33: a string is accepted as a block cursor exactly when it is the printed form, of at most 4096 bytes,
  of a cursor whose session id is valid and whose sequence is positive.\<close>

theorem block_cursor_round_trip:
  assumes laws: "json_laws cr" "base64_laws cr"
  shows "BlockCursor_from_str uu cr s = Ok c \<longleftrightarrow>
           s = BlockCursor_to_string cr c \<and> length s \<le> MAX_CURSOR_BYTES \<and>
           storage_id_from_str uu (bc_session_id c) = Ok (bc_session_id c) \<and> bc_before_accepted_sequence c \<noteq> 0"
    (is "?parsed \<longleftrightarrow> ?printed")
proof
  let ?ss = "[bc_session_id c, u64_to_string (bc_before_accepted_sequence c)]"
  assume ?parsed
  then obtain fs where d: "cursor_decode cr 3 s ''g11b.'' = Ok fs"
    and f: "fs ! 1 = String (?ss ! 0)" "fs ! 2 = String (?ss ! 1)"
    and v: "storage_id_from_str uu (bc_session_id c) = Ok (bc_session_id c)" "bc_before_accepted_sequence c \<noteq> 0"
    by (auto simp: cursor_defs)
  have "length s \<le> MAX_CURSOR_BYTES \<and> s = cursor_encode cr ''g11b.'' (tagged_array ?ss)"
    by (rule cursor_decode_fields [OF laws d]) (use f in \<open>auto simp: less_Suc_eq numeral_eq_Suc\<close>)
  with v show ?printed by (auto simp: BlockCursor_to_string_def)
next
  let ?ss = "[bc_session_id c, u64_to_string (bc_before_accepted_sequence c)]"
  assume pr: ?printed
  then have "cursor_decode cr 3 s ''g11b.'' = Ok (Number (PosInt 1) # map String ?ss)"
    by (intro cursor_decode_encode [OF laws]) (auto simp: BlockCursor_to_string_def)
  with pr show ?parsed
    by (cases c) (simp add: BlockCursor_from_str_def BlockCursor_new_def cursor_id_def cursor_text_def reject_if_def)
qed

theorem block_cursor_round_trip_witness:
  "BlockCursor_from_str example_uuid example_crates
     (BlockCursor_to_string example_crates \<lparr>bc_session_id = example_id, bc_before_accepted_sequence = 7\<rparr>) =
   Ok \<lparr>bc_session_id = example_id, bc_before_accepted_sequence = 7\<rparr>"
  by (subst block_cursor_round_trip [OF example_json_laws example_base64_laws])
    (simp add: BlockCursor_to_string_def example_cursor_length example_id_valid
      example_number_length MAX_CURSOR_BYTES_def length_example_id)

text \<open>C34: a string is accepted as an activity cursor exactly when it is the printed form, of at most 4096
  bytes, of a cursor with valid ids and a positive entry sequence.\<close>

theorem activity_cursor_round_trip:
  assumes laws: "json_laws cr" "base64_laws cr"
  shows "ActivityCursor_from_str uu cr s = Ok c \<longleftrightarrow>
           s = ActivityCursor_to_string cr c \<and> length s \<le> MAX_CURSOR_BYTES \<and>
           storage_id_from_str uu (ac_session_id c) = Ok (ac_session_id c) \<and>
           storage_id_from_str uu (ac_run_id c) = Ok (ac_run_id c) \<and> ac_before_entry_sequence c \<noteq> 0"
    (is "?parsed \<longleftrightarrow> ?printed")
proof
  let ?ss = "[ac_session_id c, ac_run_id c, u64_to_string (ac_before_entry_sequence c), u64_to_string (ac_before_slot c)]"
  assume ?parsed
  then obtain fs where d: "cursor_decode cr 5 s ''g11s.'' = Ok fs"
    and f: "fs ! 1 = String (?ss ! 0)" "fs ! 2 = String (?ss ! 1)" "fs ! 3 = String (?ss ! 2)" "fs ! 4 = String (?ss ! 3)"
    and v: "storage_id_from_str uu (ac_session_id c) = Ok (ac_session_id c)"
      "storage_id_from_str uu (ac_run_id c) = Ok (ac_run_id c)" "ac_before_entry_sequence c \<noteq> 0"
    by (auto simp: cursor_defs)
  have "length s \<le> MAX_CURSOR_BYTES \<and> s = cursor_encode cr ''g11s.'' (tagged_array ?ss)"
    by (rule cursor_decode_fields [OF laws d]) (use f in \<open>auto simp: less_Suc_eq numeral_eq_Suc\<close>)
  with v show ?printed by (auto simp: ActivityCursor_to_string_def)
next
  let ?ss = "[ac_session_id c, ac_run_id c, u64_to_string (ac_before_entry_sequence c), u64_to_string (ac_before_slot c)]"
  assume pr: ?printed
  then have "cursor_decode cr 5 s ''g11s.'' = Ok (Number (PosInt 1) # map String ?ss)"
    by (intro cursor_decode_encode [OF laws]) (auto simp: ActivityCursor_to_string_def)
  with pr show ?parsed
    by (cases c) (simp add: ActivityCursor_from_str_def ActivityCursor_new_def cursor_id_def cursor_text_def reject_if_def)
qed

theorem activity_cursor_round_trip_witness:
  "ActivityCursor_from_str example_uuid example_crates
     (ActivityCursor_to_string example_crates
        \<lparr>ac_session_id = example_id, ac_run_id = example_id, ac_before_entry_sequence = 7, ac_before_slot = 7\<rparr>) =
   Ok \<lparr>ac_session_id = example_id, ac_run_id = example_id, ac_before_entry_sequence = 7, ac_before_slot = 7\<rparr>"
  by (subst activity_cursor_round_trip [OF example_json_laws example_base64_laws])
    (simp add: ActivityCursor_to_string_def example_cursor_length example_id_valid
      example_number_length MAX_CURSOR_BYTES_def length_example_id)

text \<open>C31: every content cursor the constructor hands out for valid ids prints to a token that the bounded
  parser reads back as the same cursor, and every token the parser accepts is such a printed
  cursor.\<close>

theorem content_cursor_round_trip:
  assumes laws: "json_laws cr" "base64_laws cr"
  shows "ContentCursor_from_str uu cr s = Ok c \<longleftrightarrow>
           s = ContentCursor_to_string cr c \<and>
           storage_id_from_str uu (cc_session_id c) = Ok (cc_session_id c) \<and>
           storage_id_from_str uu (cc_run_id c) = Ok (cc_run_id c) \<and> first_sequence (cc_entry_id c) \<noteq> 0 \<and>
           ContentCursor_new cr (cc_session_id c) (cc_run_id c) (cc_entry_id c) (cc_content_epoch c)
             (cc_upper_field_id c) (cc_upper_generation c) (cc_exclusive_upper_byte c) = Ok c"
    (is "?parsed \<longleftrightarrow> ?printed")
proof
  let ?ss = "[cc_session_id c, cc_run_id c, EntryId_to_string (cc_entry_id c), u64_to_string (cc_content_epoch c),
     cc_upper_field_id c, u64_to_string (cc_upper_generation c), u64_to_string (cc_exclusive_upper_byte c)]"
  assume ?parsed
  then obtain fs where d: "cursor_decode cr 8 s ''g11c.'' = Ok fs"
    and f: "fs ! 1 = String (?ss ! 0)" "fs ! 2 = String (?ss ! 1)" "fs ! 3 = String (?ss ! 2)" "fs ! 4 = String (?ss ! 3)"
      "fs ! 5 = String (?ss ! 4)" "fs ! 6 = String (?ss ! 5)" "fs ! 7 = String (?ss ! 6)"
    and v: "storage_id_from_str uu (cc_session_id c) = Ok (cc_session_id c)"
      "storage_id_from_str uu (cc_run_id c) = Ok (cc_run_id c)" "first_sequence (cc_entry_id c) \<noteq> 0"
      "ContentCursor_new cr (cc_session_id c) (cc_run_id c) (cc_entry_id c) (cc_content_epoch c)
         (cc_upper_field_id c) (cc_upper_generation c) (cc_exclusive_upper_byte c) = Ok c"
    by (auto simp: cursor_defs ContentCursor_new_Ok)
  have "length s \<le> MAX_CURSOR_BYTES \<and> s = cursor_encode cr ''g11c.'' (tagged_array ?ss)"
    by (rule cursor_decode_fields [OF laws d]) (use f in \<open>auto simp: less_Suc_eq numeral_eq_Suc\<close>)
  with v show ?printed by (auto simp: ContentCursor_to_string_def)
next
  let ?ss = "[cc_session_id c, cc_run_id c, EntryId_to_string (cc_entry_id c), u64_to_string (cc_content_epoch c),
     cc_upper_field_id c, u64_to_string (cc_upper_generation c), u64_to_string (cc_exclusive_upper_byte c)]"
  assume pr: ?printed
  then have "length s \<le> MAX_CURSOR_BYTES" by (simp add: ContentCursor_new_Ok)
  with pr have "cursor_decode cr 8 s ''g11c.'' = Ok (Number (PosInt 1) # map String ?ss)"
    by (intro cursor_decode_encode [OF laws]) (auto simp: ContentCursor_to_string_def)
  moreover have "EntryId_from_str (EntryId_to_string (cc_entry_id c)) = Ok (cc_entry_id c)"
    using pr by (simp add: EntryId_from_str_iff)
  ultimately show ?parsed
    using pr by (simp add: ContentCursor_from_str_def cursor_id_def cursor_text_def)
qed

theorem content_cursor_round_trip_witness:
  "ContentCursor_from_str example_uuid example_crates (ContentCursor_to_string example_crates example_content_cursor) =
   Ok example_content_cursor"
  by (subst content_cursor_round_trip [OF example_json_laws example_base64_laws])
    (simp add: ContentCursor_new_def ContentCursor_to_string_def example_cursor_length example_id_valid
      example_number_length example_content_cursor_def EntryId_to_string_def valid_field_id_def
      MAX_CURSOR_BYTES_def length_example_id reject_if_def)

text \<open>C32: a string is accepted as a live cursor exactly when it is the printed form, of at most 4096 bytes, of
  a cursor with valid ids that \<open>LiveCursor::new\<close> accepts.\<close>

theorem live_cursor_round_trip:
  assumes laws: "json_laws cr" "base64_laws cr" and ids: "\<And>u. length (uuid_hyphenated uu u) = 36"
  shows "LiveCursor_from_str uu cr s = Ok c \<longleftrightarrow>
           s = LiveCursor_to_string cr c \<and> length s \<le> MAX_CURSOR_BYTES \<and>
           storage_id_from_str uu (lc_session_id c) = Ok (lc_session_id c) \<and>
           (\<forall>r. lc_run_id c = Some r \<longrightarrow> storage_id_from_str uu r = Ok r) \<and>
           (\<forall>i. lc_entry_id c = Some i \<longrightarrow> first_sequence i \<noteq> 0) \<and>
           LiveCursor_new (lc_session_id c) (lc_sequence c) (lc_rank c) (lc_run_id c) (lc_entry_id c) = Ok c"
    (is "?parsed \<longleftrightarrow> ?printed")
proof
  let ?ss = "[lc_session_id c, u64_to_string (lc_sequence c), u8_to_string (lc_rank c),
    case lc_run_id c of None \<Rightarrow> [] | Some r \<Rightarrow> r, case lc_entry_id c of None \<Rightarrow> [] | Some i \<Rightarrow> EntryId_to_string i]"
  assume ?parsed
  then obtain fs where d: "cursor_decode cr 6 s ''g11l.'' = Ok fs"
    and f: "fs ! 1 = String (?ss ! 0)" "fs ! 2 = String (?ss ! 1)" "fs ! 3 = String (?ss ! 2)" "fs ! 4 = String (?ss ! 3)"
      "fs ! 5 = String (?ss ! 4)"
    and v: "storage_id_from_str uu (lc_session_id c) = Ok (lc_session_id c)"
      "\<forall>r. lc_run_id c = Some r \<longrightarrow> storage_id_from_str uu r = Ok r"
      "\<forall>i. lc_entry_id c = Some i \<longrightarrow> first_sequence i \<noteq> 0"
      "LiveCursor_new (lc_session_id c) (lc_sequence c) (lc_rank c) (lc_run_id c) (lc_entry_id c) = Ok c"
    by (auto simp: cursor_defs u8_try_from_u64_Some u8_to_string split: if_splits)
  have "length s \<le> MAX_CURSOR_BYTES \<and> s = cursor_encode cr ''g11l.'' (tagged_array ?ss)"
    by (rule cursor_decode_fields [OF laws d]) (use f in \<open>auto simp: less_Suc_eq numeral_eq_Suc\<close>)
  with v show ?printed by (auto simp: LiveCursor_to_string_def)
next
  let ?ss = "[lc_session_id c, u64_to_string (lc_sequence c), u8_to_string (lc_rank c),
    case lc_run_id c of None \<Rightarrow> [] | Some r \<Rightarrow> r, case lc_entry_id c of None \<Rightarrow> [] | Some i \<Rightarrow> EntryId_to_string i]"
  assume pr: ?printed
  then have d: "cursor_decode cr 6 s ''g11l.'' = Ok (Number (PosInt 1) # map String ?ss)"
    by (intro cursor_decode_encode [OF laws]) (auto simp: LiveCursor_to_string_def)
  have rank: "u8_try_from_u64 (of_nat (unat (lc_rank c))) = Some (lc_rank c)" by (simp add: u8_try_from_u64_Some)
  have run: "r \<noteq> []" if "lc_run_id c = Some r" for r
    using pr that storage_id_not_empty [OF _ ids, of r r] by auto
  have entry: "EntryId_from_str (EntryId_to_string i) = Ok i" if "lc_entry_id c = Some i" for i
    using pr that by (simp add: EntryId_from_str_iff)
  show ?parsed
    unfolding LiveCursor_from_str_def d u8_to_string using pr rank run entry
    by (cases "lc_run_id c"; cases "lc_entry_id c") (simp_all add: cursor_id_def cursor_text_def)
qed

theorem live_cursor_round_trip_witness:
  "LiveCursor_from_str example_uuid example_crates (LiveCursor_to_string example_crates example_live_cursor) =
   Ok example_live_cursor"
  by (subst live_cursor_round_trip [OF example_json_laws example_base64_laws example_uuid_length])
    (simp_all add: LiveCursor_new_def LiveCursor_to_string_def example_cursor_length example_id_valid
      example_number_length example_live_cursor_def EntryId_to_string_def valid_identity_def u8_to_string
      MAX_CURSOR_BYTES_def length_example_id reject_if_def)

end
