(* ===== verification/Provider_Contract.thy ===== *)
theory Provider_Contract
  imports Json
begin

text \<open>
  The provider-neutral contract: errors of \<open>src/error.rs\<close> with their public codes, the data types and
  request checks of \<open>src/provider.rs\<close>, and the provider registry of \<open>src/gateway.rs\<close>.
\<close>

section \<open>Errors\<close>

datatype GatewayError =
    InvalidRequest str
  | UnknownProvider
  | DuplicateProvider
  | UnsupportedFeature str
  | Busy
  | SessionClosedError
  | HomeUnavailable
  | AuthRead str
  | AuthFileType
  | AuthFileTooLarge
  | AuthPermissions
  | InvalidAuth str
  | AuthExpired
  | AuthAccountChanged
  | Clock
  | ClientConfiguration
  | Timeout
  | TransportError
  | Unauthorized
  | Forbidden
  | RateLimited "u64 option"
  | Http nat
  | UnexpectedContentType
  | Protocol str
  | ProviderFailed
  | UnexpectedEnd
  | StreamTooLarge
  | SlowConsumer
  | Cancelled
  | UnsupportedOutput
  | NotCompleted
  | UnknownTool
  | InvalidToolArguments
  | ToolFailed
  | NoToolCall
  | TurnLimit
  | Io str
  | Serialization

definition GatewayError_code :: "GatewayError \<Rightarrow> str" where
  "GatewayError_code e =
     (case e of
        Unauthorized \<Rightarrow> ''unauthorized''
      | Forbidden \<Rightarrow> ''forbidden''
      | RateLimited _ \<Rightarrow> ''rate_limited''
      | AuthExpired \<Rightarrow> ''auth_expired''
      | AuthAccountChanged \<Rightarrow> ''auth_account_changed''
      | Timeout \<Rightarrow> ''timeout''
      | TransportError \<Rightarrow> ''transport_error''
      | UnexpectedContentType \<Rightarrow> ''unexpected_content_type''
      | Cancelled \<Rightarrow> ''locally_cancelled''
      | SlowConsumer \<Rightarrow> ''slow_consumer''
      | UnexpectedEnd \<Rightarrow> ''unexpected_end''
      | Protocol _ \<Rightarrow> ''protocol_error''
      | ProviderFailed \<Rightarrow> ''provider_error''
      | InvalidRequest _ \<Rightarrow> ''invalid_request''
      | StreamTooLarge \<Rightarrow> ''output_limit''
      | UnsupportedOutput \<Rightarrow> ''unsupported_output''
      | UnsupportedFeature _ \<Rightarrow> ''unsupported_feature''
      | Http _ \<Rightarrow> ''http_error''
      | _ \<Rightarrow> ''gateway_error'')"

section \<open>Capabilities and tools\<close>

definition MAX_INPUT_BYTES :: nat where "MAX_INPUT_BYTES = 1024 * 1024"
definition MAX_INPUT_ITEMS :: nat where "MAX_INPUT_ITEMS = 128"
definition MAX_TOOLS :: nat where "MAX_TOOLS = 32"

datatype Transport = WebSocket | Sse

datatype Feature = NativeSteering | ToolSearch | ProgrammaticTools | AsyncTools

fun Feature_name :: "Feature \<Rightarrow> str" where
  "Feature_name NativeSteering = ''native_steering''"
| "Feature_name ToolSearch = ''tool_search''"
| "Feature_name ProgrammaticTools = ''programmatic_tools''"
| "Feature_name AsyncTools = ''async_tools''"

record Capability =
  implemented :: bool
  verification :: str

record FeatureCapability =
  fc_feature :: Feature
  fc_capability :: Capability

record ProviderCapabilities =
  cap_websocket :: Capability
  cap_sse :: Capability
  cap_continuation :: Capability
  cap_function_tools :: Capability
  cap_advanced :: "FeatureCapability list"

fun require_features :: "ProviderCapabilities \<Rightarrow> Feature list \<Rightarrow> GatewayError + unit" where
  "require_features caps [] = Ok ()"
| "require_features caps (f # fs) =
     (if \<not> list_ex (\<lambda>c. fc_feature c = f \<and> implemented (fc_capability c)) (cap_advanced caps)
      then Err (UnsupportedFeature (Feature_name f)) else require_features caps fs)"

record ToolDefinition =
  tool_name :: str
  tool_description :: str
  tool_parameters :: Value
  tool_strict :: bool

definition is_ascii_alphanumeric :: "char \<Rightarrow> bool" where
  "is_ascii_alphanumeric c \<longleftrightarrow>
     is_ascii_digit c \<or> (65 \<le> byte c \<and> byte c \<le> 90) \<or> (97 \<le> byte c \<and> byte c \<le> 122)"

definition valid_tool_name :: "str \<Rightarrow> bool" where
  "valid_tool_name name \<longleftrightarrow>
     name \<noteq> [] \<and> length name \<le> 64 \<and>
     list_all (\<lambda>b. is_ascii_alphanumeric b \<or> b = CHR ''_'' \<or> b = CHR ''-'') name"

definition ToolDefinition_validate :: "ToolDefinition \<Rightarrow> GatewayError + unit" where
  "ToolDefinition_validate d =
     and_then (reject_if (\<not> valid_tool_name (tool_name d)) (InvalidRequest ''invalid tool name'')) (\<lambda>_.
     reject_if (length (tool_description d) > 8192 \<or>
                Option.bind (get_member (tool_parameters d) ''type'') as_str \<noteq> Some ''object'')
       (InvalidRequest ''tool requires an object parameter schema and bounded description''))"

section \<open>Session options\<close>

record SessionOptions =
  opt_model :: str
  opt_instructions :: str
  opt_tools :: "ToolDefinition list"
  opt_transport :: Transport
  opt_required_features :: "Feature list"

definition SessionOptions_new :: "str \<Rightarrow> SessionOptions" where
  "SessionOptions_new model =
     \<lparr>opt_model = model, opt_instructions = ''You are a helpful assistant.'', opt_tools = [],
      opt_transport = WebSocket, opt_required_features = []\<rparr>"

text \<open>The derived serializers.\<close>

definition ToolDefinition_value :: "ToolDefinition \<Rightarrow> Value" where
  "ToolDefinition_value d =
     Object [(''name'', String (tool_name d)), (''description'', String (tool_description d)),
       (''parameters'', tool_parameters d), (''strict'', Bool (tool_strict d))]"

fun Transport_value :: "Transport \<Rightarrow> Value" where
  "Transport_value WebSocket = String ''web_socket''"
| "Transport_value Sse = String ''sse''"

definition SessionOptions_value :: "SessionOptions \<Rightarrow> Value" where
  "SessionOptions_value o' =
     Object [(''model'', String (opt_model o')), (''instructions'', String (opt_instructions o')),
       (''tools'', Array (map ToolDefinition_value (opt_tools o'))), (''transport'', Transport_value (opt_transport o')),
       (''required_features'', Array (map (String \<circ> Feature_name) (opt_required_features o')))]"

text \<open>The loop over the tools with its set of names already seen.\<close>

fun validate_tools :: "str list \<Rightarrow> ToolDefinition list \<Rightarrow> GatewayError + unit" where
  "validate_tools names [] = Ok ()"
| "validate_tools names (tool # tools) =
     and_then (ToolDefinition_validate tool) (\<lambda>_.
     and_then (reject_if (tool_name tool \<in> set names) (InvalidRequest ''duplicate tool name'')) (\<lambda>_.
     validate_tools (tool_name tool # names) tools))"

definition SessionOptions_validate :: "crates \<Rightarrow> SessionOptions \<Rightarrow> GatewayError + unit" where
  "SessionOptions_validate cr o' =
     and_then (reject_if (is_blank (opt_model o') \<or> length (opt_model o') > 256 \<or> is_blank (opt_instructions o'))
        (InvalidRequest ''model and instructions are required'')) (\<lambda>_.
     and_then (reject_if (length (opt_tools o') > MAX_TOOLS) (InvalidRequest ''too many tools'')) (\<lambda>_.
     and_then (validate_tools [] (opt_tools o')) (\<lambda>_.
     and_then (ok_or Serialization (json_to_vec cr (SessionOptions_value o'))) (\<lambda>bytes.
     reject_if (length bytes > MAX_INPUT_BYTES) (InvalidRequest ''session configuration exceeds 1 MiB'')))))"

section \<open>Input\<close>

datatype InputItem = User (user_text: str) | ToolResult (result_call_id: str) (result_output: str)

fun InputItem_value :: "InputItem \<Rightarrow> Value" where
  "InputItem_value (User text) = Object [(''kind'', String ''user''), (''text'', String text)]"
| "InputItem_value (ToolResult call_id output) =
     Object [(''kind'', String ''tool_result''), (''call_id'', String call_id), (''output'', String output)]"

fun validate_items :: "InputItem list \<Rightarrow> GatewayError + unit" where
  "validate_items [] = Ok ()"
| "validate_items (User text # items) =
     (if is_blank text then Err (InvalidRequest ''empty user input'') else validate_items items)"
| "validate_items (ToolResult call_id output # items) =
     (if call_id = [] \<or> length call_id > 512 then Err (InvalidRequest ''invalid tool call identifier'')
      else validate_items items)"

definition validate_input :: "crates \<Rightarrow> InputItem list \<Rightarrow> GatewayError + unit" where
  "validate_input cr input =
     and_then (reject_if (input = [] \<or> length input > MAX_INPUT_ITEMS)
        (InvalidRequest ''input must contain 1..128 items'')) (\<lambda>_.
     and_then (validate_items input) (\<lambda>_.
     and_then (ok_or Serialization (json_to_vec cr (Array (map InputItem_value input)))) (\<lambda>bytes.
     reject_if (length bytes > MAX_INPUT_BYTES) (InvalidRequest ''input exceeds 1 MiB''))))"

section \<open>Responses and provider events\<close>

datatype ItemKind =
    Message | Reasoning | FunctionCallKind | CustomToolCall | ToolSearchCall | ToolSearchOutput
  | Program | ProgramOutput | UnknownKind

datatype CallOrigin = Direct | Programmatic | UnknownOrigin

record FunctionCall =
  call_id :: str
  call_name :: str
  call_arguments :: str
  call_origin :: CallOrigin
  call_namespace :: "str option"
  call_complete :: bool

record OutputItem =
  item_id :: "str option"
  item_kind :: ItemKind
  item_native_type :: str
  item_function_call :: "FunctionCall option"
  item_native :: Value

datatype ResponseOutcome = Completed | Incomplete "str option" | Failed | CancelledUpstream

record Usage =
  usage_input_tokens :: u64
  usage_output_tokens :: u64
  usage_total_tokens :: u64
  usage_cached_input_tokens :: "u64 option"
  usage_reasoning_tokens :: "u64 option"

datatype OutputProvenance = NativeTerminal | ValidatedOutputItemDone

record ModelResponse =
  response_provenance :: OutputProvenance
  response_id :: str
  response_model :: "str option"
  response_outcome :: ResponseOutcome
  response_output :: "OutputItem list"
  response_text :: str
  response_usage :: "Usage option"
  response_native :: Value

datatype DeltaKind = TextDelta | Refusal | ReasoningSummary | ReasoningText | FunctionArguments | CustomToolInput

datatype UpstreamOutcome = NotSubmitted | UnknownUpstream | TerminalReceived

datatype ProviderEvent =
    SessionClosed str
  | ResponseStarted str
  | ResponseStatus str str
  | OutputItemStarted str u64 OutputItem
  | OutputItemUpdated str str u64 "u64 option" "u64 option" DeltaKind str
  | OutputItemFinished str u64 OutputItem
  | ResponseFinished ModelResponse
  | RequestFailed str str UpstreamOutcome
  | ProviderExtension str Value

record EventEnvelope =
  env_schema_version :: nat
  env_sequence :: u64
  env_event_id :: str
  env_session_id :: str
  env_request_id :: "str option"
  env_provider :: str
  env_provider_sequence :: "u64 option"
  env_event :: ProviderEvent

section \<open>The gateway\<close>

text \<open>\<open>Gateway\<close> keeps its providers by id; 'p is what a provider is beyond its id and capabilities.\<close>

record 'p Provider =
  provider_id :: str
  provider_capabilities :: ProviderCapabilities
  provider_control :: 'p

type_synonym 'p Gateway = "str \<Rightarrow> 'p Provider option"

definition Gateway_register :: "'p Gateway \<Rightarrow> 'p Provider \<Rightarrow> GatewayError + 'p Gateway" where
  "Gateway_register g p =
     (if g (provider_id p) \<noteq> None then Err DuplicateProvider else Ok (g(provider_id p \<mapsto> p)))"

definition Gateway_capabilities :: "'p Gateway \<Rightarrow> str \<Rightarrow> GatewayError + ProviderCapabilities" where
  "Gateway_capabilities g i = map_ok provider_capabilities (ok_or UnknownProvider (g i))"

text \<open>The checks of \<open>open_session\<close> before the provider's own \<open>open_session\<close> is called.\<close>

definition Gateway_open_checks :: "crates \<Rightarrow> 'p Gateway \<Rightarrow> str \<Rightarrow> SessionOptions \<Rightarrow> GatewayError + 'p Provider" where
  "Gateway_open_checks cr g i o' =
     and_then (SessionOptions_validate cr o') (\<lambda>_.
     and_then (ok_or UnknownProvider (g i)) (\<lambda>p.
     and_then (require_features (provider_capabilities p) (opt_required_features o')) (\<lambda>_.
     Ok p)))"

section \<open>What the checks accept\<close>

lemma require_features_Ok:
  "require_features caps fs = Ok () \<longleftrightarrow>
     (\<forall>f \<in> set fs. \<exists>c \<in> set (cap_advanced caps). fc_feature c = f \<and> implemented (fc_capability c))"
  by (induction fs) (auto simp: list_ex_iff)

lemma ToolDefinition_validate_Ok:
  "ToolDefinition_validate d = Ok () \<longleftrightarrow>
     valid_tool_name (tool_name d) \<and> length (tool_description d) \<le> 8192 \<and>
     get_member (tool_parameters d) ''type'' = Some (String ''object'')"
proof -
  have "Option.bind (get_member v k) as_str = Some s \<longleftrightarrow> get_member v k = Some (String s)" for v k s
    by (cases "get_member v k") (auto elim: as_str.elims)
  then show ?thesis by (auto simp: ToolDefinition_validate_def wi_results)
qed

lemma validate_tools_Ok:
  "validate_tools names tools = Ok () \<longleftrightarrow>
     (\<forall>t \<in> set tools. ToolDefinition_validate t = Ok ()) \<and> distinct (map tool_name tools) \<and>
     set names \<inter> set (map tool_name tools) = {}"
  by (induction tools arbitrary: names) (auto simp: wi_results)

lemma validate_items_Ok:
  "validate_items items = Ok () \<longleftrightarrow>
     (\<forall>item \<in> set items. case item of User text \<Rightarrow> \<not> is_blank text
        | ToolResult c _ \<Rightarrow> c \<noteq> [] \<and> length c \<le> 512)"
  by (induction items rule: validate_items.induct) auto

lemma SessionOptions_validate_Ok:
  "SessionOptions_validate cr o' = Ok () \<longleftrightarrow>
     \<not> is_blank (opt_model o') \<and> length (opt_model o') \<le> 256 \<and> \<not> is_blank (opt_instructions o') \<and>
     length (opt_tools o') \<le> 32 \<and> list_all (\<lambda>t. ToolDefinition_validate t = Ok ()) (opt_tools o') \<and>
     distinct (map tool_name (opt_tools o')) \<and>
     (\<exists>bytes. json_to_vec cr (SessionOptions_value o') = Some bytes \<and> length bytes \<le> 1048576)"
  by (auto simp: SessionOptions_validate_def wi_results validate_tools_Ok list_all_iff MAX_TOOLS_def MAX_INPUT_BYTES_def)

end
