(* ===== verification/Programs.thy ===== *)
theory Programs
  imports Wi_Prelude
begin

text \<open>
  Stateful, fallible code as functions on an explicit state: a program takes the state and returns a
  result and the state it leaves behind, so that an early return keeps the effects made before it.
  \<open>then_do\<close> is sequencing with the \<open>?\<close> operator, \<open>attempt\<close> is an inner block whose result is kept as a
  value.  Two reasoning principles go with it: \<open>triple\<close>, a Hoare triple with a postcondition for each
  kind of exit, and the locale \<open>step_relation\<close>, for relations every program of a component keeps.
\<close>

type_synonym ('s, 'e, 'a) prog = "'s \<Rightarrow> ('e + 'a) \<times> 's"

definition ret :: "'a \<Rightarrow> ('s, 'e, 'a) prog" where
  "ret a = (\<lambda>s. (Ok a, s))"

definition raise :: "'e \<Rightarrow> ('s, 'e, 'a) prog" where
  "raise e = (\<lambda>s. (Err e, s))"

definition from_result :: "'e + 'a \<Rightarrow> ('s, 'e, 'a) prog" where
  "from_result r = (\<lambda>s. (r, s))"

definition then_do :: "('s, 'e, 'a) prog \<Rightarrow> ('a \<Rightarrow> ('s, 'e, 'b) prog) \<Rightarrow> ('s, 'e, 'b) prog" where
  "then_do m f =
     (\<lambda>s. case m s of (Inl e, s') \<Rightarrow> (Err e, s') | (Inr a, s') \<Rightarrow> f a s')"

definition read :: "('s \<Rightarrow> 'a) \<Rightarrow> ('s, 'e, 'a) prog" where
  "read f = (\<lambda>s. (Ok (f s), s))"

definition update :: "('s \<Rightarrow> 's) \<Rightarrow> ('s, 'e, unit) prog" where
  "update f = (\<lambda>s. (Ok (), f s))"

definition attempt :: "('s, 'e, 'a) prog \<Rightarrow> ('s, 'f, 'e + 'a) prog" where
  "attempt m = (\<lambda>s. case m s of (r, s') \<Rightarrow> (Ok r, s'))"

definition fail_if :: "bool \<Rightarrow> 'e \<Rightarrow> ('s, 'e, unit) prog" where
  "fail_if c e = (if c then raise e else ret ())"

lemmas prog_defs = ret_def raise_def from_result_def then_do_def read_def update_def attempt_def fail_if_def

lemma then_do_cases:
  "then_do m f s = (r, s') \<Longrightarrow>
     (\<exists>e. m s = (Err e, s') \<and> r = Err e) \<or> (\<exists>a s1. m s = (Ok a, s1) \<and> f a s1 = (r, s'))"
  by (auto simp: then_do_def split: prod.splits sum.splits)

lemma then_do_Ok:
  "then_do m f s = (Ok b, s') \<longleftrightarrow> (\<exists>a s1. m s = (Ok a, s1) \<and> f a s1 = (Ok b, s'))"
  by (auto simp: then_do_def split: prod.splits sum.splits)

lemma attempt_iff: "attempt m s = (x, s') \<longleftrightarrow> (\<exists>r. x = Ok r \<and> m s = (r, s'))"
  by (auto simp: attempt_def split: prod.splits)

lemma from_result_Ok: "from_result m d = (Ok a, d') \<longleftrightarrow> m = Ok a \<and> d' = d"
  by (auto simp: from_result_def)

lemma fail_if_Ok: "fail_if c e d = (Ok u, d') \<longleftrightarrow> \<not> c \<and> d' = d"
  by (auto simp: fail_if_def raise_def ret_def)

lemma read_Ok: "read f d = (Ok a, d') \<longleftrightarrow> a = f d \<and> d' = d"
  by (auto simp: read_def)

lemma update_Ok: "update f d = (Ok u, d') \<longleftrightarrow> d' = f d"
  by (auto simp: update_def)

lemma ret_Ok: "ret a d = (Ok b, d') \<longleftrightarrow> b = a \<and> d' = d"
  by (auto simp: ret_def)

lemmas prog_Ok = then_do_Ok from_result_Ok fail_if_Ok read_Ok update_Ok ret_Ok

lemma then_do_ret: "then_do m ret = m"
  by (rule ext) (auto simp: then_do_def ret_def split: prod.splits sum.splits)

lemma ret_then_do: "then_do (ret a) f = f a"
  by (rule ext) (simp add: then_do_def ret_def)

lemma then_do_assoc: "then_do (then_do m f) g = then_do m (\<lambda>a. then_do (f a) g)"
  by (rule ext) (auto simp: then_do_def split: prod.splits sum.splits)

section \<open>Hoare triples\<close>

named_theorems hoare \<open>rules for triples\<close>

definition triple ::
    "('s \<Rightarrow> bool) \<Rightarrow> ('s, 'e, 'a) prog \<Rightarrow> ('a \<Rightarrow> 's \<Rightarrow> bool) \<Rightarrow> ('e \<Rightarrow> 's \<Rightarrow> bool) \<Rightarrow> bool" where
  "triple P m Q E \<longleftrightarrow>
     (\<forall>s. P s \<longrightarrow> (case m s of (Inl e, s') \<Rightarrow> E e s' | (Inr a, s') \<Rightarrow> Q a s'))"

lemma triple_iff:
  "triple P m Q E \<longleftrightarrow>
     (\<forall>s r s'. P s \<longrightarrow> m s = (r, s') \<longrightarrow> (\<forall>a. r = Ok a \<longrightarrow> Q a s') \<and> (\<forall>e. r = Err e \<longrightarrow> E e s'))"
  unfolding triple_def by (auto split: prod.splits sum.splits)

lemma tripleI:
  assumes "\<And>s a s'. P s \<Longrightarrow> m s = (Ok a, s') \<Longrightarrow> Q a s'" "\<And>s e s'. P s \<Longrightarrow> m s = (Err e, s') \<Longrightarrow> E e s'"
  shows "triple P m Q E"
  using assms by (simp add: triple_iff)

lemma tripleD_Ok: "triple P m Q E \<Longrightarrow> P s \<Longrightarrow> m s = (Ok a, s') \<Longrightarrow> Q a s'"
  by (simp add: triple_iff)

lemma tripleD_Err: "triple P m Q E \<Longrightarrow> P s \<Longrightarrow> m s = (Err e, s') \<Longrightarrow> E e s'"
  by (simp add: triple_iff)

lemma triple_conseq:
  assumes "triple P m Q E" "\<And>s. P' s \<Longrightarrow> P s" "\<And>a s. Q a s \<Longrightarrow> Q' a s" "\<And>e s. E e s \<Longrightarrow> E' e s"
  shows "triple P' m Q' E'"
  using tripleD_Ok [OF assms(1)] tripleD_Err [OF assms(1)] assms(2-4) by (intro tripleI) blast+

lemma triple_ret [hoare]: "triple (Q a) (ret a) Q E"
  by (simp add: triple_def ret_def)

lemma triple_raise [hoare]: "triple (E e) (raise e) Q E"
  by (simp add: triple_def raise_def)

lemma triple_from_result [hoare]:
  "triple (\<lambda>s. case r of Inl e \<Rightarrow> E e s | Inr a \<Rightarrow> Q a s) (from_result r) Q E"
  by (auto simp: triple_def from_result_def split: sum.split)

lemma triple_then [hoare]:
  assumes "\<And>a. triple (R a) (f a) Q E" "triple P m R E"
  shows "triple P (then_do m f) Q E"
proof (rule tripleI)
  fix s b s'
  assume "P s" "then_do m f s = (Ok b, s')"
  then obtain a s1 where "m s = (Ok a, s1)" "f a s1 = (Ok b, s')" by (auto simp: then_do_Ok)
  with assms \<open>P s\<close> show "Q b s'" by (metis tripleD_Ok)
next
  fix s e s'
  assume "P s" "then_do m f s = (Err e, s')"
  then consider "m s = (Err e, s')" | a s1 where "m s = (Ok a, s1)" "f a s1 = (Err e, s')"
    using then_do_cases [of m f s "Err e" s'] by auto
  then show "E e s'" using assms \<open>P s\<close> by cases (metis tripleD_Err, metis tripleD_Ok tripleD_Err)
qed

lemma triple_read [hoare]: "triple (\<lambda>s. Q (f s) s) (read f) Q E"
  by (simp add: triple_def read_def)

lemma triple_update [hoare]: "triple (\<lambda>s. Q () (f s)) (update f) Q E"
  by (simp add: triple_def update_def)

lemma triple_attempt [hoare]:
  assumes t: "triple P m (\<lambda>a s. Q (Ok a) s) (\<lambda>e s. Q (Err e) s)"
  shows "triple P (attempt m) Q E"
proof (rule tripleI)
  fix s r s'
  assume p: "P s" and "attempt m s = (Ok r, s')"
  then have "m s = (r, s')" by (auto simp: attempt_def split: prod.splits)
  then show "Q r s'" using tripleD_Ok [OF t p] tripleD_Err [OF t p] by (cases r) auto
qed (auto simp: attempt_def split: prod.splits)

lemma triple_fail_if [hoare]: "triple (\<lambda>s. if c then E e s else Q () s) (fail_if c e) Q E"
  by (simp add: triple_def fail_if_def ret_def raise_def)

lemma triple_if:
  "(c \<Longrightarrow> triple P m Q E) \<Longrightarrow> (\<not> c \<Longrightarrow> triple P m' Q E) \<Longrightarrow> triple P (if c then m else m') Q E"
  by simp

lemma triple_branch [hoare]:
  "triple P m Q E \<Longrightarrow> triple P' m' Q E \<Longrightarrow> triple (\<lambda>s. if c then P s else P' s) (if c then m else m') Q E"
  by simp

lemma triple_option [hoare]:
  assumes "triple P m Q E" "\<And>v. triple (P' v) (f v) Q E"
  shows "triple (\<lambda>s. case x of None \<Rightarrow> P s | Some v \<Rightarrow> P' v s) (case x of None \<Rightarrow> m | Some v \<Rightarrow> f v) Q E"
  using assms by (cases x) simp_all

lemma triple_sum [hoare]:
  assumes "\<And>v. triple (P v) (m v) Q E" "\<And>v. triple (P' v) (f v) Q E"
  shows "triple (\<lambda>s. case x of Inl v \<Rightarrow> P v s | Inr v \<Rightarrow> P' v s) (case x of Inl v \<Rightarrow> m v | Inr v \<Rightarrow> f v) Q E"
  using assms by (cases x) simp_all

lemma triple_prod [hoare]:
  assumes "\<And>a b. triple (P a b) (f a b) Q E"
  shows "triple (\<lambda>s. case x of (a, b) \<Rightarrow> P a b s) (case x of (a, b) \<Rightarrow> f a b) Q E"
  using assms by (cases x) simp

lemma triple_pre: "triple P m Q E \<Longrightarrow> (\<And>s. P' s \<Longrightarrow> P s) \<Longrightarrow> triple P' m Q E"
  by (rule triple_conseq)

section \<open>Relations kept by programs\<close>

locale step_relation =
  fixes R :: "'s \<Rightarrow> 's \<Rightarrow> bool"
  assumes refl: "R s s"
    and trans: "R a b \<Longrightarrow> R b c \<Longrightarrow> R a c"
begin

definition kept :: "('s, 'e, 'a) prog \<Rightarrow> bool" where
  "kept m \<longleftrightarrow> (\<forall>s. R s (snd (m s)))"

lemma keptI:
  assumes "\<And>s r s'. m s = (r, s') \<Longrightarrow> R s s'"
  shows "kept m"
  using assms by (simp add: kept_def prod_eq_iff)

lemma keptD: "kept m \<Longrightarrow> m s = (r, s') \<Longrightarrow> R s s'"
  unfolding kept_def by (drule spec [of _ s]) simp

lemma kept_ret: "kept (ret a)"
  by (simp add: kept_def ret_def refl)

lemma kept_raise: "kept (raise e)"
  by (simp add: kept_def raise_def refl)

lemma kept_from_result: "kept (from_result r)"
  by (simp add: kept_def from_result_def refl)

lemma kept_read: "kept (read f)"
  by (simp add: kept_def read_def refl)

lemma kept_fail_if: "kept (fail_if c e)"
  by (simp add: fail_if_def kept_ret kept_raise)

lemma kept_then: "kept m \<Longrightarrow> (\<And>a. kept (f a)) \<Longrightarrow> kept (then_do m f)"
  by (rule keptI) (drule then_do_cases, blast dest: keptD intro: trans)

lemma kept_attempt: "kept m \<Longrightarrow> kept (attempt m)"
  by (rule keptI) (auto simp: attempt_def dest: keptD split: prod.splits)

lemma kept_update: "(\<And>s. R s (f s)) \<Longrightarrow> kept (update f)"
  by (simp add: kept_def update_def)

lemma kept_if: "kept m \<Longrightarrow> kept m' \<Longrightarrow> kept (if c then m else m')"
  by simp

lemmas kept_rules = kept_ret kept_raise kept_from_result kept_read kept_fail_if kept_then kept_attempt
  kept_update kept_if

end

end
