(* ===== verification/Tools.thy ===== *)
theory Tools
  imports Provider_Contract Programs
begin

text \<open>
  The tool executor of \<open>src/tools.rs\<close>: registration, the preflight of a whole response before anything
  runs, and the execution of the prepared calls one at a time with a per-scope result cache.

  What a tool does when it runs, the observer of the execution events and the stop condition are
  parameters (\<open>tool_env\<close>): the code is generic in them.  A tool's \<open>definition\<close> and \<open>validate\<close> are part
  of the tool; \<open>'t\<close> is what is needed to run it.
\<close>

section \<open>Equality of JSON values\<close>

text \<open>\<open>Value\<close>'s \<open>PartialEq\<close>: floats compare as floats, so the two zeros are equal.\<close>

definition float_zero :: "64 word \<Rightarrow> bool" where
  "float_zero w \<longleftrightarrow> w = 0 \<or> w = 2 ^ 63"

fun Number_eq :: "Number \<Rightarrow> Number \<Rightarrow> bool" where
  "Number_eq (Float a) (Float b) \<longleftrightarrow> a = b \<or> (float_zero a \<and> float_zero b)"
| "Number_eq a b \<longleftrightarrow> a = b"

fun Value_eq :: "Value \<Rightarrow> Value \<Rightarrow> bool"
  and Values_eq :: "Value list \<Rightarrow> Value list \<Rightarrow> bool"
  and members_eq :: "(str \<times> Value) list \<Rightarrow> (str \<times> Value) list \<Rightarrow> bool" where
  "Value_eq (Number a) (Number b) = Number_eq a b"
| "Value_eq (Array xs) (Array ys) = Values_eq xs ys"
| "Value_eq (Object xs) (Object ys) = members_eq xs ys"
| "Value_eq v w = (v = w)"
| "Values_eq [] [] = True"
| "Values_eq (x # xs) (y # ys) = (Value_eq x y \<and> Values_eq xs ys)"
| "Values_eq _ _ = False"
| "members_eq [] [] = True"
| "members_eq ((k, x) # xs) ((l, y) # ys) = (k = l \<and> Value_eq x y \<and> members_eq xs ys)"
| "members_eq _ _ = False"

lemma Number_eq_refl [simp]: "Number_eq n n"
  by (cases n) simp_all

lemma Values_eq_same: "\<forall>v \<in> set vs. Value_eq v v \<Longrightarrow> Values_eq vs vs"
  by (induction vs) simp_all

lemma members_eq_same: "\<forall>m \<in> set ms. Value_eq (snd m) (snd m) \<Longrightarrow> members_eq ms ms"
  by (induction ms) auto

lemma Value_eq_refl [simp]: "Value_eq v v"
proof (induction v)
  case (Object ms)
  then show ?case by (auto intro!: members_eq_same)
qed (auto intro!: Values_eq_same)

section \<open>Registry\<close>

datatype ToolExecutionEvent =
    ToolExecutionStarted str str
  | ToolExecutionFinished str str bool
  | ToolResultReused str str

record 't Tool =
  tool_definition :: ToolDefinition
  tool_validate :: "Value \<Rightarrow> GatewayError + unit"
  tool_body :: 't

record CachedResult =
  cached_name :: str
  cached_arguments :: Value
  cached_output :: str

record 't ToolRegistry =
  reg_tools :: "(str \<times> 't Tool) list"
  reg_results :: "str \<rightharpoonup> CachedResult"

definition ToolRegistry_new :: "'t ToolRegistry" where
  "ToolRegistry_new = \<lparr>reg_tools = [], reg_results = Map.empty\<rparr>"

definition fresh_scope :: "'t ToolRegistry \<Rightarrow> 't ToolRegistry" where
  "fresh_scope reg = \<lparr>reg_tools = reg_tools reg, reg_results = Map.empty\<rparr>"

definition register_tool :: "'t ToolRegistry \<Rightarrow> 't Tool \<Rightarrow> GatewayError + 't ToolRegistry" where
  "register_tool reg tool =
     (let definition = tool_definition tool in
      and_then (ToolDefinition_validate definition) (\<lambda>_.
      and_then (reject_if (map_of (reg_tools reg) (tool_name definition) \<noteq> None)
                  (InvalidRequest ''duplicate tool registration'')) (\<lambda>_.
      Ok (reg\<lparr>reg_tools := reg_tools reg @ [(tool_name definition, tool)]\<rparr>))))"

definition definitions :: "'t ToolRegistry \<Rightarrow> ToolDefinition list" where
  "definitions reg = sort_key tool_name (map (tool_definition \<circ> snd) (reg_tools reg))"

section \<open>Preflight\<close>

type_synonym 't prepared = "FunctionCall \<times> Value \<times> 't Tool"

definition MAX_ARGUMENT_BYTES :: nat where "MAX_ARGUMENT_BYTES = 64 * 1024"

text \<open>The checks of one function call item; \<open>ids\<close> are the call ids seen before it.\<close>

definition preflight_call ::
    "crates \<Rightarrow> 't ToolRegistry \<Rightarrow> str list \<Rightarrow> OutputItem \<Rightarrow> FunctionCall \<Rightarrow> GatewayError + 't prepared" where
  "preflight_call cr reg ids item call =
     and_then (reject_if (\<not> call_complete call \<or> call_origin call \<noteq> Direct \<or> call_namespace call \<noteq> None
        \<or> (case get_member (item_native item) ''namespace'' of None \<Rightarrow> False | Some v \<Rightarrow> v \<noteq> Null))
        UnsupportedOutput) (\<lambda>_.
     and_then (reject_if (call_id call = [] \<or> length (call_id call) > 512 \<or> call_id call \<in> set ids)
        (Protocol ''empty, oversized, or duplicate tool call identity'')) (\<lambda>_.
     and_then (reject_if (length (call_arguments call) > MAX_ARGUMENT_BYTES) InvalidToolArguments) (\<lambda>_.
     and_then (ok_or InvalidToolArguments (json_from_slice cr (call_arguments call))) (\<lambda>arguments.
     and_then (reject_if (\<not> is_object arguments) InvalidToolArguments) (\<lambda>_.
     and_then (ok_or UnknownTool (map_of (reg_tools reg) (call_name call))) (\<lambda>tool.
     and_then (tool_validate tool arguments) (\<lambda>_.
     and_then (reject_if (case reg_results reg (call_id call) of None \<Rightarrow> False
          | Some saved \<Rightarrow> cached_name saved \<noteq> call_name call \<or> \<not> Value_eq (cached_arguments saved) arguments)
        (Protocol ''call identity reused with different arguments'')) (\<lambda>_.
     Ok (call, arguments, tool)))))))))"

fun preflight_items ::
    "crates \<Rightarrow> 't ToolRegistry \<Rightarrow> str list \<Rightarrow> OutputItem list \<Rightarrow> GatewayError + 't prepared list" where
  "preflight_items cr reg ids [] = Ok []"
| "preflight_items cr reg ids (item # items) =
     (if item_kind item = Message \<or> item_kind item = Reasoning then preflight_items cr reg ids items
      else if item_kind item = FunctionCallKind then
        and_then (ok_or UnsupportedOutput (item_function_call item)) (\<lambda>call.
        and_then (preflight_call cr reg ids item call) (\<lambda>p.
        and_then (preflight_items cr reg (call_id call # ids) items) (\<lambda>ps.
        Ok (p # ps))))
      else Err UnsupportedOutput)"

definition preflight :: "crates \<Rightarrow> 't ToolRegistry \<Rightarrow> ModelResponse \<Rightarrow> GatewayError + 't prepared list" where
  "preflight cr reg response =
     and_then (reject_if (response_outcome response \<noteq> Completed) NotCompleted) (\<lambda>_.
     and_then (preflight_items cr reg [] (response_output response)) (\<lambda>calls.
     and_then (reject_if (length calls > MAX_INPUT_ITEMS)
        (InvalidRequest ''tool results exceed input item capacity'')) (\<lambda>_.
     Ok calls)))"

section \<open>Execution\<close>

text \<open>The state 's of the observer with the operations \<open>execute_next_observed\<close> is generic in:
  \<open>te_run\<close> is the biased \<open>select!\<close> between the stop future and the tool's \<open>execute\<close>.\<close>

record ('t, 's, 'e) tool_env =
  te_checkpoint :: "('s, 'e, unit) prog"
  te_event :: "ToolExecutionEvent \<Rightarrow> ('s, 'e, unit) prog"
  te_result :: "str \<Rightarrow> str \<Rightarrow> bool \<Rightarrow> ('s, 'e, unit) prog"
  te_run :: "'t \<Rightarrow> Value \<Rightarrow> ('s, 'e, GatewayError + Value) prog"
  te_from :: "GatewayError \<Rightarrow> 'e"

record ('t, 's) Batch =
  batch_calls :: "'t prepared list"
  batch_results :: "str \<rightharpoonup> CachedResult"
  batch_state :: 's

definition on_state :: "('s, 'e, 'a) prog \<Rightarrow> (('t, 's) Batch, 'e, 'a) prog" where
  "on_state m = (\<lambda>b. case m (batch_state b) of (r, s) \<Rightarrow> (r, b\<lparr>batch_state := s\<rparr>))"

definition error_value :: "GatewayError \<Rightarrow> Value" where
  "error_value e = Object [(''error'', Object [(''code'', String (GatewayError_code e))])]"

definition quoted :: "str \<Rightarrow> str" where
  "quoted s = CHR 0x22 # s @ [CHR 0x22]"

definition tool_output_limit :: str where
  "tool_output_limit = ''{'' @ quoted ''error'' @ '':{'' @ quoted ''code'' @ '':'' @ quoted ''tool_output_limit'' @ ''}}''"

definition bounded_output :: "str \<Rightarrow> bool \<Rightarrow> str \<times> bool" where
  "bounded_output output is_error =
     (if length output > MAX_ARGUMENT_BYTES then (tool_output_limit, True) else (output, is_error))"

definition execute_call ::
    "crates \<Rightarrow> ('t, 's, 'e) tool_env \<Rightarrow> FunctionCall \<Rightarrow> Value \<Rightarrow> 't Tool \<Rightarrow> (('t, 's) Batch, 'e, InputItem option) prog" where
  "execute_call cr te call arguments tool =
     then_do (on_state (te_checkpoint te)) (\<lambda>_.
     then_do (read (\<lambda>b. batch_results b (call_id call))) (\<lambda>cached.
     case cached of
       Some saved \<Rightarrow>
         then_do (on_state (te_event te (ToolResultReused (call_id call) (call_name call)))) (\<lambda>_.
         ret (Some (ToolResult (call_id call) (cached_output saved))))
     | None \<Rightarrow>
         then_do (on_state (te_event te (ToolExecutionStarted (call_id call) (call_name call)))) (\<lambda>_.
         then_do (on_state (te_checkpoint te)) (\<lambda>_.
         then_do (on_state (te_run te (tool_body tool) arguments)) (\<lambda>executed.
         then_do (from_result (case executed of Inl e \<Rightarrow> Ok (error_value e, True) | Inr v \<Rightarrow> Ok (v, False))) (\<lambda>(value, is_error).
         then_do (from_result (ok_or (te_from te Serialization) (json_to_vec cr value))) (\<lambda>encoded.
         then_do (ret (bounded_output encoded is_error)) (\<lambda>(output, is_error).
         then_do (update (\<lambda>b. b\<lparr>batch_results := (batch_results b)(call_id call \<mapsto>
             \<lparr>cached_name = call_name call, cached_arguments = arguments, cached_output = output\<rparr>)\<rparr>)) (\<lambda>_.
         then_do (on_state (te_result te (call_id call) output is_error)) (\<lambda>_.
         then_do (on_state (te_event te (ToolExecutionFinished (call_id call) (call_name call) is_error))) (\<lambda>_.
         ret (Some (ToolResult (call_id call) output)))))))))))))"

definition execute_next_observed ::
    "crates \<Rightarrow> ('t, 's, 'e) tool_env \<Rightarrow> (('t, 's) Batch, 'e, InputItem option) prog" where
  "execute_next_observed cr te =
     (\<lambda>b. case batch_calls b of
        [] \<Rightarrow> (Ok None, b)
      | (call, arguments, tool) # calls \<Rightarrow>
          (case execute_call cr te call arguments tool (b\<lparr>batch_calls := calls\<rparr>) of
             (Inl e, b') \<Rightarrow> (Err e, b'\<lparr>batch_calls := []\<rparr>)
           | (Inr r, b') \<Rightarrow> (Ok r, b')))"

lemma on_state_calls: "on_state m b = (r, b') \<Longrightarrow> batch_calls b' = batch_calls b \<and> batch_results b' = batch_results b"
  by (auto simp: on_state_def split: prod.splits)

text \<open>The calls still to run are a relation every step of one call keeps: they stay as they are.\<close>

interpretation same_calls: step_relation "\<lambda>b b' :: ('t, 's) Batch. batch_calls b' = batch_calls b"
  by unfold_locales simp_all

lemma same_calls_on_state: "same_calls.kept (on_state m)"
  by (rule same_calls.keptI) (simp add: on_state_calls)

lemma same_calls_execute: "same_calls.kept (execute_call cr te call arguments tool)"
  unfolding execute_call_def
  by (intro same_calls.kept_rules same_calls_on_state same_calls.kept_update)
    (auto split: option.split sum.split intro!: same_calls.kept_rules same_calls_on_state)

lemma execute_next_shrinks:
  "execute_next_observed cr te b = (Ok (Some r), b') \<Longrightarrow> length (batch_calls b') < length (batch_calls b)"
  by (auto simp: execute_next_observed_def split: list.splits prod.splits sum.splits
      dest!: same_calls.keptD [OF same_calls_execute])

text \<open>\<open>while let Some(result) = batch.execute_next(..).await? { after; results.push(result) }\<close>.\<close>

function batch_loop ::
    "crates \<Rightarrow> ('t, 's, 'e) tool_env \<Rightarrow> ('s, 'e, unit) prog \<Rightarrow> (('t, 's) Batch, 'e, InputItem list) prog" where
  "batch_loop cr te after b =
     (case execute_next_observed cr te b of
        (Inl e, b1) \<Rightarrow> (Err e, b1)
      | (Inr None, b1) \<Rightarrow> (Ok [], b1)
      | (Inr (Some r), b1) \<Rightarrow>
          (case on_state after b1 of
             (Inl e, b2) \<Rightarrow> (Err e, b2)
           | (Inr _, b2) \<Rightarrow>
               (case batch_loop cr te after b2 of
                  (Inl e, b3) \<Rightarrow> (Err e, b3)
                | (Inr rs, b3) \<Rightarrow> (Ok (r # rs), b3))))"
  by pat_completeness auto
termination
  by (relation "measure (\<lambda>(cr, te, after, b). length (batch_calls b))")
    (auto dest!: execute_next_shrinks [OF sym] on_state_calls [OF sym])

declare batch_loop.simps [simp del]

text \<open>A relation on the observer's state that each observer operation keeps is kept by the whole batch.\<close>

locale observed_relation = step_relation R for R :: "'s \<Rightarrow> 's \<Rightarrow> bool" +
  fixes te :: "('t, 's, 'e) tool_env"
  assumes te_checkpoint: "kept (te_checkpoint te)"
    and te_event: "kept (te_event te e)"
    and te_result: "kept (te_result te i out err)"
    and te_run: "kept (te_run te body v)"
begin

sublocale lifted: step_relation "\<lambda>b b' :: ('t, 's) Batch. R (batch_state b) (batch_state b')"
  by unfold_locales (auto intro: refl trans)

lemma lifted_on_state: "kept m \<Longrightarrow> lifted.kept (on_state m)"
  by (rule lifted.keptI) (auto simp: on_state_def dest: keptD split: prod.splits)

lemma lifted_execute: "lifted.kept (execute_call cr te call arguments tool)"
  unfolding execute_call_def
  by (intro lifted.kept_rules lifted_on_state te_checkpoint)
    (auto split: option.split sum.split simp: refl
      intro!: lifted.kept_rules lifted_on_state te_checkpoint te_event te_result te_run)

lemma execute_next_kept: "execute_next_observed cr te b = (r, b') \<Longrightarrow> R (batch_state b) (batch_state b')"
  by (auto simp: execute_next_observed_def refl split: list.splits prod.splits sum.splits
      dest!: lifted.keptD [OF lifted_execute])

lemma batch_loop_kept:
  "kept after \<Longrightarrow> batch_loop cr te after b = (r, b') \<Longrightarrow> R (batch_state b) (batch_state b')"
proof (induction "length (batch_calls b)" arbitrary: b r b' rule: less_induct)
  case less
  obtain x b1 where n: "execute_next_observed cr te b = (x, b1)" by fastforce
  note r1 = execute_next_kept [OF n]
  show ?case
  proof (cases "\<exists>i. x = Ok (Some i)")
    case False
    then show ?thesis using less.prems(2) n r1
      by (subst (asm) batch_loop.simps) (auto split: sum.splits option.splits)
  next
    case True
    then obtain i where i: "x = Ok (Some i)" by blast
    obtain y b2 where a: "on_state after b1 = (y, b2)" by fastforce
    have r2: "R (batch_state b1) (batch_state b2)"
      using lifted.keptD [OF lifted_on_state [OF less.prems(1)] a] .
    have len: "length (batch_calls b2) < length (batch_calls b)"
      using execute_next_shrinks n i on_state_calls [OF a] by metis
    obtain z b3 where l: "batch_loop cr te after b2 = (z, b3)" by fastforce
    have "R (batch_state b2) (batch_state b3)" using less.hyps [OF len less.prems(1) l] .
    then show ?thesis using less.prems(2) n i a l r1 r2
      by (subst (asm) batch_loop.simps) (auto split: sum.splits intro: trans)
  qed
qed

end

definition execute_response ::
    "crates \<Rightarrow> ('t, 's, GatewayError) tool_env \<Rightarrow> ModelResponse \<Rightarrow> ('t ToolRegistry \<times> 's, GatewayError, InputItem list) prog" where
  "execute_response cr te response =
     (\<lambda>(reg, s). case preflight cr reg response of
        Inl e \<Rightarrow> (Err e, (reg, s))
      | Inr calls \<Rightarrow>
          (case batch_loop cr te (ret ()) \<lparr>batch_calls = calls, batch_results = reg_results reg, batch_state = s\<rparr> of
             (r, b) \<Rightarrow> (r, (reg\<lparr>reg_results := batch_results b\<rparr>, batch_state b))))"

section \<open>The add_numbers tool\<close>

definition in_i64 :: "int \<Rightarrow> bool" where
  "in_i64 i \<longleftrightarrow> - (2 ^ 63) \<le> i \<and> i < 2 ^ 63"

text \<open>\<open>serde_json::from_value::<i64>\<close> and the derived deserializer of \<open>AddArguments\<close>, which reads an object with
  exactly the two fields, or a sequence of two numbers.\<close>

fun as_i64 :: "Value \<Rightarrow> int option" where
  "as_i64 (Number (PosInt n)) = (if unat n < 2 ^ 63 then Some (uint n) else None)"
| "as_i64 (Number (NegInt i)) = Some i"
| "as_i64 _ = None"

fun AddArguments_from_value :: "Value \<Rightarrow> (int \<times> int) option" where
  "AddArguments_from_value (Object ms) =
     (if list_all (\<lambda>(k, _). k = ''a'' \<or> k = ''b'') ms
      then Option.bind (Option.bind (map_of ms ''a'') as_i64) (\<lambda>a.
           Option.bind (Option.bind (map_of ms ''b'') as_i64) (\<lambda>b. Some (a, b)))
      else None)"
| "AddArguments_from_value (Array [x, y]) =
     Option.bind (as_i64 x) (\<lambda>a. Option.bind (as_i64 y) (\<lambda>b. Some (a, b)))"
| "AddArguments_from_value _ = None"

definition AddNumbers_validate :: "Value \<Rightarrow> GatewayError + unit" where
  "AddNumbers_validate arguments =
     and_then (ok_or InvalidToolArguments (AddArguments_from_value arguments)) (\<lambda>_. Ok ())"

definition json_i64 :: "int \<Rightarrow> Value" where
  "json_i64 i = (if 0 \<le> i then Number (PosInt (of_int i)) else Number (NegInt i))"

definition AddNumbers_execute :: "Value \<Rightarrow> GatewayError + Value" where
  "AddNumbers_execute arguments =
     and_then (ok_or InvalidToolArguments (AddArguments_from_value arguments)) (\<lambda>(a, b).
     and_then (ok_or ToolFailed (if in_i64 (a + b) then Some (a + b) else None)) (\<lambda>sum.
     Ok (Object [(''sum'', json_i64 sum)])))"

text \<open>The demonstration tool adds exactly or reports a failure; it never wraps.\<close>

lemma as_i64_json: "in_i64 i \<Longrightarrow> as_i64 (json_i64 i) = Some i"
proof (cases "0 \<le> i")
  case True
  assume "in_i64 i"
  with True have "u64_try_from_i64 i = Some (of_int i)" by (simp add: u64_try_from_i64_def in_i64_def)
  from u64_i64_round_trip [OF this] show ?thesis using True by (simp add: json_i64_def i64_try_from_u64_def split: if_splits)
qed (simp add: json_i64_def)

lemma add_numbers_sum:
  assumes "in_i64 a" "in_i64 b"
  shows "AddNumbers_validate (Object [(''a'', json_i64 a), (''b'', json_i64 b)]) = Ok ()"
    "AddNumbers_execute (Object [(''a'', json_i64 a), (''b'', json_i64 b)]) =
      (if in_i64 (a + b) then Ok (Object [(''sum'', json_i64 (a + b))]) else Err ToolFailed)"
  using assms by (simp_all add: AddNumbers_validate_def AddNumbers_execute_def as_i64_json)

section \<open>What one call does to the cache\<close>

lemma triple_on_state [hoare]:
  "triple (\<lambda>b. (\<forall>a s. Q a (b\<lparr>batch_state := s\<rparr>)) \<and> (\<forall>e s. E e (b\<lparr>batch_state := s\<rparr>))) (on_state m) Q E"
  by (auto simp: triple_def on_state_def split: prod.split sum.split)

text \<open>A cached call leaves the cache alone; a new call adds one bounded entry under its own id.\<close>

definition cache_effect ::
    "FunctionCall \<Rightarrow> Value \<Rightarrow> (str \<rightharpoonup> CachedResult) \<Rightarrow> (str \<rightharpoonup> CachedResult) \<Rightarrow> bool" where
  "cache_effect call arguments M M' \<longleftrightarrow>
     (case M (call_id call) of
        Some _ \<Rightarrow> M' = M
      | None \<Rightarrow> (\<exists>output. length output \<le> MAX_ARGUMENT_BYTES \<and>
          M' = M(call_id call \<mapsto> \<lparr>cached_name = call_name call, cached_arguments = arguments, cached_output = output\<rparr>)))"

lemma bounded_output_length: "bounded_output output e = (output', e') \<Longrightarrow> length output' \<le> MAX_ARGUMENT_BYTES"
  by (auto simp: bounded_output_def tool_output_limit_def quoted_def MAX_ARGUMENT_BYTES_def split: if_splits)

lemma execute_call_cache:
  "triple (\<lambda>b. batch_results b = M) (execute_call cr te call arguments tool)
     (\<lambda>r b. cache_effect call arguments M (batch_results b) \<and>
        r = Some (ToolResult (call_id call) (cached_output (the (batch_results b (call_id call))))))
     (\<lambda>e b. batch_results b = M \<or> cache_effect call arguments M (batch_results b))"
  unfolding execute_call_def
  by (rule triple_pre, (rule hoare)+)
    (auto simp: cache_effect_def dest: bounded_output_length split: option.split sum.split prod.split)

lemma cache_effect_facts:
  "cache_effect call arguments M M' \<Longrightarrow>
     M \<subseteq>\<^sub>m M' \<and> dom M' = insert (call_id call) (dom M) \<and>
     (\<forall>i c. M' i = Some c \<longrightarrow> M i = Some c \<or> length (cached_output c) \<le> MAX_ARGUMENT_BYTES)"
  by (auto simp: cache_effect_def map_le_def split: option.splits if_splits)

lemma execute_next_Some:
  assumes "execute_next_observed cr te b = (Ok (Some r), b')"
  obtains call arguments tool where
    "batch_calls b = (call, arguments, tool) # batch_calls b'"
    "cache_effect call arguments (batch_results b) (batch_results b')"
    "r = ToolResult (call_id call) (cached_output (the (batch_results b' (call_id call))))"
proof -
  obtain call arguments tool calls where c: "batch_calls b = (call, arguments, tool) # calls"
    using assms by (cases "batch_calls b") (auto simp: execute_next_observed_def)
  with assms have e: "execute_call cr te call arguments tool (b\<lparr>batch_calls := calls\<rparr>) = (Ok (Some r), b')"
    by (auto simp: execute_next_observed_def split: prod.splits sum.splits)
  have "batch_calls b' = calls" using same_calls.keptD [OF same_calls_execute e] by simp
  with c tripleD_Ok [OF execute_call_cache _ e, of "batch_results b"] show thesis by (intro that) auto
qed

lemma execute_next_None:
  "execute_next_observed cr te b = (Ok None, b') \<Longrightarrow> batch_calls b = [] \<and> b' = b"
proof (cases "batch_calls b")
  case (Cons p calls)
  assume n: "execute_next_observed cr te b = (Ok None, b')"
  obtain call arguments tool where "p = (call, arguments, tool)" by (cases p)
  with n Cons have e: "execute_call cr te call arguments tool (b\<lparr>batch_calls := calls\<rparr>) = (Ok None, b')"
    by (auto simp: execute_next_observed_def split: prod.splits sum.splits)
  from tripleD_Ok [OF execute_call_cache _ e] show ?thesis by simp
qed (simp add: execute_next_observed_def)

lemma execute_next_Err:
  assumes "execute_next_observed cr te b = (Err e, b')"
  shows "batch_calls b' = [] \<and> batch_results b \<subseteq>\<^sub>m batch_results b'"
proof -
  obtain call arguments tool calls where c: "batch_calls b = (call, arguments, tool) # calls"
    using assms by (cases "batch_calls b") (auto simp: execute_next_observed_def)
  with assms obtain b1 where e: "execute_call cr te call arguments tool (b\<lparr>batch_calls := calls\<rparr>) = (Err e, b1)"
    and b': "b' = b1\<lparr>batch_calls := []\<rparr>"
    by (auto simp: execute_next_observed_def split: prod.splits sum.splits)
  from tripleD_Err [OF execute_call_cache _ e, of "batch_results b"] show ?thesis
    by (auto simp: b' dest: cache_effect_facts)
qed

section \<open>Properties\<close>

text \<open>The declarative reading of \<open>preflight_call\<close>.\<close>

definition executable_call ::
    "crates \<Rightarrow> 't ToolRegistry \<Rightarrow> OutputItem \<Rightarrow> 't prepared \<Rightarrow> bool" where
  "executable_call cr reg item p \<longleftrightarrow>
     (case p of (call, arguments, tool) \<Rightarrow>
        item_function_call item = Some call \<and> call_complete call \<and> call_origin call = Direct \<and>
        call_namespace call = None \<and> get_member (item_native item) ''namespace'' \<in> {None, Some Null} \<and>
        call_id call \<noteq> [] \<and> length (call_id call) \<le> 512 \<and> length (call_arguments call) \<le> MAX_ARGUMENT_BYTES \<and>
        json_from_slice cr (call_arguments call) = Some arguments \<and> is_object arguments \<and>
        map_of (reg_tools reg) (call_name call) = Some tool \<and> tool_validate tool arguments = Ok () \<and>
        (case reg_results reg (call_id call) of None \<Rightarrow> True
         | Some saved \<Rightarrow> cached_name saved = call_name call \<and> Value_eq (cached_arguments saved) arguments))"

definition supported_kind :: "ItemKind \<Rightarrow> bool" where
  "supported_kind k \<longleftrightarrow> k = Message \<or> k = Reasoning \<or> k = FunctionCallKind"

lemma executable_call_item: "executable_call cr reg item p \<Longrightarrow> item_function_call item = Some (fst p)"
  by (auto simp: executable_call_def split: prod.splits)

lemma preflight_call_Ok:
  "item_function_call item = Some call \<Longrightarrow>
     preflight_call cr reg ids item call = Ok p \<longleftrightarrow>
       fst p = call \<and> call_id call \<notin> set ids \<and> executable_call cr reg item p"
  by (cases p) (auto simp: preflight_call_def executable_call_def wi_results split: option.splits)

lemma preflight_items_Ok:
  "preflight_items cr reg ids items = Ok calls \<longleftrightarrow>
     list_all (\<lambda>i. supported_kind (item_kind i)) items \<and>
     list_all2 (executable_call cr reg) (filter (\<lambda>i. item_kind i = FunctionCallKind) items) calls \<and>
     distinct (map (call_id \<circ> fst) calls) \<and> set ids \<inter> set (map (call_id \<circ> fst) calls) = {}"
proof (induction items arbitrary: ids calls)
  case (Cons item items)
  show ?case
  proof (cases "item_kind item = FunctionCallKind")
    case False
    then show ?thesis using Cons.IH by (auto simp: supported_kind_def)
  next
    case True
    have "preflight_items cr reg ids (item # items) = Ok calls \<longleftrightarrow>
        (\<exists>call p ps. item_function_call item = Some call \<and> fst p = call \<and> call_id call \<notin> set ids \<and>
           executable_call cr reg item p \<and> preflight_items cr reg (call_id call # ids) items = Ok ps \<and> calls = p # ps)"
      using True by (auto simp: wi_results preflight_call_Ok)
    also have "\<dots> \<longleftrightarrow> (\<exists>p ps. item_function_call item = Some (fst p) \<and> call_id (fst p) \<notin> set ids \<and>
           executable_call cr reg item p \<and> preflight_items cr reg (call_id (fst p) # ids) items = Ok ps \<and> calls = p # ps)"
      by auto
    finally have e: "preflight_items cr reg ids (item # items) = Ok calls \<longleftrightarrow> \<dots>" .
    show ?thesis
    proof (cases calls)
      case Nil
      then show ?thesis unfolding e using True by simp
    next
      fix p ps
      assume c: "calls = p # ps"
      then have "preflight_items cr reg ids (item # items) = Ok calls \<longleftrightarrow>
          item_function_call item = Some (fst p) \<and> call_id (fst p) \<notin> set ids \<and>
          executable_call cr reg item p \<and> preflight_items cr reg (call_id (fst p) # ids) items = Ok ps"
        unfolding e by (cases p) auto
      also have "\<dots> \<longleftrightarrow> call_id (fst p) \<notin> set ids \<and>
          executable_call cr reg item p \<and> preflight_items cr reg (call_id (fst p) # ids) items = Ok ps"
        using executable_call_item [of cr reg item p] by blast
      finally show ?thesis
        unfolding Cons.IH using True c by (auto simp: supported_kind_def comp_def)
    qed
  qed
qed auto

section \<open>An example batch\<close>

definition example_call :: FunctionCall where
  "example_call =
     \<lparr>call_id = ''c1'', call_name = ''echo'', call_arguments = ''{}'', call_origin = Direct, call_namespace = None,
      call_complete = True\<rparr>"

definition example_tool :: "unit Tool" where
  "example_tool =
     \<lparr>tool_definition = \<lparr>tool_name = ''echo'', tool_description = [], tool_parameters = Null, tool_strict = True\<rparr>,
      tool_validate = (\<lambda>_. Ok ()), tool_body = ()\<rparr>"

definition example_env :: "(unit, ToolExecutionEvent list, GatewayError) tool_env" where
  "example_env =
     \<lparr>te_checkpoint = ret (), te_event = (\<lambda>e. update (\<lambda>es. es @ [e])), te_result = (\<lambda>_ _ _. ret ()),
      te_run = (\<lambda>_ v. ret (Ok v)), te_from = (\<lambda>e. e)\<rparr>"

definition example_batch :: "(unit, ToolExecutionEvent list) Batch" where
  "example_batch =
     \<lparr>batch_calls = [(example_call, Object [], example_tool)], batch_results = Map.empty, batch_state = []\<rparr>"

lemmas example_batch_defs = example_call_def example_tool_def example_env_def example_batch_def
  execute_next_observed_def execute_call_def on_state_def bounded_output_def MAX_ARGUMENT_BYTES_def
  example_crates_def example_display_def

section \<open>Theorems\<close>

text \<open>C13: a response passes preflight exactly when it is completed, contains only messages, reasoning and
  function calls, and every function call is complete, direct, without namespace, with an id of 1 to
  512 bytes used once in the response, with object arguments the registered tool accepts, and
  consistent with any cached result of that id; the prepared calls are those calls in output order
  and are at most 128.\<close>

theorem preflight_accepts:
  "preflight cr reg response = Ok calls \<longleftrightarrow>
     response_outcome response = Completed \<and>
     list_all (\<lambda>i. supported_kind (item_kind i)) (response_output response) \<and>
     list_all2 (executable_call cr reg)
       (filter (\<lambda>i. item_kind i = FunctionCallKind) (response_output response)) calls \<and>
     distinct (map (call_id \<circ> fst) calls) \<and> length calls \<le> MAX_INPUT_ITEMS"
  by (auto simp: preflight_def wi_results preflight_items_Ok)

lemma batch_loop_results:
  assumes "batch_loop cr te after b = (Ok rs, b')"
  shows "rs = map (\<lambda>(call, _, _). ToolResult (call_id call) (cached_output (the (batch_results b' (call_id call))))) (batch_calls b) \<and>
     batch_calls b' = [] \<and> batch_results b \<subseteq>\<^sub>m batch_results b' \<and>
     dom (batch_results b') = dom (batch_results b) \<union> set (map (call_id \<circ> fst) (batch_calls b)) \<and>
     (\<forall>i c. batch_results b' i = Some c \<longrightarrow> batch_results b i = Some c \<or> length (cached_output c) \<le> MAX_ARGUMENT_BYTES)"
  using assms
proof (induction cr te after b arbitrary: rs b' rule: batch_loop.induct)
  case (1 cr te after b)
  from "1.prems" consider "execute_next_observed cr te b = (Ok None, b')" "rs = []"
    | r b1 b2 rs' where "execute_next_observed cr te b = (Ok (Some r), b1)" "on_state after b1 = (Ok (), b2)"
        "batch_loop cr te after b2 = (Ok rs', b')" "rs = r # rs'"
    by (subst (asm) batch_loop.simps) (auto split: prod.splits sum.splits option.splits)
  then show ?case
  proof cases
    case 1
    then show ?thesis using execute_next_None by fastforce
  next
    case 2
    note IH = "1.IH" [OF 2(1) [symmetric] refl refl 2(2) [symmetric] refl 2(3)]
    note same = on_state_calls [OF 2(2)]
    from 2(1) obtain call arguments tool where c: "batch_calls b = (call, arguments, tool) # batch_calls b1"
      and ce: "cache_effect call arguments (batch_results b) (batch_results b1)"
      and r: "r = ToolResult (call_id call) (cached_output (the (batch_results b1 (call_id call))))"
      by (rule execute_next_Some)
    note f = cache_effect_facts [OF ce]
    have "call_id call \<in> dom (batch_results b1)" using f by auto
    then have "batch_results b' (call_id call) = batch_results b1 (call_id call)"
      using IH same by (auto simp: map_le_def)
    moreover have "batch_results b' i = Some v \<longrightarrow> batch_results b i = Some v \<or> length (cached_output v) \<le> MAX_ARGUMENT_BYTES" for i v
      using IH same f by metis
    moreover have "batch_results b \<subseteq>\<^sub>m batch_results b'" using IH same f by (metis map_le_trans)
    ultimately show ?thesis using IH same f c r 2(4) by auto
  qed
qed

text \<open>C14: running a prepared batch to its end gives one result per call, in order, each the cached output of
  its call id; no earlier cache entry changes, exactly the batch's ids are added, and every added
  output is at most 64 KiB.\<close>

theorem batch_results_cached:
  assumes "batch_loop cr te after b = (Ok rs, b')"
  shows "rs = map (\<lambda>(call, _, _). ToolResult (call_id call) (cached_output (the (batch_results b' (call_id call))))) (batch_calls b) \<and>
     batch_calls b' = [] \<and> batch_results b \<subseteq>\<^sub>m batch_results b' \<and>
     dom (batch_results b') = dom (batch_results b) \<union> set (map (call_id \<circ> fst) (batch_calls b)) \<and>
     (\<forall>i c. batch_results b' i = Some c \<longrightarrow> batch_results b i = Some c \<or> length (cached_output c) \<le> MAX_ARGUMENT_BYTES)"
  by (rule batch_loop_results [OF assms])

theorem batch_results_cached_witness:
  "\<exists>rs b'. batch_loop example_crates example_env (ret ()) example_batch = (Ok rs, b') \<and>
     dom (batch_results b') = {''c1''} \<and> batch_calls b' = []"
proof -
  obtain rs b' where r: "batch_loop example_crates example_env (ret ()) example_batch = (Ok rs, b')"
    by (simp add: batch_loop.simps example_batch_defs prog_defs)
  from batch_results_cached [OF r] r show ?thesis by (auto simp: example_batch_def example_call_def)
qed

text \<open>C15: a call whose id is already cached is answered from the cache: the observer sees a checkpoint and then the event that
  the result was reused, and nothing else happens to its state, so no tool runs; the answer is the output saved under the id, the
  cache stays as it is and the batch goes on with the next call.  If the checkpoint or the observer refuses, that error is returned
  and the rest of the batch is dropped.\<close>

theorem cached_call_not_rerun:
  assumes "batch_calls b = (call, arguments, tool) # calls" "batch_results b (call_id call) = Some saved"
  shows "execute_next_observed cr te b =
    (case te_checkpoint te (batch_state b) of
       (Inl e, s) \<Rightarrow> (Err e, b\<lparr>batch_calls := [], batch_state := s\<rparr>)
     | (Inr _, s) \<Rightarrow>
         (case te_event te (ToolResultReused (call_id call) (call_name call)) s of
            (Inl e, s') \<Rightarrow> (Err e, b\<lparr>batch_calls := [], batch_state := s'\<rparr>)
          | (Inr _, s') \<Rightarrow>
              (Ok (Some (ToolResult (call_id call) (cached_output saved))), b\<lparr>batch_calls := calls, batch_state := s'\<rparr>)))"
  using assms
  by (auto simp: execute_next_observed_def execute_call_def on_state_def then_do_def read_def ret_def split: prod.splits sum.splits)

theorem cached_call_not_rerun_witness:
  "let b = example_batch\<lparr>batch_results := [''c1'' \<mapsto> \<lparr>cached_name = ''echo'', cached_arguments = Object [], cached_output = ''{}''\<rparr>]\<rparr>
   in execute_next_observed example_crates (example_env\<lparr>te_run := (\<lambda>_ _. raise ToolFailed)\<rparr>) b =
      (Ok (Some (ToolResult ''c1'' ''{}'')), b\<lparr>batch_calls := [], batch_state := [ToolResultReused ''c1'' ''echo'']\<rparr>)"
  unfolding Let_def
  using cached_call_not_rerun [of "example_batch\<lparr>batch_results := [''c1'' \<mapsto> \<lparr>cached_name = ''echo'', cached_arguments = Object [], cached_output = ''{}''\<rparr>]\<rparr>"
      example_call "Object []" example_tool "[]" "\<lparr>cached_name = ''echo'', cached_arguments = Object [], cached_output = ''{}''\<rparr>"
      example_crates "example_env\<lparr>te_run := (\<lambda>_ _. raise ToolFailed)\<rparr>"]
  by (simp add: example_batch_def example_call_def example_env_def prog_defs)

text \<open>C16: when a call fails, the rest of the batch is dropped, no cached result is lost, and asking again
  yields nothing: a failed observer gets no further event from the batch.\<close>

theorem failed_call_drops_batch:
  assumes "execute_next_observed cr te b = (Err e, b')"
  shows "batch_calls b' = [] \<and> batch_results b \<subseteq>\<^sub>m batch_results b' \<and>
     execute_next_observed cr te' b' = (Ok None, b')"
  using execute_next_Err [OF assms] by (simp add: execute_next_observed_def)

theorem failed_call_drops_batch_witness:
  "\<exists>e b'. execute_next_observed example_crates (example_env\<lparr>te_event := (\<lambda>_. raise SlowConsumer)\<rparr>) example_batch = (Err e, b') \<and>
     execute_next_observed example_crates example_env b' = (Ok None, b')"
proof -
  obtain e b' where r: "execute_next_observed example_crates (example_env\<lparr>te_event := (\<lambda>_. raise SlowConsumer)\<rparr>) example_batch = (Err e, b')"
    by (simp add: example_batch_defs prog_defs)
  from failed_call_drops_batch [OF r, of example_env] r show ?thesis by blast
qed

end
