(* ===== verification/Replay.thy ===== *)
theory Replay
  imports Tools "HOL-Library.Multiset"
begin

text \<open>
  Stored conversations of \<open>src/provider/replay.rs\<close>: the checked constructors of \<open>ReplayIdentity\<close>,
  \<open>ReplayExchange\<close>, \<open>ReplayRun\<close> and \<open>ConversationReplay\<close>.  The last theorem connects them to the tool
  executor: what a run executes is what a later run may replay.
\<close>

definition replay_invalid :: GatewayError where
  "replay_invalid = InvalidRequest ''invalid conversation replay''"

record ReplayIdentity =
  ri_provider_id :: str
  ri_format :: str
  ri_principal_digest :: str

definition valid_digest :: "str \<Rightarrow> bool" where
  "valid_digest value \<longleftrightarrow> length value = 64 \<and> list_all is_lower_hex value"

definition ReplayIdentity_new :: "str \<Rightarrow> str \<Rightarrow> str \<Rightarrow> GatewayError + ReplayIdentity" where
  "ReplayIdentity_new provider format digest =
     and_then (reject_if (is_blank provider \<or> is_blank format \<or> \<not> valid_digest digest)
        (InvalidRequest ''invalid replay identity'')) (\<lambda>_.
     Ok \<lparr>ri_provider_id = provider, ri_format = format, ri_principal_digest = digest\<rparr>)"

record ReplayExchange =
  rx_response :: ModelResponse
  rx_tool_results :: "InputItem list"

record ReplayRun =
  rr_source_run_id :: str
  rr_prepared_prompt :: str
  rr_exchanges :: "ReplayExchange list"

record ConversationReplay =
  cr_version :: nat
  cr_provider_id :: str
  cr_requested_model :: str
  cr_expected_identity :: "ReplayIdentity option"
  cr_runs :: "ReplayRun list"

definition ConversationReplay_new ::
    "str \<Rightarrow> str \<Rightarrow> ReplayIdentity option \<Rightarrow> ReplayRun list \<Rightarrow> GatewayError + ConversationReplay" where
  "ConversationReplay_new provider model identity runs =
     and_then (reject_if (is_blank provider \<or> is_blank model \<or> length model > 256
        \<or> (case identity of None \<Rightarrow> False | Some i \<Rightarrow> ri_provider_id i \<noteq> provider)
        \<or> (runs \<noteq> [] \<and> identity = None) \<or> \<not> distinct (map rr_source_run_id runs)) replay_invalid) (\<lambda>_.
     Ok \<lparr>cr_version = 1, cr_provider_id = provider, cr_requested_model = model, cr_expected_identity = identity,
         cr_runs = runs\<rparr>)"

text \<open>The deserializer of \<open>ConversationReplay\<close> checks the version and then constructs.\<close>

definition ConversationReplay_try_from :: "ConversationReplay \<Rightarrow> GatewayError + ConversationReplay" where
  "ConversationReplay_try_from value =
     and_then (reject_if (cr_version value \<noteq> 1) replay_invalid) (\<lambda>_.
     ConversationReplay_new (cr_provider_id value) (cr_requested_model value) (cr_expected_identity value) (cr_runs value))"

definition ReplayRun_new :: "str \<Rightarrow> str \<Rightarrow> ReplayExchange list \<Rightarrow> GatewayError + ReplayRun" where
  "ReplayRun_new source prompt exchanges =
     and_then (reject_if (is_blank source \<or> is_blank prompt \<or> exchanges = []
        \<or> list_ex (\<lambda>x. rx_tool_results x = []) (take (length exchanges - 1) exchanges)) replay_invalid) (\<lambda>_.
     Ok \<lparr>rr_source_run_id = source, rr_prepared_prompt = prompt, rr_exchanges = exchanges\<rparr>)"

fun validate_response_items :: "crates \<Rightarrow> str list \<Rightarrow> OutputItem list \<Rightarrow> GatewayError + unit" where
  "validate_response_items cr ids [] = Ok ()"
| "validate_response_items cr ids (item # items) =
     (if (item_kind item = Message \<or> item_kind item = Reasoning) \<and> item_function_call item = None
      then validate_response_items cr ids items
      else if item_kind item = FunctionCallKind then
        and_then (ok_or replay_invalid (item_function_call item)) (\<lambda>call.
        and_then (reject_if (\<not> call_complete call \<or> call_origin call \<noteq> Direct \<or> call_namespace call \<noteq> None
            \<or> (case get_member (item_native item) ''namespace'' of None \<Rightarrow> False | Some v \<Rightarrow> v \<noteq> Null)
            \<or> call_id call = [] \<or> length (call_id call) > 512 \<or> call_name call = [] \<or> call_id call \<in> set ids
            \<or> length (call_arguments call) > MAX_ARGUMENT_BYTES
            \<or> \<not> (case json_from_slice cr (call_arguments call) of None \<Rightarrow> False | Some v \<Rightarrow> is_object v))
          replay_invalid) (\<lambda>_.
        validate_response_items cr (call_id call # ids) items))
      else Err replay_invalid)"

definition validate_response :: "crates \<Rightarrow> ModelResponse \<Rightarrow> GatewayError + unit" where
  "validate_response cr response =
     and_then (reject_if (response_id response = [] \<or> response_outcome response \<noteq> Completed) replay_invalid) (\<lambda>_.
     validate_response_items cr [] (response_output response))"

text \<open>The results are matched one by one with the response's calls, and none may be left over.\<close>

fun match_results :: "FunctionCall list \<Rightarrow> InputItem list \<Rightarrow> GatewayError + unit" where
  "match_results [] [] = Ok ()"
| "match_results [] (r # rs) = Err replay_invalid"
| "match_results (c # cs) (ToolResult i out # rs) =
     (if i = call_id c then match_results cs rs else Err replay_invalid)"
| "match_results (c # cs) rs = Err replay_invalid"

definition response_calls :: "ModelResponse \<Rightarrow> FunctionCall list" where
  "response_calls response = List.map_filter item_function_call (response_output response)"

definition ReplayExchange_new :: "crates \<Rightarrow> ModelResponse \<Rightarrow> InputItem list \<Rightarrow> GatewayError + ReplayExchange" where
  "ReplayExchange_new cr response results =
     and_then (validate_response cr response) (\<lambda>_.
     and_then (match_results (response_calls response) results) (\<lambda>_.
     Ok \<lparr>rx_response = response, rx_tool_results = results\<rparr>))"

section \<open>The registry's own invariant\<close>

text \<open>Every registered tool stands under its own valid name, once.\<close>

definition registry_ok :: "'t ToolRegistry \<Rightarrow> bool" where
  "registry_ok reg \<longleftrightarrow>
     distinct (map fst (reg_tools reg)) \<and>
     (\<forall>(name, tool) \<in> set (reg_tools reg). name = tool_name (tool_definition tool) \<and>
        ToolDefinition_validate (tool_definition tool) = Ok ())"

lemma registry_ok_new: "registry_ok ToolRegistry_new"
  by (simp add: registry_ok_def ToolRegistry_new_def)

lemma registry_ok_scope: "registry_ok reg \<Longrightarrow> registry_ok (fresh_scope reg)"
  by (simp add: registry_ok_def fresh_scope_def)

lemma registry_ok_register: "registry_ok reg \<Longrightarrow> register_tool reg tool = Ok reg' \<Longrightarrow> registry_ok reg'"
  by (auto simp: registry_ok_def register_tool_def Let_def wi_results map_of_eq_None_iff)

lemma registry_ok_name:
  "registry_ok reg \<Longrightarrow> map_of (reg_tools reg) name = Some tool \<Longrightarrow>
     name \<noteq> [] \<and> name = tool_name (tool_definition tool) \<and> valid_tool_name name"
  by (auto simp: registry_ok_def ToolDefinition_validate_Ok valid_tool_name_def dest!: map_of_SomeD)

lemma registry_ok_definitions:
  assumes "registry_ok reg"
  shows "list_all (\<lambda>d. ToolDefinition_validate d = Ok ()) (definitions reg) \<and> distinct (map tool_name (definitions reg))
     \<and> sorted (map tool_name (definitions reg))"
proof -
  have names: "map (tool_name \<circ> (tool_definition \<circ> snd)) (reg_tools reg) = map fst (reg_tools reg)"
    using assms by (auto simp: registry_ok_def)
  have "distinct (map tool_name (definitions reg)) \<longleftrightarrow> distinct (map fst (reg_tools reg))"
    unfolding definitions_def names [symmetric]
    by (rule mset_eq_imp_distinct_iff) (simp add: multiset.map_comp)
  then show ?thesis
    using assms by (auto simp: definitions_def list_all_iff registry_ok_def)
qed

text \<open>The host registers its tools one after the other.\<close>

fun register_all :: "'t Tool list \<Rightarrow> 't ToolRegistry \<Rightarrow> GatewayError + 't ToolRegistry" where
  "register_all [] reg = Ok reg"
| "register_all (tool # tools) reg = and_then (register_tool reg tool) (register_all tools)"

lemma register_all_Ok:
  "register_all tools reg = Ok reg' \<Longrightarrow> registry_ok reg \<Longrightarrow>
     registry_ok reg' \<and> reg_tools reg' = reg_tools reg @ map (\<lambda>tool. (tool_name (tool_definition tool), tool)) tools"
proof (induction tools arbitrary: reg)
  case (Cons tool tools)
  then obtain reg1 where r: "register_tool reg tool = Ok reg1" "register_all tools reg1 = Ok reg'" by (auto simp: wi_results)
  from Cons.IH [OF r(2) registry_ok_register [OF Cons.prems(2) r(1)]] show ?case
    using r(1) by (auto simp: register_tool_def Let_def wi_results)
qed simp

section \<open>Replaying what was executed\<close>

lemma filter_calls:
  "list_all (\<lambda>i. supported_kind (item_kind i)) items \<Longrightarrow>
   \<forall>i \<in> set items. item_kind i \<noteq> FunctionCallKind \<longrightarrow> item_function_call i = None \<Longrightarrow>
   list_all2 (executable_call cr reg) (filter (\<lambda>i. item_kind i = FunctionCallKind) items) calls \<Longrightarrow>
     List.map_filter item_function_call items = map fst calls"
proof (induction items arbitrary: calls)
  case (Cons i items)
  then show ?case
    by (cases "item_kind i = FunctionCallKind")
      (auto simp: List.map_filter_simps list_all2_Cons1 dest: executable_call_item)
qed (simp add: List.map_filter_simps)

lemma validate_items_executable:
  assumes "registry_ok reg"
    and "list_all (\<lambda>i. supported_kind (item_kind i)) items"
    and "\<forall>i \<in> set items. item_kind i \<noteq> FunctionCallKind \<longrightarrow> item_function_call i = None"
    and "list_all2 (executable_call cr reg) (filter (\<lambda>i. item_kind i = FunctionCallKind) items) calls"
    and "distinct (map (call_id \<circ> fst) calls)" "set ids \<inter> set (map (call_id \<circ> fst) calls) = {}"
  shows "validate_response_items cr ids items = Ok ()"
  using assms(2-)
proof (induction items arbitrary: ids calls)
  case (Cons i items)
  show ?case
  proof (cases "item_kind i = FunctionCallKind")
    case False
    then show ?thesis using Cons.prems Cons.IH [of calls ids] by (auto simp: supported_kind_def)
  next
    case True
    with Cons.prems(3) obtain p ps where c: "calls = p # ps" "executable_call cr reg i p"
      "list_all2 (executable_call cr reg) (filter (\<lambda>i. item_kind i = FunctionCallKind) items) ps"
      by (auto simp: list_all2_Cons1)
    obtain call arguments tool where p: "p = (call, arguments, tool)" by (cases p)
    have name: "call_name call \<noteq> []"
      using c(2) registry_ok_name [OF assms(1)] by (auto simp: executable_call_def p)
    have "validate_response_items cr (call_id call # ids) items = Ok ()"
      using Cons.prems c p by (intro Cons.IH [of ps]) (auto simp: comp_def)
    moreover have "call_id call \<notin> set ids" using Cons.prems(5) c(1) p by auto
    ultimately show ?thesis
      using True c(2) name by (auto simp: p executable_call_def reject_if_def)
  qed
qed simp

lemma match_results_map:
  "match_results (map fst calls) (map (\<lambda>(call, _, _). ToolResult (call_id call) (out call)) calls) = Ok ()"
  by (induction calls) auto

lemma batch_results_in_order:
  assumes "batch_loop cr te after b = (Ok rs, b')"
  shows "\<exists>out. rs = map (\<lambda>(call, _, _). ToolResult (call_id call) (out call)) (batch_calls b)"
  using batch_loop_results [OF assms]
  by (intro exI [of _ "\<lambda>call. cached_output (the (batch_results b' (call_id call)))"]) blast

section \<open>Properties\<close>

text \<open>C17: every exchange a run can produce is one that can be stored for replay: if a response with an id whose
  non-call items carry no call passes preflight in a well-formed registry and its batch runs to the
  end, then \<open>ReplayExchange::new\<close> accepts the response together with the batch's results.\<close>

theorem executed_exchange_replayable:
  assumes "registry_ok reg" "response_id response \<noteq> []"
    and "\<forall>i \<in> set (response_output response). item_kind i \<noteq> FunctionCallKind \<longrightarrow> item_function_call i = None"
    and "preflight cr reg response = Ok calls" "batch_calls b = calls" "batch_loop cr te after b = (Ok rs, b')"
  shows "ReplayExchange_new cr response rs = Ok \<lparr>rx_response = response, rx_tool_results = rs\<rparr>"
proof -
  have out: "response_outcome response = Completed"
    and pi: "preflight_items cr reg [] (response_output response) = Ok calls"
    using assms(4) by (auto simp: preflight_def wi_results)
  note p = pi [unfolded preflight_items_Ok]
  have "validate_response_items cr [] (response_output response) = Ok ()"
    using p by (intro validate_items_executable [OF assms(1) _ assms(3), where calls = calls]) auto
  then have "validate_response cr response = Ok ()"
    using assms(2) out by (simp add: validate_response_def reject_if_def)
  moreover have "response_calls response = map fst calls"
    unfolding response_calls_def using p assms(3) by (intro filter_calls) auto
  moreover obtain f where "rs = map (\<lambda>(call, _, _). ToolResult (call_id call) (f call)) calls"
    using batch_results_in_order [OF assms(6)] assms(5) by auto
  ultimately show ?thesis by (simp add: ReplayExchange_new_def match_results_map)
qed

definition object_crates :: crates where
  "object_crates = example_crates\<lparr>json_from_slice := (\<lambda>_. Some (Object []))\<rparr>"

definition example_registry :: "unit ToolRegistry" where
  "example_registry =
     \<lparr>reg_tools = [(''echo'', example_tool\<lparr>tool_definition :=
        \<lparr>tool_name = ''echo'', tool_description = [], tool_parameters = Object [(''type'', String ''object'')], tool_strict = True\<rparr>\<rparr>)],
      reg_results = Map.empty\<rparr>"

definition example_response :: ModelResponse where
  "example_response =
     \<lparr>response_provenance = NativeTerminal, response_id = ''r1'', response_model = None, response_outcome = Completed,
      response_output = [\<lparr>item_id = None, item_kind = FunctionCallKind, item_native_type = ''function_call'',
        item_function_call = Some example_call, item_native = Object []\<rparr>],
      response_text = [], response_usage = None, response_native = Null\<rparr>"

lemma example_registry_ok: "registry_ok example_registry"
  by (simp add: registry_ok_def example_registry_def ToolDefinition_validate_Ok valid_tool_name_def
      is_ascii_alphanumeric_def is_ascii_digit_def)

theorem executed_exchange_replayable_witness:
  "\<exists>calls rs b'. preflight object_crates example_registry example_response = Ok calls \<and>
     batch_loop object_crates example_env (ret ()) \<lparr>batch_calls = calls, batch_results = Map.empty, batch_state = []\<rparr> = (Ok rs, b') \<and>
     ReplayExchange_new object_crates example_response rs = Ok \<lparr>rx_response = example_response, rx_tool_results = rs\<rparr>"
proof -
  obtain calls where p: "preflight object_crates example_registry example_response = Ok calls"
    by (simp add: preflight_def preflight_call_def example_response_def example_call_def example_registry_def
        object_crates_def example_tool_def reject_if_def MAX_ARGUMENT_BYTES_def MAX_INPUT_ITEMS_def)
  let ?b = "\<lparr>batch_calls = calls, batch_results = Map.empty, batch_state = []\<rparr>"
  have "calls = [(example_call, Object [], snd (hd (reg_tools example_registry)))]"
    using p by (simp add: preflight_def preflight_call_def example_response_def example_call_def example_registry_def
        object_crates_def example_tool_def reject_if_def MAX_ARGUMENT_BYTES_def MAX_INPUT_ITEMS_def)
  then obtain rs b' where r: "batch_loop object_crates example_env (ret ()) ?b = (Ok rs, b')"
    by (simp add: batch_loop.simps example_batch_defs object_crates_def prog_defs)
  have "ReplayExchange_new object_crates example_response rs = Ok \<lparr>rx_response = example_response, rx_tool_results = rs\<rparr>"
    by (rule executed_exchange_replayable [OF example_registry_ok _ _ p _ r]) (simp_all add: example_response_def)
  with p r show ?thesis by blast
qed

text \<open>C18: registered tools fail a session only by their number or the total size.  If the registrations succeed, the definitions
  the registry hands out are those of the registered tools, ordered by name, each with a name of 1 to 64 letters, digits,
  underscores or hyphens that no other has, a description of at most 8192 bytes and an object schema; and session options with
  them are accepted exactly when the model is a nonblank name of at most 256 bytes, the instructions are nonblank, at most 32 tools
  were registered and the options serialize to at most 1 MiB.\<close>

theorem registered_tools_accepted:
  assumes "register_all tools ToolRegistry_new = Ok reg"
  shows "mset (definitions reg) = mset (map tool_definition tools) \<and> sorted (map tool_name (definitions reg)) \<and>
    distinct (map tool_name (definitions reg)) \<and>
    (\<forall>d \<in> set (definitions reg). 0 < length (tool_name d) \<and> length (tool_name d) \<le> 64 \<and>
       (\<forall>b \<in> set (tool_name d). is_ascii_alphanumeric b \<or> b = CHR ''_'' \<or> b = CHR ''-'') \<and>
       length (tool_description d) \<le> 8192 \<and> get_member (tool_parameters d) ''type'' = Some (String ''object'')) \<and>
    (SessionOptions_validate cr (opts\<lparr>opt_tools := definitions reg\<rparr>) = Ok () \<longleftrightarrow>
       \<not> is_blank (opt_model opts) \<and> length (opt_model opts) \<le> 256 \<and> \<not> is_blank (opt_instructions opts) \<and> length tools \<le> 32 \<and>
       (\<exists>bytes. json_to_vec cr (SessionOptions_value (opts\<lparr>opt_tools := definitions reg\<rparr>)) = Some bytes \<and> length bytes \<le> 1048576))"
proof -
  have r: "registry_ok reg" "reg_tools reg = map (\<lambda>tool. (tool_name (tool_definition tool), tool)) tools"
    using register_all_Ok [OF assms registry_ok_new] by (simp_all add: ToolRegistry_new_def)
  note d = registry_ok_definitions [OF r(1)]
  have m: "mset (definitions reg) = mset (map tool_definition tools)" by (simp add: definitions_def r(2) comp_def)
  then have len: "length (definitions reg) = length tools" using mset_eq_length by fastforce
  have valid: "\<forall>d \<in> set (definitions reg). valid_tool_name (tool_name d) \<and> length (tool_description d) \<le> 8192 \<and>
      get_member (tool_parameters d) ''type'' = Some (String ''object'')"
    using d by (simp add: list_all_iff ToolDefinition_validate_Ok)
  then show ?thesis using d m len
    by (auto simp: SessionOptions_validate_Ok valid_tool_name_def list_all_iff)
qed

theorem registered_tools_accepted_witness:
  "\<exists>reg. register_all [snd (hd (reg_tools example_registry))] ToolRegistry_new = Ok reg \<and> map tool_name (definitions reg) = [''echo''] \<and>
     SessionOptions_validate example_crates ((SessionOptions_new ''m'')\<lparr>opt_tools := definitions reg\<rparr>) = Ok ()"
proof -
  let ?tool = "snd (hd (reg_tools example_registry))"
  obtain reg where reg: "register_all [?tool] ToolRegistry_new = Ok reg" "definitions reg = [tool_definition ?tool]"
    by (simp add: example_registry_def register_tool_def ToolRegistry_new_def Let_def ToolDefinition_validate_def valid_tool_name_def
        reject_if_def definitions_def example_tool_def is_ascii_alphanumeric_def)
  have "\<not> is_blank ''m''" "\<not> is_blank ''You are a helpful assistant.''" by code_simp+
  then show ?thesis using registered_tools_accepted [OF reg(1), of example_crates "SessionOptions_new ''m''"] reg
    by (simp add: SessionOptions_new_def example_crates_def example_display_def SessionOptions_value_def example_registry_def)
qed

end
