(* ===== verification/Run_Controller.thy ===== *)
theory Run_Controller
  imports Replay Identifiers
begin

text \<open>
  One provider-neutral run: \<open>src/run/mod.rs\<close>, \<open>src/run/collect.rs\<close> and the event types of
  \<open>src/run/events.rs\<close>.

  Everything outside the controller is a parameter, \<open>run_env\<close>: the cancellation token, fresh ids, the
  observer, the opened provider session and the tools, as functions on a world of type \<open>'w\<close>.  An
  awaited operation answers \<open>None\<close> when cancellation wins the \<open>select!\<close> while it is pending.  The record
  \<open>Run\<close> holds the fields of the source's \<open>State\<close> and the locals of \<open>run_admitted\<close> and \<open>drive\<close> (tool scope,
  collector, last provider sequence, close guard).
\<close>

section \<open>Events\<close>

datatype RunOutcome = RunCompleted | RunFailed str | CancelledLocally

datatype RunSinkError = SinkFull | SinkClosed | SinkFailed

datatype TurnOutcome = ModelCompleted | ToolsPrepared | Stopped RunOutcome

record RunSummary =
  turns_started :: u64
  turns_finished :: u64
  model_requests_attempted :: u64
  model_requests_admitted :: u64
  new_tool_dispatches :: u64
  tool_results_prepared :: u64
  reused_results :: u64
  last_request_id :: "str option"
  last_upstream_outcome :: "UpstreamOutcome option"

definition RunSummary_default :: RunSummary where
  "RunSummary_default =
     \<lparr>turns_started = 0, turns_finished = 0, model_requests_attempted = 0, model_requests_admitted = 0,
      new_tool_dispatches = 0, tool_results_prepared = 0, reused_results = 0, last_request_id = None,
      last_upstream_outcome = None\<rparr>"

datatype RunEvent =
    RunStarted
  | TurnStarted u64
  | ProviderEventReceived EventEnvelope
  | ToolEvent ToolExecutionEvent
  | TurnFinished u64 "str option" TurnOutcome "UpstreamOutcome option"
  | RunFinished RunOutcome RunSummary

record RunEventEnvelope =
  re_schema_version :: nat
  re_sequence :: u64
  re_event_id :: str
  re_run_id :: str
  re_turn_id :: "str option"
  re_session_id :: "str option"
  re_request_id :: "str option"
  re_event :: RunEvent

section \<open>The collector\<close>

record Collector =
  col_response_id :: "str option"
  col_started :: bool
  col_terminal :: bool

definition Collector_default :: Collector where
  "Collector_default = \<lparr>col_response_id = None, col_started = False, col_terminal = False\<rparr>"

definition failed :: "str \<Rightarrow> RunOutcome" where
  "failed code = RunFailed code"

definition PROVIDER_ID :: str where
  "PROVIDER_ID = ''openai-codex''"

text \<open>\<open>Collector::observe\<close> with the collector and the caller's \<open>sequence\<close> as the state it may change before it
  returns.\<close>

type_synonym collecting = "Collector \<times> u64 option"

definition check_response_id :: "str \<Rightarrow> (collecting, RunOutcome, unit) prog" where
  "check_response_id i =
     then_do (read (\<lambda>(c, _). col_response_id c)) (\<lambda>known.
     then_do (fail_if (i = [] \<or> (case known of None \<Rightarrow> False | Some k \<Rightarrow> k \<noteq> i)) (failed ''provider_correlation'')) (\<lambda>_.
     update (\<lambda>(c, s). (c\<lparr>col_response_id := Some i\<rparr>, s))))"

definition observe ::
    "'u uuid_crate \<Rightarrow> EventEnvelope \<Rightarrow> str \<Rightarrow> str \<Rightarrow> str \<Rightarrow> (collecting, RunOutcome, unit) prog" where
  "observe uu envelope session provider request =
     then_do (read (\<lambda>(c, s). env_session_id envelope \<noteq> session \<or> env_provider envelope \<noteq> provider
         \<or> env_request_id envelope \<noteq> Some request
         \<or> (case s of None \<Rightarrow> False | Some previous \<Rightarrow> env_sequence envelope \<le> previous) \<or> col_terminal c)) (\<lambda>bad.
     then_do (fail_if bad (failed ''provider_correlation'')) (\<lambda>_.
     then_do (fail_if (provider = PROVIDER_ID \<and>
         \<not> is_local_event_id uu (env_event_id envelope) (env_session_id envelope) (env_sequence envelope))
         (failed ''provider_correlation'')) (\<lambda>_.
     then_do (update (\<lambda>(c, _). (c, Some (env_sequence envelope)))) (\<lambda>_.
     (case env_event envelope of
        SessionClosed _ \<Rightarrow> raise (failed ''session_closed'')
      | ResponseStarted i \<Rightarrow>
          then_do (read (\<lambda>(c, _). col_started c)) (\<lambda>started.
          then_do (fail_if started (failed ''provider_correlation'')) (\<lambda>_.
          then_do (update (\<lambda>(c, s). (c\<lparr>col_started := True\<rparr>, s))) (\<lambda>_.
          check_response_id i)))
      | ResponseStatus i _ \<Rightarrow> check_response_id i
      | OutputItemStarted i _ _ \<Rightarrow> check_response_id i
      | OutputItemUpdated i _ _ _ _ _ _ \<Rightarrow> check_response_id i
      | OutputItemFinished i _ _ \<Rightarrow> check_response_id i
      | ResponseFinished response \<Rightarrow>
          then_do (update (\<lambda>(c, s). (c\<lparr>col_terminal := True\<rparr>, s))) (\<lambda>_.
          check_response_id (response_id response))
      | RequestFailed _ _ _ \<Rightarrow> update (\<lambda>(c, s). (c\<lparr>col_terminal := True\<rparr>, s))
      | ProviderExtension _ _ \<Rightarrow> ret ())))))"

section \<open>State and environment\<close>

record ('t, 'w) Run =
  st_world :: 'w
  st_sequence :: u64
  st_run_id :: str
  st_session_id :: "str option"
  st_turn_id :: "str option"
  st_request_id :: "str option"
  st_sink_error :: "RunSinkError option"
  st_summary :: RunSummary
  st_last_response :: "ModelResponse option"
  st_scope :: "'t ToolRegistry"
  st_collector :: Collector
  st_provider_sequence :: "u64 option"
  st_guard :: bool

record ('p, 't, 'w) run_env =
  run_gateway :: "'p Gateway"
  run_is_cancelled :: "'w \<Rightarrow> bool \<times> 'w"
  run_new_v4 :: "'w \<Rightarrow> str \<times> 'w"
  run_observe_event :: "RunEventEnvelope \<Rightarrow> 'w \<Rightarrow> (RunSinkError + unit) \<times> 'w"
  run_observe_tool_result :: "str \<Rightarrow> str \<Rightarrow> str \<Rightarrow> bool \<Rightarrow> 'w \<Rightarrow> (RunSinkError + unit) \<times> 'w"
  run_observe_provider_opened :: "str \<Rightarrow> str \<Rightarrow> ReplayIdentity \<Rightarrow> 'w \<Rightarrow> (RunSinkError + unit) \<times> 'w"
  run_provider_open :: "'p Provider \<Rightarrow> SessionOptions \<Rightarrow> 'w \<Rightarrow> (GatewayError + str) option \<times> 'w"
  run_replay_identity :: "'w \<Rightarrow> ReplayIdentity option \<times> 'w"
  run_install_replay :: "ConversationReplay \<Rightarrow> 'w \<Rightarrow> (GatewayError + unit) option \<times> 'w"
  run_generate :: "InputItem list \<Rightarrow> 'w \<Rightarrow> (GatewayError + str) option \<times> 'w"
  run_next_event :: "'w \<Rightarrow> EventEnvelope option option \<times> 'w"
  run_close :: "'w \<Rightarrow> unit \<times> 'w"
  run_execute :: "'t \<Rightarrow> Value \<Rightarrow> 'w \<Rightarrow> (GatewayError + Value) option \<times> 'w"

type_synonym ('t, 'w, 'a) run = "(('t, 'w) Run, RunOutcome, 'a) prog"

definition world_op :: "('w \<Rightarrow> 'a \<times> 'w) \<Rightarrow> ('t, 'w, 'a) run" where
  "world_op f = (\<lambda>st. case f (st_world st) of (a, w) \<Rightarrow> (Ok a, st\<lparr>st_world := w\<rparr>))"

definition increment :: "(('t, 'w) Run \<Rightarrow> u64) \<Rightarrow> (u64 \<Rightarrow> ('t, 'w) Run \<Rightarrow> ('t, 'w) Run) \<Rightarrow> ('t, 'w, unit) run" where
  "increment counter store =
     then_do (read counter) (\<lambda>c.
     case checked_add_u64 c 1 of
       None \<Rightarrow> raise (failed ''counter_overflow'')
     | Some c' \<Rightarrow> update (store c'))"

abbreviation on_summary :: "(RunSummary \<Rightarrow> RunSummary) \<Rightarrow> ('t, 'w) Run \<Rightarrow> ('t, 'w) Run" where
  "on_summary f st \<equiv> st\<lparr>st_summary := f (st_summary st)\<rparr>"

definition checkpoint :: "('p, 't, 'w) run_env \<Rightarrow> ('t, 'w, unit) run" where
  "checkpoint env = then_do (world_op (run_is_cancelled env)) (\<lambda>c. fail_if c CancelledLocally)"

text \<open>\<open>cancellable\<close>: a set token wins before the future is polled; otherwise the future may still lose while it
  is pending.\<close>

definition cancellable :: "('p, 't, 'w) run_env \<Rightarrow> ('t, 'w, 'a option) run \<Rightarrow> ('t, 'w, 'a) run" where
  "cancellable env future =
     then_do (checkpoint env) (\<lambda>_.
     then_do future (\<lambda>r.
     case r of None \<Rightarrow> raise CancelledLocally | Some a \<Rightarrow> ret a))"

text \<open>The envelope is built from the state and handed to the observer; a failure is remembered.\<close>

definition deliver :: "('p, 't, 'w) run_env \<Rightarrow> RunEvent \<Rightarrow> ('t, 'w, unit) run" where
  "deliver env event =
     then_do (world_op (run_new_v4 env)) (\<lambda>event_id.
     then_do (read (\<lambda>st. \<lparr>re_schema_version = 2, re_sequence = st_sequence st, re_event_id = event_id,
        re_run_id = st_run_id st, re_turn_id = st_turn_id st, re_session_id = st_session_id st,
        re_request_id = st_request_id st, re_event = event\<rparr>)) (\<lambda>envelope.
     then_do (world_op (run_observe_event env envelope)) (\<lambda>r.
     case r of
       Inl e \<Rightarrow> then_do (update (\<lambda>st. st\<lparr>st_sink_error := Some e\<rparr>)) (\<lambda>_. raise (failed ''event_sink''))
     | Inr _ \<Rightarrow> ret ())))"

definition send :: "('p, 't, 'w) run_env \<Rightarrow> RunEvent \<Rightarrow> ('t, 'w, unit) run" where
  "send env event =
     then_do (read st_sink_error) (\<lambda>err.
     then_do (fail_if (err \<noteq> None) (failed ''event_sink'')) (\<lambda>_.
     then_do (increment st_sequence (\<lambda>c st. st\<lparr>st_sequence := c\<rparr>)) (\<lambda>_.
     deliver env event)))"

section \<open>Collecting a response\<close>

definition observe_envelope :: "'u uuid_crate \<Rightarrow> str \<Rightarrow> EventEnvelope \<Rightarrow> ('t, 'w, unit) run" where
  "observe_envelope uu provider envelope =
     (\<lambda>st. case observe uu envelope (the (st_session_id st)) provider (the (st_request_id st))
                 (st_collector st, st_provider_sequence st) of
        (r, (c, s)) \<Rightarrow> (r, st\<lparr>st_collector := c, st_provider_sequence := s\<rparr>))"

text \<open>One iteration of \<open>collect_response\<close>: receive and check an event and note what it ends, then pass it on.
  The iteration's result is \<open>Some\<close> when the loop returns \<open>Ok\<close>.\<close>

definition collect_event ::
    "'u uuid_crate \<Rightarrow> ('p, 't, 'w) run_env \<Rightarrow> str \<Rightarrow> ('t, 'w, EventEnvelope \<times> (RunOutcome + unit) option) run" where
  "collect_event uu env provider =
     then_do (checkpoint env) (\<lambda>_.
     then_do (cancellable env (world_op (run_next_event env))) (\<lambda>next.
     then_do (from_result (ok_or (failed ''provider_eof'') next)) (\<lambda>event.
     then_do (observe_envelope uu provider event) (\<lambda>_.
     case env_event event of
       ResponseFinished response \<Rightarrow>
         then_do (update (\<lambda>st. (on_summary (last_upstream_outcome_update (\<lambda>_. Some TerminalReceived)) st)
             \<lparr>st_last_response := Some response\<rparr>)) (\<lambda>_.
         ret (event, Some (Ok ())))
     | RequestFailed _ _ upstream \<Rightarrow>
         then_do (update (on_summary (last_upstream_outcome_update (\<lambda>_. Some upstream)))) (\<lambda>_.
         ret (event, Some (Err (failed ''provider_request_failed''))))
     | _ \<Rightarrow> ret (event, None)))))"

definition collect_step :: "'u uuid_crate \<Rightarrow> ('p, 't, 'w) run_env \<Rightarrow> str \<Rightarrow> ('t, 'w, unit option) run" where
  "collect_step uu env provider =
     then_do (collect_event uu env provider) (\<lambda>(event, terminal).
     then_do (send env (ProviderEventReceived event)) (\<lambda>_.
     case terminal of
       None \<Rightarrow> ret None
     | Some result \<Rightarrow> then_do (from_result result) (\<lambda>u. ret (Some u))))"

section \<open>Every program only moves the sequence forward\<close>

text \<open>The relation behind the termination of the two loops: a run never lowers its event sequence number.\<close>

definition sequence_grows :: "('t, 'w) Run \<Rightarrow> ('t, 'w) Run \<Rightarrow> bool" where
  "sequence_grows st st' \<longleftrightarrow> unat (st_sequence st) \<le> unat (st_sequence st')"

interpretation seq: step_relation sequence_grows
  by unfold_locales (auto simp: sequence_grows_def)

lemma seq_same: "(\<And>s. st_sequence (f s) = st_sequence s) \<Longrightarrow> seq.kept (update f)"
  by (rule seq.kept_update) (simp add: sequence_grows_def)

lemma seq_world_op: "seq.kept (world_op f)"
  by (rule seq.keptI) (auto simp: world_op_def sequence_grows_def split: prod.splits)

lemma seq_increment: "(\<And>c s. st_sequence (store c s) = st_sequence s) \<Longrightarrow> seq.kept (increment counter store)"
  unfolding increment_def
  by (intro seq.kept_rules) (auto split: option.split intro: seq.kept_raise seq_same)

lemma seq_increment_sequence: "seq.kept (increment st_sequence (\<lambda>c st. st\<lparr>st_sequence := c\<rparr>))"
proof (rule seq.keptI)
  fix s s' :: "('t, 'w) Run" and r
  assume "increment st_sequence (\<lambda>c st. st\<lparr>st_sequence := c\<rparr>) s = (r, s')"
  then show "sequence_grows s s'"
    by (auto simp: increment_def prog_defs sequence_grows_def checked_add_u64_Some split: option.splits)
qed

lemma seq_checkpoint: "seq.kept (checkpoint env)"
  unfolding checkpoint_def by (intro seq.kept_rules seq_world_op)

lemma seq_cancellable: "seq.kept m \<Longrightarrow> seq.kept (cancellable env m)"
  unfolding cancellable_def
  by (intro seq.kept_rules seq_checkpoint) (auto split: option.split intro: seq.kept_rules)

lemma seq_deliver: "seq.kept (deliver env event)"
  unfolding deliver_def
  by (intro seq.kept_rules seq_world_op) (auto split: sum.split intro!: seq.kept_rules seq_same)

lemma seq_send: "seq.kept (send env event)"
  unfolding send_def by (intro seq.kept_rules seq_deliver seq_increment_sequence)

lemma seq_observe: "seq.kept (observe_envelope uu provider envelope)"
  by (rule seq.keptI) (auto simp: observe_envelope_def sequence_grows_def split: prod.splits)

lemma increment_Ok:
  "increment counter store s = (Ok u, s') \<longleftrightarrow> (\<exists>c. unat c = unat (counter s) + 1 \<and> s' = store c s)"
proof (cases "checked_add_u64 (counter s) 1")
  case None
  then have "unat c \<noteq> unat (counter s) + 1" for c :: u64
    using checked_add_u64_Some [of "counter s" 1 c] by auto
  then show ?thesis using None by (simp add: increment_def prog_defs)
next
  case (Some c)
  then have "unat c = unat (counter s) + 1" by (simp add: checked_add_u64_Some)
  moreover have "unat c' = unat (counter s) + 1 \<longleftrightarrow> c' = c" for c' :: u64
    using calculation by (metis word_unat_eq_iff)
  ultimately show ?thesis using Some by (auto simp: increment_def prog_defs)
qed

lemma send_Ok: "send env event st = (Ok (), st') \<Longrightarrow> unat (st_sequence st) < unat (st_sequence st')"
proof -
  assume "send env event st = (Ok (), st')"
  then obtain st1 where i: "increment st_sequence (\<lambda>c st. st\<lparr>st_sequence := c\<rparr>) st = (Ok (), st1)"
    and d: "deliver env event st1 = (Ok (), st')"
    by (auto simp: send_def then_do_Ok read_def fail_if_def ret_def raise_def split: if_splits)
  from seq.keptD [OF seq_deliver d] i show ?thesis by (auto simp: increment_Ok sequence_grows_def)
qed

lemma seq_collect_event: "seq.kept (collect_event uu env provider)"
  unfolding collect_event_def
  by (intro seq.kept_rules seq_checkpoint seq_cancellable seq_world_op seq_observe)
    (auto split: ProviderEvent.split intro!: seq.kept_rules seq_same)

lemma collect_step_grows:
  "collect_step uu env provider st = (Ok r, st') \<Longrightarrow> unat (st_sequence st) < unat (st_sequence st')"
proof -
  assume "collect_step uu env provider st = (Ok r, st')"
  then obtain p st1 st2 where "collect_event uu env provider st = (Ok p, st1)"
    "send env (ProviderEventReceived (fst p)) st1 = (Ok (), st2)" "st' = st2"
    by (auto simp: collect_step_def then_do_Ok from_result_def ret_def split: prod.splits option.splits)
  then show ?thesis
    using seq.keptD [OF seq_collect_event] send_Ok by (fastforce simp: sequence_grows_def)
qed

lemma sequence_measure:
  "unat (st_sequence st) < unat (st_sequence st') \<Longrightarrow> 2 ^ 64 - unat (st_sequence st') < 2 ^ 64 - unat (st_sequence st)"
  using unat_u64_bound [of "st_sequence st'"] by linarith

function collect_response :: "'u uuid_crate \<Rightarrow> ('p, 't, 'w) run_env \<Rightarrow> str \<Rightarrow> ('t, 'w, unit) run" where
  "collect_response uu env provider st =
     (case collect_step uu env provider st of
        (Inl e, st') \<Rightarrow> (Err e, st')
      | (Inr None, st') \<Rightarrow> collect_response uu env provider st'
      | (Inr (Some u), st') \<Rightarrow> (Ok u, st'))"
  by pat_completeness auto
termination
  by (relation "measure (\<lambda>(uu, env, provider, st). 2 ^ 64 - unat (st_sequence st))")
    (simp, simp only: in_measure prod.case, rule sequence_measure, metis collect_step_grows)

declare collect_response.simps [simp del]

section \<open>Tools within a run\<close>

definition tool_event :: "('p, 't, 'w) run_env \<Rightarrow> ToolExecutionEvent \<Rightarrow> ('t, 'w, unit) run" where
  "tool_event env event =
     then_do
       (case event of
          ToolExecutionStarted _ _ \<Rightarrow>
            increment (\<lambda>st. new_tool_dispatches (st_summary st)) (\<lambda>c. on_summary (new_tool_dispatches_update (\<lambda>_. c)))
        | ToolResultReused _ _ \<Rightarrow>
            increment (\<lambda>st. reused_results (st_summary st)) (\<lambda>c. on_summary (reused_results_update (\<lambda>_. c)))
        | ToolExecutionFinished _ _ _ \<Rightarrow> ret ()) (\<lambda>_.
     send env (ToolEvent event))"

definition tool_result :: "('p, 't, 'w) run_env \<Rightarrow> str \<Rightarrow> str \<Rightarrow> bool \<Rightarrow> ('t, 'w, unit) run" where
  "tool_result env i output is_error =
     then_do (read st_sink_error) (\<lambda>err.
     then_do (fail_if (err \<noteq> None) (failed ''event_sink'')) (\<lambda>_.
     then_do (read (\<lambda>st. the (st_request_id st))) (\<lambda>request.
     then_do (world_op (run_observe_tool_result env request i output is_error)) (\<lambda>r.
     case r of
       Inl e \<Rightarrow> then_do (update (\<lambda>st. st\<lparr>st_sink_error := Some e\<rparr>)) (\<lambda>_. raise (failed ''event_sink''))
     | Inr _ \<Rightarrow> ret ()))))"

definition tool_environment :: "('p, 't, 'w) run_env \<Rightarrow> ('t, ('t, 'w) Run, RunOutcome) tool_env" where
  "tool_environment env =
     \<lparr>te_checkpoint = checkpoint env,
      te_event = tool_event env,
      te_result = tool_result env,
      te_run = (\<lambda>body arguments. cancellable env (world_op (run_execute env body arguments))),
      te_from = (\<lambda>_. failed ''tool_execution'')\<rparr>"

definition count_prepared :: "('t, 'w, unit) run" where
  "count_prepared =
     increment (\<lambda>st. tool_results_prepared (st_summary st)) (\<lambda>c. on_summary (tool_results_prepared_update (\<lambda>_. c)))"

text \<open>The batch borrows the scope: whatever it cached stays there, also when it fails.\<close>

definition run_batch :: "crates \<Rightarrow> ('p, 't, 'w) run_env \<Rightarrow> 't prepared list \<Rightarrow> ('t, 'w, InputItem list) run" where
  "run_batch cr env calls =
     (\<lambda>st. case batch_loop cr (tool_environment env) count_prepared
                 \<lparr>batch_calls = calls, batch_results = reg_results (st_scope st), batch_state = st\<rparr> of
        (r, b) \<Rightarrow> (r, (batch_state b)\<lparr>st_scope := (st_scope st)\<lparr>reg_results := batch_results b\<rparr>\<rparr>))"

definition prepare_tools :: "crates \<Rightarrow> ('p, 't, 'w) run_env \<Rightarrow> ('t, 'w, InputItem list option) run" where
  "prepare_tools cr env =
     then_do (read (\<lambda>st. the (st_last_response st))) (\<lambda>response.
     then_do (from_result
        (case response_outcome response of
           Completed \<Rightarrow> Ok ()
         | Incomplete _ \<Rightarrow> Err (failed ''model_incomplete'')
         | Failed \<Rightarrow> Err (failed ''model_failed'')
         | CancelledUpstream \<Rightarrow> Err (failed ''model_cancelled''))) (\<lambda>_.
     then_do (fail_if (list_ex (\<lambda>i. \<not> supported_kind (item_kind i)) (response_output response))
        (failed ''unsupported_output'')) (\<lambda>_.
     if \<not> list_ex (\<lambda>i. item_kind i = FunctionCallKind) (response_output response) then ret None
     else
       then_do (checkpoint env) (\<lambda>_.
       then_do (read (\<lambda>st. preflight cr (st_scope st) response)) (\<lambda>prepared.
       then_do (from_result (map_err (\<lambda>_. failed ''tool_preflight'') prepared)) (\<lambda>calls.
       then_do (checkpoint env) (\<lambda>_.
       then_do (run_batch cr env calls) (\<lambda>results.
       then_do (checkpoint env) (\<lambda>_.
       then_do (from_result (map_err (\<lambda>_. failed ''tool_result_input'') (validate_input cr results))) (\<lambda>_.
       ret (Some results)))))))))))"

lemma seq_tool_event: "seq.kept (tool_event env event)"
  unfolding tool_event_def
  by (intro seq.kept_then seq_send)
    (auto split: ToolExecutionEvent.split intro!: seq.kept_ret seq_increment)

lemma seq_tool_result: "seq.kept (tool_result env i output is_error)"
  unfolding tool_result_def
  by (intro seq.kept_rules seq_world_op) (auto split: sum.split intro!: seq.kept_rules seq_same)

interpretation tool_seq: observed_relation sequence_grows "tool_environment env" for env
  by unfold_locales
    (simp_all add: tool_environment_def seq_checkpoint seq_tool_event seq_tool_result seq_cancellable seq_world_op)

lemma seq_count_prepared: "seq.kept count_prepared"
  unfolding count_prepared_def by (rule seq_increment) simp

lemma seq_run_batch: "seq.kept (run_batch cr env calls)"
  by (rule seq.keptI)
    (auto simp: run_batch_def sequence_grows_def split: prod.splits
      dest!: tool_seq.batch_loop_kept [OF seq_count_prepared])

section \<open>Turns\<close>

definition request_model :: "('p, 't, 'w) run_env \<Rightarrow> InputItem list \<Rightarrow> ('t, 'w, str) run" where
  "request_model env input =
     cancellable env
       (then_do (increment (\<lambda>st. model_requests_attempted (st_summary st))
           (\<lambda>c. on_summary (model_requests_attempted_update (\<lambda>_. c)))) (\<lambda>_.
        then_do (update (on_summary (last_upstream_outcome_update (\<lambda>_. Some UnknownUpstream)))) (\<lambda>_.
        then_do (world_op (run_generate env input)) (\<lambda>r.
        case r of
          None \<Rightarrow> ret None
        | Some (Inl _) \<Rightarrow>
            then_do (update (on_summary (last_upstream_outcome_update (\<lambda>_. Some NotSubmitted)))) (\<lambda>_.
            raise (failed ''generate_rejected''))
        | Some (Inr receipt) \<Rightarrow> ret (Some receipt)))))"

text \<open>The inner block of a turn: after the turn is announced, one model request, its response and its tools.\<close>

definition turn_rest ::
    "'u uuid_crate \<Rightarrow> crates \<Rightarrow> ('p, 't, 'w) run_env \<Rightarrow> str \<Rightarrow> InputItem list \<Rightarrow> ('t, 'w, InputItem list option) run" where
  "turn_rest uu cr env provider input =
     then_do (checkpoint env) (\<lambda>_.
     then_do (request_model env input) (\<lambda>receipt.
     then_do (fail_if (\<not> is_canonical_uuid uu receipt) (failed ''provider_correlation'')) (\<lambda>_.
     then_do (increment (\<lambda>st. model_requests_admitted (st_summary st))
        (\<lambda>c. on_summary (model_requests_admitted_update (\<lambda>_. c)))) (\<lambda>_.
     then_do (update (\<lambda>st. (on_summary (last_request_id_update (\<lambda>_. Some receipt)) st)\<lparr>st_request_id := Some receipt\<rparr>)) (\<lambda>_.
     then_do (collect_response uu env provider) (\<lambda>_.
     prepare_tools cr env))))))"

definition turn_body ::
    "'u uuid_crate \<Rightarrow> crates \<Rightarrow> ('p, 't, 'w) run_env \<Rightarrow> str \<Rightarrow> InputItem list \<Rightarrow> ('t, 'w, InputItem list option) run" where
  "turn_body uu cr env provider input =
     then_do (read (\<lambda>st. TurnStarted (turns_started (st_summary st)))) (\<lambda>event.
     then_do (send env event) (\<lambda>_.
     turn_rest uu cr env provider input))"

fun turn_outcome :: "RunOutcome + InputItem list option \<Rightarrow> TurnOutcome" where
  "turn_outcome (Inr (Some _)) = ToolsPrepared"
| "turn_outcome (Inr None) = ModelCompleted"
| "turn_outcome (Inl reason) = Stopped reason"

definition finish_turn :: "('p, 't, 'w) run_env \<Rightarrow> RunOutcome + InputItem list option \<Rightarrow> ('t, 'w, unit) run" where
  "finish_turn env turn =
     then_do (read st_sink_error) (\<lambda>err.
     if err \<noteq> None then ret ()
     else
       then_do (increment (\<lambda>st. turns_finished (st_summary st)) (\<lambda>c. on_summary (turns_finished_update (\<lambda>_. c)))) (\<lambda>_.
       then_do (read (\<lambda>st. TurnFinished (turns_started (st_summary st)) (col_response_id (st_collector st))
           (turn_outcome turn) (last_upstream_outcome (st_summary st)))) (\<lambda>event.
       send env event)))"

text \<open>One iteration of \<open>drive\<close>; \<open>None\<close> means the run is complete, \<open>Some\<close> the input of the next turn.\<close>

definition begin_turn :: "('p, 't, 'w) run_env \<Rightarrow> ('t, 'w, unit) run" where
  "begin_turn env =
     then_do (checkpoint env) (\<lambda>_.
     then_do (world_op (run_new_v4 env)) (\<lambda>turn_id.
     then_do (update (\<lambda>st. st\<lparr>st_turn_id := Some turn_id, st_request_id := None\<rparr>)) (\<lambda>_.
     then_do (increment (\<lambda>st. turns_started (st_summary st)) (\<lambda>c. on_summary (turns_started_update (\<lambda>_. c)))) (\<lambda>_.
     update (\<lambda>st. (on_summary (last_upstream_outcome_update (\<lambda>_. Some NotSubmitted)) st)
        \<lparr>st_collector := Collector_default\<rparr>)))))"

definition drive_turn ::
    "'u uuid_crate \<Rightarrow> crates \<Rightarrow> ('p, 't, 'w) run_env \<Rightarrow> str \<Rightarrow> InputItem list \<Rightarrow> ('t, 'w, InputItem list option) run" where
  "drive_turn uu cr env provider input =
     then_do (begin_turn env) (\<lambda>_.
     then_do (attempt (turn_body uu cr env provider input)) (\<lambda>turn.
     then_do (finish_turn env turn) (\<lambda>_.
     from_result turn)))"

section \<open>Relations kept by a turn\<close>

text \<open>What a relation on run states has to keep so that a whole turn after its announcement keeps it: the
  cancellation token, the model request, the controller's own bookkeeping, one collected event and
  one batch of tools.\<close>

definition same_but_locals :: "('t, 'w) Run \<Rightarrow> ('t, 'w) Run \<Rightarrow> bool" where
  "same_but_locals st st' \<longleftrightarrow>
     st_world st' = st_world st \<and> st_sequence st' = st_sequence st \<and> st_run_id st' = st_run_id st \<and>
     st_session_id st' = st_session_id st \<and> st_turn_id st' = st_turn_id st \<and> st_sink_error st' = st_sink_error st \<and>
     st_last_response st' = st_last_response st \<and> st_scope st' = st_scope st \<and> st_collector st' = st_collector st \<and>
     st_provider_sequence st' = st_provider_sequence st \<and> st_guard st' = st_guard st \<and>
     turns_started (st_summary st') = turns_started (st_summary st) \<and>
     turns_finished (st_summary st') = turns_finished (st_summary st)"

locale control_relation = step_relation R for R :: "('t, 'w) Run \<Rightarrow> ('t, 'w) Run \<Rightarrow> bool" +
  fixes env :: "('p, 't, 'w) run_env"
  assumes cancelled: "R st (st\<lparr>st_world := snd (run_is_cancelled env (st_world st))\<rparr>)"
    and locals: "same_but_locals st st' \<Longrightarrow> R st st'"
begin

lemma kept_world_op:
  "(\<And>st. R st (st\<lparr>st_world := snd (f (st_world st))\<rparr>)) \<Longrightarrow> kept (world_op f)"
  by (simp add: kept_def world_op_def case_prod_beta)

lemma kept_checkpoint: "kept (checkpoint env)"
  unfolding checkpoint_def by (intro kept_then kept_world_op kept_fail_if cancelled)

lemma kept_cancellable: "kept m \<Longrightarrow> kept (cancellable env m)"
  unfolding cancellable_def
  by (intro kept_rules kept_checkpoint) (auto split: option.split intro: kept_rules)

lemma kept_increment:
  "(\<And>c s. same_but_locals s (store c s)) \<Longrightarrow> kept (increment counter store)"
  unfolding increment_def
  by (intro kept_rules) (auto split: option.split intro!: kept_raise kept_update locals)

lemma kept_locals: "(\<And>s. same_but_locals s (f s)) \<Longrightarrow> kept (update f)"
  by (intro kept_update locals)

lemma kept_count_prepared: "kept count_prepared"
  unfolding count_prepared_def by (rule kept_increment) (simp add: same_but_locals_def)

end

locale run_relation = control_relation R env
  for R :: "('t, 'w) Run \<Rightarrow> ('t, 'w) Run \<Rightarrow> bool" and env :: "('p, 't, 'w) run_env" +
  fixes uu :: "'u uuid_crate" and cr :: crates and provider :: str
  assumes generate: "R st (st\<lparr>st_world := snd (run_generate env input (st_world st))\<rparr>)"
    and collect: "kept (collect_step uu env provider)"
    and batch: "kept (run_batch cr env calls)"
begin

lemma kept_generate: "kept (world_op (run_generate env input))"
  by (intro kept_world_op generate)

lemma kept_request_model: "kept (request_model env input)"
  unfolding request_model_def
  by (intro kept_cancellable kept_then kept_generate kept_increment kept_locals)
    (auto simp: same_but_locals_def split: option.split sum.split intro!: kept_rules kept_locals)

lemma collect_response_kept: "collect_response uu env provider st = (r, st') \<Longrightarrow> R st st'"
proof (induction "2 ^ 64 - unat (st_sequence st)" arbitrary: st r st' rule: less_induct)
  case less
  obtain x st1 where s: "collect_step uu env provider st = (x, st1)" by fastforce
  note g = keptD [OF collect s]
  show ?case
  proof (cases "x = Ok None")
    case True
    have "2 ^ 64 - unat (st_sequence st1) < 2 ^ 64 - unat (st_sequence st)"
      using collect_step_grows s True by (intro sequence_measure) blast
    moreover have "collect_response uu env provider st1 = (r, st')"
      using less.prems s True by (subst (asm) collect_response.simps) simp
    ultimately show ?thesis using less.hyps g trans by blast
  next
    case False
    with less.prems s g show ?thesis
      by (subst (asm) collect_response.simps) (auto split: sum.splits option.splits)
  qed
qed

lemma kept_collect_response: "kept (collect_response uu env provider)"
  by (rule keptI) (rule collect_response_kept)

lemma kept_prepare_tools: "kept (prepare_tools cr env)"
  unfolding prepare_tools_def by (intro kept_rules kept_checkpoint batch)

lemma kept_turn_rest: "kept (turn_rest uu cr env provider input)"
  unfolding turn_rest_def
  by (intro kept_then kept_fail_if kept_checkpoint kept_request_model kept_increment kept_locals
      kept_collect_response kept_prepare_tools) (auto simp: same_but_locals_def)

end

lemma seq_collect_step: "seq.kept (collect_step uu env provider)"
  unfolding collect_step_def
  by (intro seq.kept_then seq_collect_event)
    (auto split: option.split intro!: seq.kept_rules seq_send)

interpretation seq_run: run_relation sequence_grows env uu cr provider for env uu cr provider
  by unfold_locales (auto simp: sequence_grows_def same_but_locals_def seq_collect_step seq_run_batch)

lemma turn_body_grows:
  "turn_body uu cr env provider input st = (Ok r, st') \<Longrightarrow> unat (st_sequence st) < unat (st_sequence st')"
proof -
  assume "turn_body uu cr env provider input st = (Ok r, st')"
  then obtain st1 where "send env (TurnStarted (turns_started (st_summary st))) st = (Ok (), st1)"
    "turn_rest uu cr env provider input st1 = (Ok r, st')"
    by (auto simp: turn_body_def then_do_Ok read_def)
  then show ?thesis
    using seq.keptD [OF seq_run.kept_turn_rest] send_Ok unfolding sequence_grows_def by (meson less_le_trans)
qed

lemma seq_begin_turn: "seq.kept (begin_turn env)"
  unfolding begin_turn_def
  by (intro seq.kept_then seq_checkpoint seq_world_op seq_increment seq_same) simp_all

lemma seq_finish_turn: "seq.kept (finish_turn env turn)"
  unfolding finish_turn_def
  by (intro seq.kept_rules seq_increment seq_send) simp

lemma drive_turn_grows:
  "drive_turn uu cr env provider input st = (Ok r, st') \<Longrightarrow> unat (st_sequence st) < unat (st_sequence st')"
proof -
  assume "drive_turn uu cr env provider input st = (Ok r, st')"
  then obtain st1 st2 where b: "begin_turn env st = (Ok (), st1)"
    and t: "turn_body uu cr env provider input st1 = (Ok r, st2)" and f: "finish_turn env (Ok r) st2 = (Ok (), st')"
    by (auto simp: drive_turn_def then_do_Ok attempt_iff from_result_def)
  show ?thesis
    using seq.keptD [OF seq_begin_turn b] turn_body_grows [OF t] seq.keptD [OF seq_finish_turn f]
    unfolding sequence_grows_def by linarith
qed

function drive ::
    "'u uuid_crate \<Rightarrow> crates \<Rightarrow> ('p, 't, 'w) run_env \<Rightarrow> str \<Rightarrow> InputItem list \<Rightarrow> ('t, 'w, unit) run" where
  "drive uu cr env provider input st =
     (case drive_turn uu cr env provider input st of
        (Inl e, st') \<Rightarrow> (Err e, st')
      | (Inr None, st') \<Rightarrow> (Ok (), st')
      | (Inr (Some results), st') \<Rightarrow> drive uu cr env provider results st')"
  by pat_completeness auto
termination
  by (relation "measure (\<lambda>(uu, cr, env, provider, input, st). 2 ^ 64 - unat (st_sequence st))")
    (simp, simp only: in_measure prod.case, rule sequence_measure, metis drive_turn_grows)

declare drive.simps [simp del]

text \<open>The same for a whole sequence of turns: a relation that also survives the announcement of turns and the
  bookkeeping between them is kept by \<open>drive\<close>.\<close>

definition same_but_turn :: "('t, 'w) Run \<Rightarrow> ('t, 'w) Run \<Rightarrow> bool" where
  "same_but_turn st st' \<longleftrightarrow>
     st_world st' = st_world st \<and> st_sequence st' = st_sequence st \<and> st_run_id st' = st_run_id st \<and>
     st_session_id st' = st_session_id st \<and> st_sink_error st' = st_sink_error st \<and>
     st_last_response st' = st_last_response st \<and> st_scope st' = st_scope st \<and>
     st_provider_sequence st' = st_provider_sequence st \<and> st_guard st' = st_guard st"

locale drive_relation = run_relation R env uu cr provider
  for R :: "('t, 'w) Run \<Rightarrow> ('t, 'w) Run \<Rightarrow> bool" and env :: "('p, 't, 'w) run_env" and uu :: "'u uuid_crate"
    and cr :: crates and provider :: str +
  assumes fresh: "R st (st\<lparr>st_world := snd (run_new_v4 env (st_world st))\<rparr>)"
    and turn_locals: "same_but_turn st st' \<Longrightarrow> R st st'"
    and started: "kept (send env (TurnStarted k))"
    and finished: "kept (send env (TurnFinished k i out up))"
begin

lemma kept_turn_locals: "(\<And>s. same_but_turn s (f s)) \<Longrightarrow> kept (update f)"
  by (intro kept_update turn_locals)

lemma kept_turn_increment: "(\<And>c s. same_but_turn s (store c s)) \<Longrightarrow> kept (increment counter store)"
  unfolding increment_def
  by (intro kept_rules) (auto split: option.split intro!: kept_raise kept_update turn_locals)

lemma kept_begin_turn: "kept (begin_turn env)"
  unfolding begin_turn_def
  by (intro kept_then kept_checkpoint kept_world_op fresh kept_turn_locals kept_turn_increment)
    (auto simp: same_but_turn_def)

lemma kept_turn_body: "kept (turn_body uu cr env provider input)"
proof (rule keptI)
  fix st r st'
  assume "turn_body uu cr env provider input st = (r, st')"
  then have "then_do (send env (TurnStarted (turns_started (st_summary st)))) (\<lambda>_. turn_rest uu cr env provider input) st = (r, st')"
    by (simp add: turn_body_def then_do_def read_def)
  then show "R st st'" by (rule keptD [OF kept_then [OF started kept_turn_rest]])
qed

lemma kept_finish_turn: "kept (finish_turn env turn)"
proof -
  have ev: "kept (then_do (read (\<lambda>st. TurnFinished (turns_started (st_summary st)) (col_response_id (st_collector st))
           (turn_outcome turn) (last_upstream_outcome (st_summary st)))) (\<lambda>event. send env event))"
  proof (rule keptI)
    fix st r st'
    assume "then_do (read (\<lambda>st. TurnFinished (turns_started (st_summary st)) (col_response_id (st_collector st))
           (turn_outcome turn) (last_upstream_outcome (st_summary st)))) (\<lambda>event. send env event) st = (r, st')"
    then show "R st st'" by (auto simp: then_do_def read_def dest: keptD [OF finished])
  qed
  show ?thesis
    unfolding finish_turn_def
    by (rule kept_then [OF kept_read], rule kept_if, rule kept_ret, rule kept_then [OF kept_turn_increment ev])
      (simp add: same_but_turn_def)
qed

lemma kept_drive_turn: "kept (drive_turn uu cr env provider input)"
  unfolding drive_turn_def
  by (intro kept_then kept_begin_turn kept_attempt kept_turn_body kept_finish_turn kept_from_result)

lemma drive_kept: "drive uu cr env provider input st = (r, st') \<Longrightarrow> R st st'"
proof (induction "2 ^ 64 - unat (st_sequence st)" arbitrary: input st r st' rule: less_induct)
  case less
  obtain x st1 where d: "drive_turn uu cr env provider input st = (x, st1)" by fastforce
  note k = keptD [OF kept_drive_turn d]
  show ?case
  proof (cases "\<exists>rs. x = Ok (Some rs)")
    case True
    then obtain rs where x: "x = Ok (Some rs)" by blast
    have "2 ^ 64 - unat (st_sequence st1) < 2 ^ 64 - unat (st_sequence st)"
      using drive_turn_grows d x by (intro sequence_measure) blast
    moreover have "drive uu cr env provider rs st1 = (r, st')"
      using less.prems d x by (subst (asm) drive.simps) simp
    ultimately show ?thesis using less.hyps k trans by blast
  next
    case False
    then show ?thesis using less.prems d k
      by (subst (asm) drive.simps) (auto split: sum.splits option.splits)
  qed
qed

lemma kept_drive: "kept (drive uu cr env provider input)"
  by (rule keptI) (rule drive_kept)

end

interpretation seq_drive: drive_relation sequence_grows env uu cr provider for env uu cr provider
  by unfold_locales (auto simp: sequence_grows_def same_but_turn_def seq_send)

section \<open>Admission and the whole run\<close>

record RunRequest =
  req_provider_id :: str
  req_options :: SessionOptions
  req_prompt :: str

record 't AdmittedRun =
  adm_provider_id :: str
  adm_options :: SessionOptions
  adm_input :: "InputItem list"
  adm_scope :: "'t ToolRegistry"
  adm_replay :: "ConversationReplay option"

definition admit_with_snapshot ::
    "crates \<Rightarrow> 'p Gateway \<Rightarrow> RunRequest \<Rightarrow> 't ToolRegistry \<Rightarrow> bool \<Rightarrow> ToolDefinition list option \<Rightarrow> GatewayError + 't AdmittedRun" where
  "admit_with_snapshot cr g request tools cancelled recorded =
     and_then (reject_if (opt_tools (req_options request) \<noteq> []) (InvalidRequest ''caller tools must be empty'')) (\<lambda>_.
     let input = [User (req_prompt request)] in
     and_then (validate_input cr input) (\<lambda>_.
     let scope = fresh_scope tools;
         options = (req_options request)\<lparr>opt_tools := definitions scope\<rparr>
     in
     and_then (case recorded of None \<Rightarrow> Ok ()
        | Some rec \<Rightarrow> reject_if (\<not> Values_eq (map ToolDefinition_value (opt_tools options)) (map ToolDefinition_value rec))
            (InvalidRequest ''recorded tool definitions do not match registry'')) (\<lambda>_.
     and_then (SessionOptions_validate cr options) (\<lambda>_.
     and_then (Gateway_capabilities g (req_provider_id request)) (\<lambda>capabilities.
     let transport = (case opt_transport options of WebSocket \<Rightarrow> cap_websocket capabilities | Sse \<Rightarrow> cap_sse capabilities) in
     and_then (reject_if (\<not> implemented transport) (UnsupportedFeature ''transport'')) (\<lambda>_.
     and_then (reject_if (opt_tools options \<noteq> [] \<and> \<not> implemented (cap_function_tools capabilities))
        (UnsupportedFeature ''function_tools'')) (\<lambda>_.
     and_then (reject_if (opt_tools options \<noteq> [] \<and> \<not> implemented (cap_continuation capabilities))
        (UnsupportedFeature ''continuation'')) (\<lambda>_.
     and_then (require_features capabilities (opt_required_features options)) (\<lambda>_.
     and_then (reject_if cancelled (InvalidRequest ''run pre-cancelled'')) (\<lambda>_.
     Ok \<lparr>adm_provider_id = req_provider_id request, adm_options = options, adm_input = input, adm_scope = scope,
         adm_replay = None\<rparr>))))))))))"

definition admit ::
    "crates \<Rightarrow> 'p Gateway \<Rightarrow> RunRequest \<Rightarrow> 't ToolRegistry \<Rightarrow> bool \<Rightarrow> GatewayError + 't AdmittedRun" where
  "admit cr g request tools cancelled = admit_with_snapshot cr g request tools cancelled None"

text \<open>The provider's own \<open>validate_replay\<close> is the parameter \<open>check\<close>.\<close>

definition Gateway_validate_replay ::
    "('p Provider \<Rightarrow> SessionOptions \<Rightarrow> ConversationReplay \<Rightarrow> InputItem list \<Rightarrow> GatewayError + unit) \<Rightarrow>
     'p Gateway \<Rightarrow> str \<Rightarrow> SessionOptions \<Rightarrow> ConversationReplay \<Rightarrow> InputItem list \<Rightarrow> GatewayError + unit" where
  "Gateway_validate_replay check g i options replay new_input =
     and_then (ok_or UnknownProvider (g i)) (\<lambda>p. check p options replay new_input)"

definition with_replay ::
    "('p Provider \<Rightarrow> SessionOptions \<Rightarrow> ConversationReplay \<Rightarrow> InputItem list \<Rightarrow> GatewayError + unit) \<Rightarrow>
     't AdmittedRun \<Rightarrow> 'p Gateway \<Rightarrow> ConversationReplay \<Rightarrow> GatewayError + 't AdmittedRun" where
  "with_replay check self g replay =
     and_then (Gateway_validate_replay check g (adm_provider_id self) (adm_options self) replay (adm_input self)) (\<lambda>_.
     Ok (self\<lparr>adm_replay := Some replay\<rparr>))"

text \<open>\<open>Gateway::open_session\<close>: its checks, then the provider's own \<open>open_session\<close>.\<close>

definition open_session ::
    "crates \<Rightarrow> ('p, 't, 'w) run_env \<Rightarrow> str \<Rightarrow> SessionOptions \<Rightarrow> 'w \<Rightarrow> (GatewayError + str) option \<times> 'w" where
  "open_session cr env provider options w =
     (case Gateway_open_checks cr (run_gateway env) provider options of
        Inl e \<Rightarrow> (Some (Err e), w)
      | Inr p \<Rightarrow> run_provider_open env p options w)"

definition restore_history ::
    "('p, 't, 'w) run_env \<Rightarrow> str \<Rightarrow> str \<Rightarrow> ConversationReplay \<Rightarrow> ('t, 'w, unit) run" where
  "restore_history env session model replay =
     then_do (world_op (run_replay_identity env)) (\<lambda>found.
     then_do (from_result (ok_or (failed ''history_identity'') found)) (\<lambda>identity.
     then_do (world_op (run_observe_provider_opened env session model identity)) (\<lambda>r.
     then_do (case r of
        Inl e \<Rightarrow> then_do (update (\<lambda>st. st\<lparr>st_sink_error := Some e\<rparr>)) (\<lambda>_. raise (failed ''event_sink''))
      | Inr _ \<Rightarrow> ret ()) (\<lambda>_.
     then_do (fail_if (cr_runs replay \<noteq> [] \<and> cr_expected_identity replay \<noteq> Some identity) (failed ''history_identity'')) (\<lambda>_.
     then_do (checkpoint env) (\<lambda>_.
     then_do (cancellable env (world_op (run_install_replay env replay))) (\<lambda>installed.
     from_result (map_err (\<lambda>_. failed ''history_restore'') installed))))))))"

definition open_and_drive ::
    "'u uuid_crate \<Rightarrow> crates \<Rightarrow> ('p, 't, 'w) run_env \<Rightarrow> 't AdmittedRun \<Rightarrow> ('t, 'w, unit) run" where
  "open_and_drive uu cr env admitted =
     then_do (checkpoint env) (\<lambda>_.
     then_do (cancellable env (world_op (open_session cr env (adm_provider_id admitted) (adm_options admitted)))) (\<lambda>opened.
     then_do (from_result (map_err (\<lambda>_. failed ''session_open'') opened)) (\<lambda>session.
     then_do (update (\<lambda>st. st\<lparr>st_guard := True\<rparr>)) (\<lambda>_.
     then_do (fail_if (adm_provider_id admitted = PROVIDER_ID \<and> \<not> is_canonical_uuid uu session)
        (failed ''provider_correlation'')) (\<lambda>_.
     then_do (update (\<lambda>st. st\<lparr>st_session_id := Some session\<rparr>)) (\<lambda>_.
     then_do (case adm_replay admitted of
        None \<Rightarrow> ret ()
      | Some replay \<Rightarrow> restore_history env session (opt_model (adm_options admitted)) replay) (\<lambda>_.
     drive uu cr env (adm_provider_id admitted) (adm_input admitted))))))))"

definition execution ::
    "'u uuid_crate \<Rightarrow> crates \<Rightarrow> ('p, 't, 'w) run_env \<Rightarrow> 't AdmittedRun \<Rightarrow> ('t, 'w, unit) run" where
  "execution uu cr env admitted =
     then_do (send env RunStarted) (\<lambda>_. open_and_drive uu cr env admitted)"

record RunResult =
  result_run_id :: str
  result_session_id :: "str option"
  result_outcome :: RunOutcome
  result_summary :: RunSummary
  result_last_response :: "ModelResponse option"
  result_events_complete :: bool
  result_sink_error :: "RunSinkError option"

definition initial_run :: "str \<Rightarrow> 't AdmittedRun \<Rightarrow> 'w \<Rightarrow> ('t, 'w) Run" where
  "initial_run run_id admitted w =
     \<lparr>st_world = w, st_sequence = 0, st_run_id = run_id, st_session_id = None, st_turn_id = None,
      st_request_id = None, st_sink_error = None, st_summary = RunSummary_default, st_last_response = None,
      st_scope = adm_scope admitted, st_collector = Collector_default, st_provider_sequence = None,
      st_guard = False\<rparr>"

definition close_guard :: "('p, 't, 'w) run_env \<Rightarrow> ('t, 'w, unit) run" where
  "close_guard env =
     then_do (read st_guard) (\<lambda>open.
     if open then then_do (world_op (run_close env)) (\<lambda>_. update (\<lambda>st. st\<lparr>st_guard := False\<rparr>)) else ret ())"

lemma close_guard_eq:
  "close_guard env st =
     (Ok (), if st_guard st then st\<lparr>st_world := snd (run_close env (st_world st)), st_guard := False\<rparr> else st)"
  by (simp add: close_guard_def then_do_def read_def world_op_def update_def ret_def case_prod_beta)

definition outcome_of :: "RunOutcome + unit \<Rightarrow> RunOutcome" where
  "outcome_of r = (case r of Inl reason \<Rightarrow> reason | Inr _ \<Rightarrow> RunCompleted)"

definition finish_run :: "('p, 't, 'w) run_env \<Rightarrow> RunOutcome \<Rightarrow> ('t, 'w, RunOutcome + unit) run" where
  "finish_run env outcome =
     then_do (close_guard env) (\<lambda>_.
     then_do (update (\<lambda>st. st\<lparr>st_turn_id := None\<rparr>)) (\<lambda>_.
     then_do (read (\<lambda>st. RunFinished outcome (st_summary st))) (\<lambda>event.
     attempt (send env event))))"

definition run_admitted ::
    "'u uuid_crate \<Rightarrow> crates \<Rightarrow> ('p, 't, 'w) run_env \<Rightarrow> 't AdmittedRun \<Rightarrow> str \<Rightarrow> 'w \<Rightarrow> RunResult \<times> 'w" where
  "run_admitted uu cr env admitted run_id w =
     (case execution uu cr env admitted (initial_run run_id admitted w) of
        (r, st) \<Rightarrow>
          (case finish_run env (outcome_of r) st of
             (sent, st') \<Rightarrow>
               (\<lparr>result_run_id = st_run_id st', result_session_id = st_session_id st', result_outcome = outcome_of r,
                 result_summary = st_summary st', result_last_response = st_last_response st',
                 result_events_complete = (sent = Ok (Ok ())), result_sink_error = st_sink_error st'\<rparr>,
                st_world st')))"

end
