(* ===== verification/Run_Trace.thy ===== *)
theory Run_Trace
  imports Run_Controller
begin

text \<open>
  What an observer sees of a run.  \<open>recording env\<close> is the environment \<open>env\<close> that also writes down every
  event handed to the observer, with whether the observer took it, and the opening, use and closing
  of the provider session.  The theorems hold for every environment and every admitted run; since
  the controller is generic in its world, the recorded run is the run.
\<close>

section \<open>Recording\<close>

datatype Action =
    Sent RunEventEnvelope bool
  | Opened
  | Requested "InputItem list"
  | Ran
  | Closed

definition quietly :: "('w \<Rightarrow> 'a \<times> 'w) \<Rightarrow> 'w \<times> Action list \<Rightarrow> 'a \<times> ('w \<times> Action list)" where
  "quietly f = (\<lambda>(w, l). case f w of (a, w') \<Rightarrow> (a, (w', l)))"

definition noting :: "('a \<Rightarrow> Action list) \<Rightarrow> ('w \<Rightarrow> 'a \<times> 'w) \<Rightarrow> 'w \<times> Action list \<Rightarrow> 'a \<times> ('w \<times> Action list)" where
  "noting note f = (\<lambda>(w, l). case f w of (a, w') \<Rightarrow> (a, (w', l @ note a)))"

fun opened_note :: "(GatewayError + str) option \<Rightarrow> Action list" where
  "opened_note (Some (Inr _)) = [Opened]"
| "opened_note _ = []"

definition recording :: "('p, 't, 'w) run_env \<Rightarrow> ('p, 't, 'w \<times> Action list) run_env" where
  "recording env =
     \<lparr>run_gateway = run_gateway env,
      run_is_cancelled = quietly (run_is_cancelled env),
      run_new_v4 = quietly (run_new_v4 env),
      run_observe_event = (\<lambda>e. noting (\<lambda>r. [Sent e (r = Ok ())]) (run_observe_event env e)),
      run_observe_tool_result = (\<lambda>q i out err. quietly (run_observe_tool_result env q i out err)),
      run_observe_provider_opened = (\<lambda>s m i. quietly (run_observe_provider_opened env s m i)),
      run_provider_open = (\<lambda>p opts. noting opened_note (run_provider_open env p opts)),
      run_replay_identity = quietly (run_replay_identity env),
      run_install_replay = (\<lambda>r. quietly (run_install_replay env r)),
      run_generate = (\<lambda>input. noting (\<lambda>_. [Requested input]) (run_generate env input)),
      run_next_event = quietly (run_next_event env),
      run_close = noting (\<lambda>_. [Closed]) (run_close env),
      run_execute = (\<lambda>t v. noting (\<lambda>_. [Ran]) (run_execute env t v))\<rparr>"

lemma recording_simps [simp]:
  "run_gateway (recording env) = run_gateway env"
  "run_is_cancelled (recording env) = quietly (run_is_cancelled env)"
  "run_new_v4 (recording env) = quietly (run_new_v4 env)"
  "run_observe_event (recording env) e = noting (\<lambda>r. [Sent e (r = Ok ())]) (run_observe_event env e)"
  "run_observe_tool_result (recording env) q i out err = quietly (run_observe_tool_result env q i out err)"
  "run_observe_provider_opened (recording env) s m ri = quietly (run_observe_provider_opened env s m ri)"
  "run_provider_open (recording env) p opts = noting opened_note (run_provider_open env p opts)"
  "run_replay_identity (recording env) = quietly (run_replay_identity env)"
  "run_install_replay (recording env) rp = quietly (run_install_replay env rp)"
  "run_generate (recording env) input = noting (\<lambda>_. [Requested input]) (run_generate env input)"
  "run_next_event (recording env) = quietly (run_next_event env)"
  "run_close (recording env) = noting (\<lambda>_. [Closed]) (run_close env)"
  "run_execute (recording env) t v = noting (\<lambda>_. [Ran]) (run_execute env t v)"
  by (simp_all add: recording_def)

fun sent_part :: "Action \<Rightarrow> (RunEventEnvelope \<times> bool) option" where
  "sent_part (Sent e ok) = Some (e, ok)"
| "sent_part _ = None"

definition sends :: "Action list \<Rightarrow> (RunEventEnvelope \<times> bool) list" where
  "sends log = List.map_filter sent_part log"

fun session_part :: "Action \<Rightarrow> bool" where
  "session_part (Sent _ _) = False"
| "session_part _ = True"

definition session_actions :: "Action list \<Rightarrow> Action list" where
  "session_actions log = filter session_part log"

abbreviation log_of :: "('t, 'w \<times> Action list) Run \<Rightarrow> Action list" where
  "log_of st \<equiv> snd (st_world st)"

abbreviation trace :: "('t, 'w \<times> Action list) Run \<Rightarrow> (RunEventEnvelope \<times> bool) list" where
  "trace st \<equiv> sends (log_of st)"

lemma sends_append [simp]: "sends (l @ m) = sends l @ sends m"
  by (simp add: sends_def List.map_filter_def)

lemma sends_simps [simp]:
  "sends [] = []" "sends [Sent e ok] = [(e, ok)]" "sends [Opened] = []" "sends [Requested i] = []"
  "sends [Ran] = []" "sends [Closed] = []" "sends (opened_note r) = []"
  by (auto simp: sends_def List.map_filter_def) (cases r rule: opened_note.cases; simp)

lemma session_actions_append [simp]: "session_actions (l @ m) = session_actions l @ session_actions m"
  by (simp add: session_actions_def)

lemma session_actions_simps [simp]:
  "session_actions [] = []" "session_actions [Sent e ok] = []" "session_actions [Opened] = [Opened]"
  "session_actions [Requested i] = [Requested i]" "session_actions [Ran] = [Ran]" "session_actions [Closed] = [Closed]"
  by (simp_all add: session_actions_def)

lemma quietly_log [simp]: "snd (snd (quietly f w)) = snd w"
  by (simp add: quietly_def case_prod_beta)

lemma noting_log [simp]: "snd (snd (noting note f w)) = snd w @ note (fst (noting note f w))"
  by (simp add: noting_def case_prod_beta)

section \<open>What sending does\<close>

text \<open>\<open>delivered event st st' ok\<close>: the observer was given the event once, as number \<open>st_sequence st'\<close>, and nothing
  else of the state that matters here changed.\<close>

definition same_rest :: "('t, 'w) Run \<Rightarrow> ('t, 'w) Run \<Rightarrow> bool" where
  "same_rest st st' \<longleftrightarrow>
     st_run_id st' = st_run_id st \<and> st_session_id st' = st_session_id st \<and> st_summary st' = st_summary st \<and>
     st_last_response st' = st_last_response st \<and> st_scope st' = st_scope st \<and> st_collector st' = st_collector st \<and>
     st_provider_sequence st' = st_provider_sequence st \<and> st_guard st' = st_guard st"

definition delivered :: "RunEvent \<Rightarrow> ('t, 'w \<times> Action list) Run \<Rightarrow> ('t, 'w \<times> Action list) Run \<Rightarrow> bool \<Rightarrow> bool" where
  "delivered event st st' ok \<longleftrightarrow>
     st_sink_error st = None \<and> unat (st_sequence st') = unat (st_sequence st) + 1 \<and>
     (st_sink_error st' = None \<longleftrightarrow> ok) \<and> same_rest st st' \<and>
     (\<exists>e. log_of st' = log_of st @ [Sent e ok] \<and> re_event e = event \<and> re_sequence e = st_sequence st' \<and>
        re_run_id e = st_run_id st)"

lemma increment_Err:
  "increment counter store s = (Err e, s') \<longleftrightarrow>
     s' = s \<and> e = failed ''counter_overflow'' \<and> unat (counter s) = 2 ^ 64 - 1"
proof -
  have "checked_add_u64 c 1 = None \<longleftrightarrow> unat c = 2 ^ 64 - 1" for c :: u64
    using unat_u64_bound [of c] by (auto simp: checked_add_u64_def)
  note n = this [of "counter s"]
  show ?thesis
  proof (cases "checked_add_u64 (counter s) 1")
    case None
    with n have "unat (counter s) = 2 ^ 64 - 1" by blast
    then show ?thesis using None unfolding increment_def by (auto simp: then_do_def read_def raise_def)
  next
    case (Some c)
    with n have "unat (counter s) \<noteq> 2 ^ 64 - 1" by simp
    then show ?thesis using Some unfolding increment_def by (auto simp: then_do_def read_def update_def)
  qed
qed

lemma deliver_recording:
  assumes "deliver (recording env) event st = (r, st')" "st_sink_error st = None"
  shows "st_sequence st' = st_sequence st \<and> (st_sink_error st' = None \<longleftrightarrow> r = Ok ()) \<and> same_rest st st' \<and>
     (\<exists>e. log_of st' = log_of st @ [Sent e (r = Ok ())] \<and> re_event e = event \<and> re_sequence e = st_sequence st \<and>
        re_run_id e = st_run_id st)"
proof -
  obtain w l where w: "st_world st = (w, l)" by fastforce
  obtain i w1 where n: "run_new_v4 env w = (i, w1)" by fastforce
  let ?e = "\<lparr>re_schema_version = 2, re_sequence = st_sequence st, re_event_id = i, re_run_id = st_run_id st,
     re_turn_id = st_turn_id st, re_session_id = st_session_id st, re_request_id = st_request_id st, re_event = event\<rparr>"
  obtain x w2 where o: "run_observe_event env ?e w1 = (x, w2)" by fastforce
  show ?thesis
  proof (cases x)
    case (Inl err)
    then have "st' = st\<lparr>st_world := (w2, l @ [Sent ?e False]), st_sink_error := Some err\<rparr>" "r \<noteq> Ok ()"
      using assms(1) w n o
      by (auto simp: deliver_def then_do_def world_op_def quietly_def noting_def read_def update_def raise_def)
    then show ?thesis using w by (intro conjI exI [of _ ?e]) (simp_all add: same_rest_def)
  next
    case (Inr u)
    then have "st' = st\<lparr>st_world := (w2, l @ [Sent ?e True])\<rparr>" "r = Ok ()"
      using assms(1) w n o
      by (auto simp: deliver_def then_do_def world_op_def quietly_def noting_def read_def ret_def)
    then show ?thesis using w assms(2) by (intro conjI exI [of _ ?e]) (simp_all add: same_rest_def)
  qed
qed

lemma send_recording:
  assumes "send (recording env) event st = (r, st')"
  shows "(st' = st \<and> r \<noteq> Ok () \<and> (st_sink_error st \<noteq> None \<or> unat (st_sequence st) = 2 ^ 64 - 1)) \<or>
     delivered event st st' (r = Ok ())"
proof (cases "st_sink_error st")
  case (Some e)
  then show ?thesis using assms by (auto simp: send_def prog_defs)
next
  case None
  obtain x st1 where i: "increment st_sequence (\<lambda>c st. st\<lparr>st_sequence := c\<rparr>) st = (x, st1)" by fastforce
  show ?thesis
  proof (cases x)
    case (Inl e)
    then show ?thesis using assms None i increment_Err [of st_sequence _ st] by (auto simp: send_def prog_defs)
  next
    case (Inr u)
    then obtain c where c: "unat c = unat (st_sequence st) + 1" "st1 = st\<lparr>st_sequence := c\<rparr>"
      using i by (auto simp: increment_Ok)
    have d: "deliver (recording env) event st1 = (r, st')"
      using assms None i Inr by (simp add: send_def then_do_def read_def fail_if_def ret_def)
    have "st_sink_error st1 = None" using None c by simp
    from deliver_recording [OF d this] show ?thesis
      using None c unfolding delivered_def same_rest_def by auto
  qed
qed

section \<open>The grammar of a run\<close>

datatype phase = Before | Between nat | Within nat | After

fun phase_step :: "phase \<Rightarrow> RunEvent \<Rightarrow> phase option" where
  "phase_step Before RunStarted = Some (Between 0)"
| "phase_step (Between n) (TurnStarted k) = (if unat k = Suc n then Some (Within (Suc n)) else None)"
| "phase_step (Within n) (ProviderEventReceived _) = Some (Within n)"
| "phase_step (Within n) (ToolEvent _) = Some (Within n)"
| "phase_step (Within n) (TurnFinished k _ _ _) = (if unat k = n then Some (Between n) else None)"
| "phase_step (Between n) (RunFinished _ _) = Some After"
| "phase_step _ _ = None"

fun phases :: "phase \<Rightarrow> RunEvent list \<Rightarrow> phase option" where
  "phases p [] = Some p"
| "phases p (e # es) = Option.bind (phase_step p e) (\<lambda>q. phases q es)"

lemma phases_append: "phases p (es @ fs) = Option.bind (phases p es) (\<lambda>q. phases q fs)"
  by (induction es arbitrary: p) (auto split: Option.bind_splits)

definition phase_is :: "phase \<Rightarrow> ('t, 'w \<times> Action list) Run \<Rightarrow> bool" where
  "phase_is ph st \<longleftrightarrow> phases Before (map (re_event \<circ> fst) (trace st)) = Some ph"

text \<open>The events so far are numbered 1, 2, ... without gap, belong to the run, and only the last one can have
  been refused.\<close>

definition numbered :: "('t, 'w \<times> Action list) Run \<Rightarrow> bool" where
  "numbered st \<longleftrightarrow>
     map (\<lambda>(e, _). unat (re_sequence e)) (trace st) = [1..<Suc (unat (st_sequence st))] \<and>
     list_all (\<lambda>(e, _). re_run_id e = st_run_id st) (trace st) \<and>
     list_all snd (butlast (trace st)) \<and> (st_sink_error st = None \<longrightarrow> list_all snd (trace st))"

definition live :: "phase \<Rightarrow> ('t, 'w \<times> Action list) Run \<Rightarrow> bool" where
  "live ph st \<longleftrightarrow> numbered st \<and> phase_is ph st \<and> st_sink_error st = None"

text \<open>No further event can be delivered: the observer failed, or the numbers are used up.\<close>

definition spent :: "('t, 'w \<times> Action list) Run \<Rightarrow> bool" where
  "spent st \<longleftrightarrow>
     numbered st \<and> (\<exists>ph. phase_is ph st \<and> (ph = After \<longrightarrow> \<not> list_all snd (trace st))) \<and>
     (st_sink_error st \<noteq> None \<or> unat (st_sequence st) = 2 ^ 64 - 1)"

definition turn_counts :: "nat \<Rightarrow> nat \<Rightarrow> ('t, 'w) Run \<Rightarrow> bool" where
  "turn_counts s f st \<longleftrightarrow> unat (turns_started (st_summary st)) = s \<and> unat (turns_finished (st_summary st)) = f"

definition between :: "nat \<Rightarrow> ('t, 'w \<times> Action list) Run \<Rightarrow> bool" where
  "between n st \<longleftrightarrow> (live (Between n) st \<and> turn_counts n n st) \<or> spent st"

definition within :: "nat \<Rightarrow> ('t, 'w \<times> Action list) Run \<Rightarrow> bool" where
  "within n st \<longleftrightarrow> (live (Within (Suc n)) st \<and> turn_counts (Suc n) n st) \<or> spent st"

lemma delivered_numbered:
  assumes "numbered st" "delivered event st st' ok"
  shows "numbered st' \<and> list_all snd (trace st) \<and>
     map (re_event \<circ> fst) (trace st') = map (re_event \<circ> fst) (trace st) @ [event] \<and>
     (list_all snd (trace st') \<longleftrightarrow> ok)"
proof -
  obtain e where t: "trace st' = trace st @ [(e, ok)]" and e: "re_event e = event" "re_sequence e = st_sequence st'"
    "re_run_id e = st_run_id st" and s: "unat (st_sequence st') = unat (st_sequence st) + 1" "st_sink_error st = None"
    "st_run_id st' = st_run_id st" "st_sink_error st' = None \<longleftrightarrow> ok"
    using assms(2) by (auto simp: delivered_def same_rest_def)
  have all: "list_all snd (trace st)" using assms(1) s by (simp add: numbered_def)
  have "map (\<lambda>(e, _). unat (re_sequence e)) (trace st') = [1..<Suc (unat (st_sequence st'))]"
    using assms(1) by (simp add: numbered_def t e s)
  moreover have "list_all (\<lambda>(e, _). re_run_id e = st_run_id st') (trace st')"
    using assms(1) by (simp add: numbered_def t e s)
  ultimately show ?thesis using all s by (simp add: numbered_def t e)
qed

lemma send_live:
  assumes "live ph st" "phase_step ph event = Some ph'" "send (recording env) event st = (r, st')"
  shows "if r = Ok () then live ph' st' \<and> same_rest st st' else spent st' \<and> (ph \<noteq> After)"
proof -
  have ph: "ph \<noteq> After" using assms(2) by (cases ph) auto
  from send_recording [OF assms(3)] show ?thesis
  proof
    assume "st' = st \<and> r \<noteq> Ok () \<and> (st_sink_error st \<noteq> None \<or> unat (st_sequence st) = 2 ^ 64 - 1)"
    then show ?thesis using assms(1) ph by (auto simp: live_def spent_def)
  next
    assume d: "delivered event st st' (r = Ok ())"
    have n: "numbered st" and p: "phase_is ph st" using assms(1) by (auto simp: live_def)
    note f = delivered_numbered [OF n d]
    have p': "phase_is ph' st'"
      using f p assms(2) by (simp add: phase_is_def phases_append)
    show ?thesis
    proof (cases "r = Ok ()")
      case True
      then show ?thesis using f p' d by (auto simp: live_def delivered_def)
    next
      case False
      then have "st_sink_error st' \<noteq> None" "\<not> list_all snd (trace st')" using d f by (auto simp: delivered_def)
      then show ?thesis using f p' ph False unfolding spent_def by (metis (mono_tags, lifting))
    qed
  qed
qed

lemma send_spent: "spent st \<Longrightarrow> send (recording env) event st = (r, st') \<Longrightarrow> st' = st \<and> r \<noteq> Ok ()"
proof -
  assume s: "spent st" and "send (recording env) event st = (r, st')"
  from send_recording [OF this(2)] show ?thesis
  proof
    assume d: "delivered event st st' (r = Ok ())"
    then have "st_sink_error st = None" "unat (st_sequence st') = unat (st_sequence st) + 1" by (auto simp: delivered_def)
    moreover have "unat (st_sequence st') < 2 ^ 64" by (rule unat_u64_bound)
    ultimately show ?thesis using s by (auto simp: spent_def)
  qed auto
qed

text \<open>A step that leaves the events, the numbering and the turn counters alone, and at most reports a failed
  observer.\<close>

definition quiet_step :: "('t, 'w \<times> Action list) Run \<Rightarrow> ('t, 'w \<times> Action list) Run \<Rightarrow> bool" where
  "quiet_step st st' \<longleftrightarrow>
     trace st' = trace st \<and> st_sequence st' = st_sequence st \<and> st_run_id st' = st_run_id st \<and>
     (st_sink_error st' = st_sink_error st \<or> st_sink_error st' \<noteq> None) \<and>
     turns_started (st_summary st') = turns_started (st_summary st) \<and>
     turns_finished (st_summary st') = turns_finished (st_summary st)"

lemma quiet_live:
  assumes "quiet_step st st'" "live ph st" "ph \<noteq> After"
  shows "live ph st' \<or> spent st'"
proof (cases "st_sink_error st' = None")
  case True
  then show ?thesis using assms by (auto simp: quiet_step_def live_def numbered_def phase_is_def)
next
  case False
  have "numbered st'" "phase_is ph st'"
    using assms False by (auto simp: quiet_step_def live_def numbered_def phase_is_def)
  then show ?thesis using False assms(3) by (auto simp: spent_def)
qed

lemma quiet_spent:
  assumes "quiet_step st st'" "spent st"
  shows "spent st'"
proof -
  have q: "trace st' = trace st" "st_sequence st' = st_sequence st" "st_run_id st' = st_run_id st"
    "st_sink_error st' = st_sink_error st \<or> st_sink_error st' \<noteq> None"
    using assms(1) by (auto simp: quiet_step_def)
  have "numbered st'" using q assms(2) by (auto simp: spent_def numbered_def)
  then show ?thesis using q assms(2) unfolding spent_def phase_is_def by metis
qed

lemma quiet_counts: "quiet_step st st' \<Longrightarrow> turn_counts s f st \<Longrightarrow> turn_counts s f st'"
  by (simp add: quiet_step_def turn_counts_def)

lemma quiet_between: "quiet_step st st' \<Longrightarrow> between n st \<Longrightarrow> between n st'"
  unfolding between_def using quiet_live [of st st' "Between n"] quiet_spent quiet_counts by blast

lemma quiet_within: "quiet_step st st' \<Longrightarrow> within n st \<Longrightarrow> within n st'"
  unfolding within_def using quiet_live [of st st' "Within (Suc n)"] quiet_spent quiet_counts by blast

section \<open>Inside a turn\<close>

definition turn_keeps :: "('t, 'w \<times> Action list) Run \<Rightarrow> ('t, 'w \<times> Action list) Run \<Rightarrow> bool" where
  "turn_keeps st st' \<longleftrightarrow> (\<forall>n. within n st \<longrightarrow> within n st')"

lemma turn_quiet: "quiet_step st st' \<Longrightarrow> turn_keeps st st'"
  unfolding turn_keeps_def using quiet_within by blast

lemma quiet_locals: "same_but_locals st st' \<Longrightarrow> quiet_step st st'"
  by (simp add: same_but_locals_def quiet_step_def)

lemma quiet_world: "sends (snd w) = trace st \<Longrightarrow> quiet_step st (st\<lparr>st_world := w\<rparr>)"
  by (simp add: quiet_step_def)

lemma turn_keeps_refl: "turn_keeps st st"
  by (simp add: turn_keeps_def)

lemma turn_keeps_trans: "turn_keeps a b \<Longrightarrow> turn_keeps b c \<Longrightarrow> turn_keeps a c"
  by (simp add: turn_keeps_def)

interpretation turn: control_relation turn_keeps "recording env" for env
  by (unfold_locales, rule turn_keeps_refl, erule (1) turn_keeps_trans)
    (auto intro!: turn_quiet quiet_locals quiet_world)

lemma turn_world: "(\<And>w. sends (snd (snd (f w))) = sends (snd w)) \<Longrightarrow> turn.kept (world_op f)"
  by (intro turn.kept_world_op turn_quiet quiet_world) simp

lemma turn_update: "(\<And>st. quiet_step st (f st)) \<Longrightarrow> turn.kept (update f)"
  by (intro turn.kept_update turn_quiet)

lemma turn_send:
  assumes "\<And>n. phase_step (Within n) event = Some (Within n)"
  shows "turn.kept (send (recording env) event)"
proof (rule turn.keptI)
  fix st st' r
  assume s: "send (recording env) event st = (r, st')"
  show "turn_keeps st st'"
    unfolding turn_keeps_def
  proof (intro allI impI)
    fix n
    assume "within n st"
    then consider "live (Within (Suc n)) st" "turn_counts (Suc n) n st" | "spent st" by (auto simp: within_def)
    then show "within n st'"
    proof cases
      case 1
      then show ?thesis using send_live [OF 1(1) assms s]
        by (auto simp: within_def turn_counts_def same_rest_def split: if_splits)
    next
      case 2
      then show ?thesis using send_spent [OF 2 s] by (simp add: within_def)
    qed
  qed
qed

lemma turn_observe: "turn.kept (observe_envelope uu provider envelope)"
  by (rule turn.keptI) (auto simp: observe_envelope_def quiet_step_def intro!: turn_quiet split: prod.splits)

lemma turn_collect: "turn.kept (collect_step uu (recording env) provider)"
proof -
  have "turn.kept (collect_event uu (recording env) provider)"
    unfolding collect_event_def
    by (intro turn.kept_then turn.kept_checkpoint turn.kept_cancellable turn_world turn.kept_from_result turn_observe)
      (auto simp: quiet_step_def split: ProviderEvent.split intro!: turn.kept_then turn.kept_ret turn_update)
  then show ?thesis
    unfolding collect_step_def
    by (intro turn.kept_then) (auto split: option.split intro!: turn.kept_rules turn_send)
qed

lemma turn_tool_event: "turn.kept (tool_event (recording env) event)"
  unfolding tool_event_def
  by (intro turn.kept_then turn_send)
    (auto simp: same_but_locals_def split: ToolExecutionEvent.split intro!: turn.kept_ret turn.kept_increment)

lemma turn_tool_result: "turn.kept (tool_result (recording env) i output is_error)"
  unfolding tool_result_def
  by (intro turn.kept_then turn.kept_read turn.kept_fail_if turn_world)
    (auto simp: quiet_step_def split: sum.split intro!: turn.kept_rules turn_update)

interpretation tool_turn: observed_relation turn_keeps "tool_environment (recording env)" for env
  by unfold_locales
    (auto simp: tool_environment_def turn.kept_checkpoint turn_tool_event turn_tool_result
      intro!: turn.kept_cancellable turn_world)

lemma turn_batch: "turn.kept (run_batch cr (recording env) calls)"
proof (rule turn.keptI)
  fix st st' r
  assume run: "run_batch cr (recording env) calls st = (r, st')"
  let ?b = "\<lparr>batch_calls = calls, batch_results = reg_results (st_scope st), batch_state = st\<rparr>"
  from run obtain b where l: "batch_loop cr (tool_environment (recording env)) count_prepared ?b = (r, b)"
    and s: "st' = (batch_state b)\<lparr>st_scope := (st_scope st)\<lparr>reg_results := batch_results b\<rparr>\<rparr>"
    by (auto simp: run_batch_def split: prod.splits)
  have "turn_keeps st (batch_state b)" using tool_turn.batch_loop_kept [OF turn.kept_count_prepared l] by simp
  moreover have "turn_keeps (batch_state b) st'" by (rule turn_quiet) (simp add: s quiet_step_def)
  ultimately show "turn_keeps st st'" by (rule turn.trans)
qed

interpretation turn_run: run_relation turn_keeps "recording env" uu cr provider for env uu cr provider
  by unfold_locales (auto simp: turn_collect turn_batch intro!: turn_quiet quiet_world)

section \<open>From turn to turn\<close>

lemma quiet_step_refl: "quiet_step st st"
  by (simp add: quiet_step_def)

lemma quiet_step_trans: "quiet_step a b \<Longrightarrow> quiet_step b c \<Longrightarrow> quiet_step a c"
  by (auto simp: quiet_step_def)

interpretation quiet: control_relation quiet_step "recording env" for env
  by (unfold_locales, rule quiet_step_refl, erule (1) quiet_step_trans)
    (auto intro!: quiet_locals quiet_world)

lemma quiet_world_op: "(\<And>w. sends (snd (snd (f w))) = sends (snd w)) \<Longrightarrow> quiet.kept (world_op f)"
  by (intro quiet.kept_world_op quiet_world) simp

lemma within_kept: "turn.kept m \<Longrightarrow> triple (within n) m (\<lambda>_. within n) (\<lambda>_. within n)"
  by (intro tripleI) (auto dest!: turn.keptD simp: turn_keeps_def)

text \<open>The turn counter has been raised, the turn not yet announced.\<close>

definition announced :: "nat \<Rightarrow> ('t, 'w \<times> Action list) Run \<Rightarrow> bool" where
  "announced n st \<longleftrightarrow> (live (Between n) st \<and> turn_counts (Suc n) n st) \<or> spent st"

lemma quiet_announced: "quiet_step st st' \<Longrightarrow> announced n st \<Longrightarrow> announced n st'"
  unfolding announced_def using quiet_live [of st st' "Between n"] quiet_spent quiet_counts by blast

lemma between_quiet: "quiet.kept m \<Longrightarrow> triple (between n) m (\<lambda>_. between n) (\<lambda>_. between n)"
  by (intro tripleI) (auto dest: quiet.keptD intro: quiet_between)

lemma announced_quiet: "quiet.kept m \<Longrightarrow> triple (announced n) m (\<lambda>_. announced n) E"
  if "\<And>s e s'. m s \<noteq> (Err e, s')"
  using that by (intro tripleI) (auto dest: quiet.keptD intro: quiet_announced)

lemma live_summary: "live ph (st\<lparr>st_summary := s\<rparr>) = live ph st" "spent (st\<lparr>st_summary := s\<rparr>) = spent st"
  by (simp_all add: live_def spent_def numbered_def phase_is_def)

lemma count_turn:
  "triple (between n) (increment (\<lambda>st. turns_started (st_summary st)) (\<lambda>c. on_summary (turns_started_update (\<lambda>_. c))))
     (\<lambda>_. announced n) (\<lambda>_. between n)"
  by (intro tripleI)
    (auto simp: increment_Ok increment_Err between_def announced_def live_summary turn_counts_def)

lemma begin_turn_trace:
  "triple (between n) (begin_turn (recording env)) (\<lambda>_. announced n) (\<lambda>_. between n)"
  unfolding begin_turn_def
  by (rule triple_then [rotated, where R = "\<lambda>_. between n"], rule between_quiet, rule quiet.kept_checkpoint,
      rule triple_then [rotated, where R = "\<lambda>_. between n"], rule between_quiet, rule quiet_world_op, simp,
      rule triple_then [rotated, where R = "\<lambda>_. between n"], rule between_quiet, rule quiet.kept_update,
      simp add: quiet_step_def, rule triple_then [rotated], rule count_turn,
      rule announced_quiet, simp add: update_def, rule quiet.kept_update, simp add: quiet_step_def)

lemma turn_body_trace:
  "triple (announced n) (turn_body uu cr (recording env) provider input) (\<lambda>_. within n) (\<lambda>_. within n)"
proof -
  have start: "triple (\<lambda>st. announced n st \<and> event = TurnStarted (turns_started (st_summary st)))
      (send (recording env) event) (\<lambda>_. within n) (\<lambda>_. within n)" for event
  proof -
    have "within n st'" if "announced n st" "event = TurnStarted (turns_started (st_summary st))"
      "send (recording env) event st = (r, st')" for st r st'
      using that(1) unfolding announced_def
    proof
      assume l: "live (Between n) st \<and> turn_counts (Suc n) n st"
      then have "phase_step (Between n) event = Some (Within (Suc n))" by (simp add: that(2) turn_counts_def)
      from send_live [OF _ this that(3)] l show ?thesis
        by (auto simp: within_def turn_counts_def same_rest_def split: if_splits)
    next
      assume "spent st"
      then show ?thesis using send_spent [OF _ that(3)] by (simp add: within_def)
    qed
    then show ?thesis by (intro tripleI) blast+
  qed
  have rest: "triple (within n) (turn_rest uu cr (recording env) provider input) (\<lambda>_. within n) (\<lambda>_. within n)"
    by (rule within_kept) (rule turn_run.kept_turn_rest)
  have body: "turn_body uu cr (recording env) provider input st =
      then_do (send (recording env) (TurnStarted (turns_started (st_summary st))))
        (\<lambda>_. turn_rest uu cr (recording env) provider input) st" for st
    by (simp add: turn_body_def then_do_def read_def)
  show ?thesis
    using triple_then [OF rest start] by (intro tripleI) (auto simp: body dest: tripleD_Ok tripleD_Err)
qed

lemma finish_turn_trace:
  "triple (within n) (finish_turn (recording env) turn) (\<lambda>_. between (Suc n)) (\<lambda>_. between (Suc n))"
proof -
  have "between (Suc n) st'" if w: "within n st" and f: "finish_turn (recording env) turn st = (r, st')" for st r st'
  proof (cases "st_sink_error st")
    case (Some e)
    with w have "spent st" by (auto simp: within_def live_def)
    moreover have "st' = st" using f Some by (auto simp: finish_turn_def prog_defs)
    ultimately show ?thesis by (simp add: between_def)
  next
    case None
    let ?inc = "increment (\<lambda>st. turns_finished (st_summary st)) (\<lambda>c. on_summary (turns_finished_update (\<lambda>_. c)))"
    let ?event = "\<lambda>st. TurnFinished (turns_started (st_summary st)) (col_response_id (st_collector st))
           (turn_outcome turn) (last_upstream_outcome (st_summary st))"
    obtain x st1 where i: "?inc st = (x, st1)" by fastforce
    have f': "(case x of Inl e \<Rightarrow> (Err e, st1) | Inr _ \<Rightarrow> send (recording env) (?event st1) st1) = (r, st')"
      using f None i by (auto simp: finish_turn_def then_do_def read_def split: sum.splits)
    from w show ?thesis unfolding within_def
    proof
      assume l: "live (Within (Suc n)) st \<and> turn_counts (Suc n) n st"
      have "Suc n < 2 ^ 64" using l unat_u64_bound [of "turns_started (st_summary st)"] by (simp add: turn_counts_def)
      then have "x \<noteq> Err e" for e using i l by (auto simp: increment_Err turn_counts_def)
      then have x: "x = Ok ()" by (cases x) auto
      with i have t1: "live (Within (Suc n)) st1" "turn_counts (Suc n) (Suc n) st1"
        using l by (auto simp: increment_Ok live_summary turn_counts_def)
      then have step: "phase_step (Within (Suc n)) (?event st1) = Some (Between (Suc n))" by (simp add: turn_counts_def)
      have "send (recording env) (?event st1) st1 = (r, st')" using f' x by simp
      from send_live [OF t1(1) step this] t1(2) show ?thesis
        by (auto simp: between_def turn_counts_def same_rest_def split: if_splits)
    next
      assume "spent st"
      then have sp: "spent st1" using i
        by (cases x) (auto simp: increment_Ok increment_Err live_summary)
      show ?thesis
      proof (cases x)
        case (Inl e)
        then show ?thesis using f' sp by (simp add: between_def)
      next
        case (Inr u)
        then have "send (recording env) (?event st1) st1 = (r, st')" using f' by simp
        then show ?thesis using send_spent [OF sp] sp by (auto simp: between_def)
      qed
    qed
  qed
  then show ?thesis by (intro tripleI) blast+
qed

lemma drive_turn_trace:
  "triple (between n) (drive_turn uu cr (recording env) provider input)
     (\<lambda>_. between (Suc n)) (\<lambda>_ st. \<exists>m. between m st)"
proof -
  have finish: "triple (within n)
      (then_do (finish_turn (recording env) turn) (\<lambda>_. from_result turn)) (\<lambda>_. between (Suc n)) (\<lambda>_ st. \<exists>m. between m st)"
    for turn
    using finish_turn_trace [of n env turn]
    by (intro triple_then [where R = "\<lambda>_. between (Suc n)"])
      (auto simp: triple_def from_result_def split: sum.split prod.splits)
  have body: "triple (announced n) (attempt (turn_body uu cr (recording env) provider input)) (\<lambda>_. within n) (\<lambda>_ _. False)"
    by (rule triple_attempt) (rule turn_body_trace)
  have rest: "triple (announced n)
      (then_do (attempt (turn_body uu cr (recording env) provider input)) (\<lambda>turn.
         then_do (finish_turn (recording env) turn) (\<lambda>_. from_result turn)))
      (\<lambda>_. between (Suc n)) (\<lambda>_ st. \<exists>m. between m st)"
    by (rule triple_then [OF finish], rule triple_conseq [OF body]) auto
  show ?thesis
    unfolding drive_turn_def
    by (rule triple_then [OF rest], rule triple_conseq [OF begin_turn_trace [of n]]) auto
qed

lemma drive_trace:
  "between n st \<Longrightarrow> drive uu cr (recording env) provider input st = (r, st') \<Longrightarrow> \<exists>m. between m st'"
proof (induction uu cr "recording env" provider input st arbitrary: n r st' rule: drive.induct)
  case (1 uu cr provider input st)
  obtain x st1 where d: "drive_turn uu cr (recording env) provider input st = (x, st1)" by fastforce
  have b: "\<exists>m. between m st1"
    using d tripleD_Ok [OF drive_turn_trace "1.prems"(1)] tripleD_Err [OF drive_turn_trace "1.prems"(1)]
    by (cases x) blast+
  show ?case
  proof (cases "\<exists>rs. x = Ok (Some rs)")
    case True
    then obtain rs where x: "x = Ok (Some rs)" by blast
    then have "between (Suc n) st1" using tripleD_Ok [OF drive_turn_trace "1.prems"(1)] d by blast
    moreover have "drive uu cr (recording env) provider rs st1 = (r, st')"
      using "1.prems"(2) d x by (subst (asm) drive.simps) simp
    ultimately show ?thesis using "1.hyps" d x by (metis (no_types))
  next
    case False
    then have "st' = st1" using "1.prems"(2) d
      by (subst (asm) drive.simps) (auto split: sum.splits option.splits)
    with b show ?thesis by simp
  qed
qed

section \<open>The whole run\<close>

abbreviation some_between :: "('t, 'w \<times> Action list) Run \<Rightarrow> bool" where
  "some_between st \<equiv> \<exists>m. between m st"

lemma between_chain:
  assumes "quiet.kept m" "\<And>a. triple (between n) (f a) (\<lambda>_. some_between) (\<lambda>_. some_between)"
  shows "triple (between n) (then_do m f) (\<lambda>_. some_between) (\<lambda>_. some_between)"
  by (rule triple_then [OF assms(2)], rule triple_conseq [OF between_quiet [OF assms(1), of n]]) auto

lemma open_session_log: "sends (snd (snd (open_session cr (recording env) provider options w))) = sends (snd w)"
  by (simp add: open_session_def split: sum.split)

lemma quiet_restore_history: "quiet.kept (restore_history (recording env) session model replay)"
  unfolding restore_history_def
  by (intro quiet.kept_then quiet.kept_from_result quiet.kept_fail_if quiet.kept_checkpoint quiet.kept_cancellable
      quiet_world_op)
    (auto simp: quiet_step_def split: sum.split intro!: quiet.kept_rules)

lemma open_and_drive_trace:
  "triple (between 0) (open_and_drive uu cr (recording env) admitted) (\<lambda>_. some_between) (\<lambda>_. some_between)"
proof -
  have drive: "triple (between 0) (drive uu cr (recording env) (adm_provider_id admitted) (adm_input admitted))
      (\<lambda>_. some_between) (\<lambda>_. some_between)"
    using drive_trace by (intro tripleI) blast+
  show ?thesis
    unfolding open_and_drive_def
    by (intro between_chain drive quiet.kept_checkpoint quiet.kept_cancellable quiet.kept_from_result
        quiet.kept_fail_if quiet.kept_update quiet_world_op open_session_log)
      (auto simp: quiet_step_def split: option.split intro: quiet.kept_ret quiet_restore_history)
qed

lemma execution_trace:
  assumes "live Before st" "turn_counts 0 0 st" "execution uu cr (recording env) admitted st = (r, st')"
  shows "some_between st'"
proof -
  have start: "between 0 st1" if "send (recording env) RunStarted st = (x, st1)" for x st1
    using send_live [OF assms(1) _ that] assms(2)
    by (auto simp: between_def turn_counts_def same_rest_def split: if_splits)
  have "triple (\<lambda>s. s = st) (send (recording env) RunStarted) (\<lambda>_. between 0) (\<lambda>_. some_between)"
    using start by (intro tripleI) blast+
  then have "triple (\<lambda>s. s = st) (execution uu cr (recording env) admitted) (\<lambda>_. some_between) (\<lambda>_. some_between)"
    unfolding execution_def by (intro triple_then [OF open_and_drive_trace])
  from tripleD_Ok [OF this refl] tripleD_Err [OF this refl] assms(3) show ?thesis by (cases r) blast+
qed

lemma finish_run_trace:
  assumes "some_between st" "finish_run (recording env) outcome st = (x, st')"
  shows "(x = Ok (Ok ()) \<and> live After st') \<or> (x \<noteq> Ok (Ok ()) \<and> spent st')"
proof -
  obtain m where "between m st" using assms(1) by blast
  have c: "quiet.kept (close_guard (recording env))"
    unfolding close_guard_def
    by (intro quiet.kept_then quiet.kept_read quiet.kept_if quiet.kept_ret quiet_world_op quiet.kept_update)
      (auto simp: quiet_step_def)
  obtain st1 where s1: "close_guard (recording env) st = (Ok (), st1)" by (simp add: close_guard_eq)
  let ?st = "st1\<lparr>st_turn_id := None\<rparr>"
  let ?event = "RunFinished outcome (st_summary st1)"
  have "quiet_step st st1" using quiet.keptD [OF c s1] .
  moreover have "quiet_step st1 ?st" by (simp add: quiet_step_def)
  ultimately have b: "between m ?st" using \<open>between m st\<close> quiet_between by blast
  obtain r where r: "send (recording env) ?event ?st = (r, st')" "x = Ok r"
    using assms(2) s1 by (auto simp: finish_run_def then_do_def update_def read_def attempt_def split: prod.splits)
  from b show ?thesis unfolding between_def
  proof
    assume "live (Between m) ?st \<and> turn_counts m m ?st"
    then have l: "live (Between m) ?st" by simp
    have "phase_step (Between m) ?event = Some After" by simp
    from send_live [OF l this r(1)] r(2) show ?thesis by (auto split: if_splits)
  next
    assume sp: "spent ?st"
    then show ?thesis using send_spent [OF sp r(1)] r(2) by auto
  qed
qed

lemma initial_live: "live Before (initial_run run_id admitted (w, [])) \<and> turn_counts 0 0 (initial_run run_id admitted (w, []))"
  by (simp add: live_def numbered_def phase_is_def initial_run_def turn_counts_def RunSummary_default_def)

section \<open>Properties\<close>

text \<open>C1: whatever the provider, the tools, the observer and the canceller do, a run returns and the events it
  hands to the observer are numbered 1, 2, 3, ... without gap, carry the run's id, follow the grammar
  started, turns (started, provider and tool events, finished, with consecutive turn numbers),
  finished, and stop after the first one the observer refuses; the result reports its events as
  complete exactly when the final event was delivered and none was refused.\<close>

theorem run_event_trace:
  "case run_admitted uu cr (recording env) admitted run_id (w, []) of
     (result, (w', log)) \<Rightarrow>
       map (\<lambda>(e, _). unat (re_sequence e)) (sends log) = [1..<Suc (length (sends log))] \<and>
       list_all (\<lambda>(e, _). re_run_id e = result_run_id result) (sends log) \<and>
       list_all snd (butlast (sends log)) \<and>
       phases Before (map (re_event \<circ> fst) (sends log)) \<noteq> None \<and>
       (result_events_complete result \<longleftrightarrow>
          phases Before (map (re_event \<circ> fst) (sends log)) = Some After \<and> list_all snd (sends log))"
proof -
  let ?st = "initial_run run_id admitted (w, [])"
  obtain r st where e: "execution uu cr (recording env) admitted ?st = (r, st)" by fastforce
  obtain x st' where f: "finish_run (recording env) (outcome_of r) st = (x, st')" by fastforce
  have "some_between st" by (rule execution_trace [OF conjunct1 [OF initial_live] conjunct2 [OF initial_live] e])
  note fin = finish_run_trace [OF this f]
  then have n: "numbered st'" by (auto simp: live_def spent_def)
  have len: "length (trace st') = unat (st_sequence st')"
    using n arg_cong [of _ _ length] unfolding numbered_def by (metis diff_Suc_1 length_map length_upt)
  have run: "run_admitted uu cr (recording env) admitted run_id (w, []) =
      (\<lparr>result_run_id = st_run_id st', result_session_id = st_session_id st', result_outcome = outcome_of r,
        result_summary = st_summary st', result_last_response = st_last_response st',
        result_events_complete = (x = Ok (Ok ())), result_sink_error = st_sink_error st'\<rparr>, st_world st')"
    by (simp add: run_admitted_def e f)
  obtain w' log where sw: "st_world st' = (w', log)" by fastforce
  have "phases Before (map (re_event \<circ> fst) (trace st')) \<noteq> None \<and>
      ((x = Ok (Ok ())) \<longleftrightarrow> phases Before (map (re_event \<circ> fst) (trace st')) = Some After \<and> list_all snd (trace st'))"
    using fin
  proof
    assume "x = Ok (Ok ()) \<and> live After st'"
    then show ?thesis by (auto simp: live_def phase_is_def numbered_def)
  next
    assume "x \<noteq> Ok (Ok ()) \<and> spent st'"
    then show ?thesis by (auto simp: spent_def phase_is_def)
  qed
  then show ?thesis using n len by (simp add: run sw numbered_def)
qed

end
