(* ===== verification/Run_Session.thy ===== *)
theory Run_Session
  imports Run_Trace
begin

text \<open>
  The provider session of a run: it is closed exactly once when it was opened, every model request and
  every tool runs while it is open, and the provider events passed on are those of this session in
  strictly increasing order.
\<close>

section \<open>Opening and closing\<close>

datatype session = NoSession | Active | Over

fun session_step :: "session \<Rightarrow> Action \<Rightarrow> session option" where
  "session_step NoSession Opened = Some Active"
| "session_step Active (Requested _) = Some Active"
| "session_step Active Ran = Some Active"
| "session_step Active Closed = Some Over"
| "session_step _ _ = None"

fun session_run :: "session \<Rightarrow> Action list \<Rightarrow> session option" where
  "session_run s [] = Some s"
| "session_run s (a # as) = Option.bind (session_step s a) (\<lambda>t. session_run t as)"

lemma session_run_append: "session_run s (as @ bs) = Option.bind (session_run s as) (\<lambda>t. session_run t bs)"
  by (induction as arbitrary: s) (auto split: Option.bind_splits)

definition session_is :: "session \<Rightarrow> ('t, 'w \<times> Action list) Run \<Rightarrow> bool" where
  "session_is s st \<longleftrightarrow> session_run NoSession (session_actions (log_of st)) = Some s \<and> (st_guard st \<longleftrightarrow> s = Active)"

definition session_keeps :: "('t, 'w \<times> Action list) Run \<Rightarrow> ('t, 'w \<times> Action list) Run \<Rightarrow> bool" where
  "session_keeps st st' \<longleftrightarrow> (session_is Active st \<longrightarrow> session_is Active st')"

text \<open>A step that neither uses the session nor touches the guard.\<close>

definition idle_step :: "('t, 'w \<times> Action list) Run \<Rightarrow> ('t, 'w \<times> Action list) Run \<Rightarrow> bool" where
  "idle_step st st' \<longleftrightarrow> session_actions (log_of st') = session_actions (log_of st) \<and> st_guard st' = st_guard st"

lemma idle_session: "idle_step st st' \<Longrightarrow> session_is s st' = session_is s st"
  by (simp add: idle_step_def session_is_def)

lemma idle_keeps: "idle_step st st' \<Longrightarrow> session_keeps st st'"
  by (simp add: session_keeps_def idle_session)

interpretation idle: control_relation idle_step "recording env" for env
  by unfold_locales (auto simp: idle_step_def same_but_locals_def)

interpretation sess: control_relation session_keeps "recording env" for env
  by unfold_locales (auto simp: session_keeps_def session_is_def same_but_locals_def)

lemma idle_world_op:
  "(\<And>w. session_actions (snd (snd (f w))) = session_actions (snd w)) \<Longrightarrow> idle.kept (world_op f)"
  by (intro idle.kept_world_op) (simp add: idle_step_def)

lemma idle_sess: "idle.kept m \<Longrightarrow> sess.kept m"
  by (rule sess.keptI) (auto dest: idle.keptD intro: idle_keeps)

lemma idle_send: "idle.kept (send (recording env) event)"
proof (rule idle.keptI)
  fix st r st'
  assume "send (recording env) event st = (r, st')"
  from send_recording [OF this] show "idle_step st st'"
    by (auto simp: idle_step_def delivered_def same_rest_def)
qed

lemma idle_observe: "idle.kept (observe_envelope uu provider envelope)"
  by (rule idle.keptI) (auto simp: observe_envelope_def idle_step_def split: prod.splits)

lemma idle_collect: "idle.kept (collect_step uu (recording env) provider)"
proof -
  have "idle.kept (collect_event uu (recording env) provider)"
    unfolding collect_event_def
    by (intro idle.kept_then idle.kept_checkpoint idle.kept_cancellable idle_world_op idle.kept_from_result idle_observe)
      (auto simp: idle_step_def split: ProviderEvent.split intro!: idle.kept_then idle.kept_ret idle.kept_update)
  then show ?thesis
    unfolding collect_step_def
    by (intro idle.kept_then) (auto split: option.split intro!: idle.kept_rules idle_send)
qed

lemma idle_tool_event: "idle.kept (tool_event (recording env) event)"
  unfolding tool_event_def
  by (intro idle.kept_then idle_send)
    (auto simp: same_but_locals_def split: ToolExecutionEvent.split intro!: idle.kept_ret idle.kept_increment)

lemma idle_tool_result: "idle.kept (tool_result (recording env) i output is_error)"
  unfolding tool_result_def
  by (intro idle.kept_then idle.kept_read idle.kept_fail_if idle_world_op)
    (auto simp: idle_step_def split: sum.split intro!: idle.kept_rules)

lemma sess_ran: "sess.kept (world_op (noting (\<lambda>_. [Ran]) f))"
  by (rule sess.kept_world_op) (auto simp: session_keeps_def session_is_def session_run_append)

interpretation tool_sess: observed_relation session_keeps "tool_environment (recording env)" for env
  by unfold_locales
    (auto simp: tool_environment_def sess.kept_checkpoint idle_sess [OF idle_tool_event] idle_sess [OF idle_tool_result]
      intro!: sess.kept_cancellable sess_ran)

lemma sess_batch: "sess.kept (run_batch cr (recording env) calls)"
proof (rule sess.keptI)
  fix st st' r
  assume run: "run_batch cr (recording env) calls st = (r, st')"
  let ?b = "\<lparr>batch_calls = calls, batch_results = reg_results (st_scope st), batch_state = st\<rparr>"
  from run obtain b where l: "batch_loop cr (tool_environment (recording env)) count_prepared ?b = (r, b)"
    and s: "st' = (batch_state b)\<lparr>st_scope := (st_scope st)\<lparr>reg_results := batch_results b\<rparr>\<rparr>"
    by (auto simp: run_batch_def split: prod.splits)
  have "session_keeps st (batch_state b)" using tool_sess.batch_loop_kept [OF sess.kept_count_prepared l] by simp
  moreover have "session_keeps (batch_state b) st'" by (rule idle_keeps) (simp add: s idle_step_def)
  ultimately show "session_keeps st st'" by (rule sess.trans)
qed

interpretation sess_drive: drive_relation session_keeps "recording env" uu cr provider for env uu cr provider
proof unfold_locales
  show "session_keeps st (st\<lparr>st_world := snd (run_generate (recording env) input (st_world st))\<rparr>)" for st input
    by (auto simp: session_keeps_def session_is_def session_run_append)
qed (auto simp: sess_batch idle_sess [OF idle_collect] idle_sess [OF idle_send] idle_step_def same_but_turn_def intro!: idle_keeps)

lemma restore_idle: "idle.kept (restore_history (recording env) session model replay)"
  unfolding restore_history_def
  by (intro idle.kept_then idle.kept_from_result idle.kept_fail_if idle.kept_checkpoint idle.kept_cancellable
      idle_world_op)
    (auto simp: idle_step_def split: sum.split intro!: idle.kept_rules)

lemma restore_and_drive_kept:
  "sess.kept (then_do
     (case adm_replay admitted of None \<Rightarrow> ret ()
      | Some replay \<Rightarrow> restore_history (recording env) session (opt_model (adm_options admitted)) replay)
     (\<lambda>_. drive uu cr (recording env) (adm_provider_id admitted) (adm_input admitted)))"
  by (intro sess.kept_then sess_drive.kept_drive)
    (auto split: option.split intro: sess.kept_ret idle_sess [OF restore_idle])

text \<open>Opening: either no session came up and the guard is down, or the session is open and guarded.\<close>

lemma open_session_actions:
  "open_session cr (recording env) provider options w = (r, w') \<Longrightarrow>
     session_actions (snd w') = session_actions (snd w) @ (case r of Some (Inr _) \<Rightarrow> [Opened] | _ \<Rightarrow> [])"
  by (auto simp: open_session_def noting_def session_actions_def split: sum.splits prod.splits option.splits
      elim!: opened_note.elims)

lemma open_and_drive_session:
  "triple (session_is NoSession) (open_and_drive uu cr (recording env) admitted)
     (\<lambda>_ st. session_is Active st) (\<lambda>_ st. session_is NoSession st \<or> session_is Active st)"
proof -
  let ?Q = "\<lambda>_ st. session_is Active st" and ?E = "\<lambda>_ st. session_is NoSession st \<or> session_is Active st"
  let ?tail = "\<lambda>session. then_do (update (\<lambda>st. st\<lparr>st_guard := True\<rparr>)) (\<lambda>_.
     then_do (fail_if (adm_provider_id admitted = PROVIDER_ID \<and> \<not> is_canonical_uuid uu session)
        (failed ''provider_correlation'')) (\<lambda>_.
     then_do (update (\<lambda>st. st\<lparr>st_session_id := Some session\<rparr>)) (\<lambda>_.
     then_do (case adm_replay admitted of
        None \<Rightarrow> ret ()
      | Some replay \<Rightarrow> restore_history (recording env) session (opt_model (adm_options admitted)) replay) (\<lambda>_.
     drive uu cr (recording env) (adm_provider_id admitted) (adm_input admitted)))))"
  let ?up = "\<lambda>opened st. case opened of Inl _ \<Rightarrow> session_is NoSession st
     | Inr _ \<Rightarrow> session_run NoSession (session_actions (log_of st)) = Some Active"
  have check: "triple (session_is NoSession) (checkpoint (recording env)) (\<lambda>_. session_is NoSession) ?E"
    using idle.keptD [OF idle.kept_checkpoint] idle_session by (intro tripleI) blast+
  have up: "triple (session_is NoSession)
      (cancellable (recording env) (world_op (open_session cr (recording env) (adm_provider_id admitted) (adm_options admitted))))
      ?up ?E"
    unfolding cancellable_def
  proof (rule triple_then [OF _ check], rule triple_then)
    fix r
    show "triple (\<lambda>st. case r of None \<Rightarrow> session_is NoSession st | Some o' \<Rightarrow> ?up o' st)
        (case r of None \<Rightarrow> raise CancelledLocally | Some a \<Rightarrow> ret a) ?up ?E"
      by (cases r) (auto simp: triple_def ret_def raise_def)
  next
    show "triple (session_is NoSession)
        (world_op (open_session cr (recording env) (adm_provider_id admitted) (adm_options admitted)))
        (\<lambda>r st. case r of None \<Rightarrow> session_is NoSession st | Some o' \<Rightarrow> ?up o' st) ?E"
      by (auto simp: triple_def world_op_def session_is_def session_run_append
          dest!: open_session_actions split: prod.split option.split sum.split)
  qed
  have tail: "triple (\<lambda>st. session_run NoSession (session_actions (log_of st)) = Some Active) (?tail session) ?Q ?E" for session
  proof (rule triple_then [where R = "\<lambda>_. session_is Active"])
    fix u
    have "sess.kept (then_do (fail_if (adm_provider_id admitted = PROVIDER_ID \<and> \<not> is_canonical_uuid uu session)
        (failed ''provider_correlation'')) (\<lambda>_.
     then_do (update (\<lambda>st. st\<lparr>st_session_id := Some session\<rparr>)) (\<lambda>_.
     then_do (case adm_replay admitted of
        None \<Rightarrow> ret ()
      | Some replay \<Rightarrow> restore_history (recording env) session (opt_model (adm_options admitted)) replay) (\<lambda>_.
     drive uu cr (recording env) (adm_provider_id admitted) (adm_input admitted)))))" (is "sess.kept ?m")
      by (intro sess.kept_then [OF sess.kept_fail_if] sess.kept_then [OF sess.kept_update] restore_and_drive_kept)
        (simp add: session_keeps_def session_is_def)
    then show "triple (session_is Active) ?m ?Q ?E"
      by (intro tripleI) (auto dest!: sess.keptD simp: session_keeps_def)
  qed (simp add: triple_def update_def session_is_def)
  show ?thesis
    unfolding open_and_drive_def
  proof (rule triple_then [OF _ check], rule triple_then [OF _ up])
    fix opened
    show "triple (?up opened)
       (then_do (from_result (map_err (\<lambda>_. failed ''session_open'') opened)) ?tail) ?Q ?E"
    proof (cases opened)
      case (Inl e)
      then show ?thesis by (auto simp: triple_def then_do_def from_result_def)
    next
      case (Inr session)
      then show ?thesis using tail [of session] by (auto simp: triple_def then_do_def from_result_def)
    qed
  qed
qed

section \<open>Properties\<close>

text \<open>C2: in every run the provider session is either never opened, or opened once and closed exactly once
  at the end, and every model request and every tool execution happens in between.\<close>

theorem session_closed_once:
  "case run_admitted uu cr (recording env) admitted run_id (w, []) of
     (result, (w', log)) \<Rightarrow>
       session_run NoSession (session_actions log) \<in> {Some NoSession, Some Over}"
proof -
  let ?st = "initial_run run_id admitted (w, [])"
  have init: "session_is NoSession ?st" by (simp add: session_is_def initial_run_def)
  obtain r st where e: "execution uu cr (recording env) admitted ?st = (r, st)" by fastforce
  have send: "triple (session_is NoSession) (send (recording env) RunStarted) (\<lambda>_. session_is NoSession)
      (\<lambda>_ st. session_is NoSession st \<or> session_is Active st)"
    using idle.keptD [OF idle_send] idle_session by (intro tripleI) blast+
  have ex: "triple (session_is NoSession) (execution uu cr (recording env) admitted) (\<lambda>_ st. session_is Active st)
      (\<lambda>_ st. session_is NoSession st \<or> session_is Active st)"
    unfolding execution_def by (intro triple_then [OF open_and_drive_session send])
  have s: "session_is NoSession st \<or> session_is Active st"
    using tripleD_Ok [OF ex init] tripleD_Err [OF ex init] e by (cases r) blast+
  obtain x st' where f: "finish_run (recording env) (outcome_of r) st = (x, st')" by fastforce
  obtain st1 where c: "close_guard (recording env) st = (Ok (), st1)" by (simp add: close_guard_eq)
  have st1: "session_is NoSession st1 \<or> session_is Over st1"
    using s c by (auto simp: close_guard_eq session_is_def session_run_append split: if_splits)
  have "idle.kept (then_do (update (\<lambda>st. st\<lparr>st_turn_id := None\<rparr>)) (\<lambda>_.
     then_do (read (\<lambda>st. RunFinished (outcome_of r) (st_summary st))) (\<lambda>event. attempt (send (recording env) event))))"
    by (intro idle.kept_then idle.kept_update idle.kept_read idle.kept_attempt idle_send) (simp add: idle_step_def)
  moreover have "then_do (update (\<lambda>st. st\<lparr>st_turn_id := None\<rparr>)) (\<lambda>_.
     then_do (read (\<lambda>st. RunFinished (outcome_of r) (st_summary st))) (\<lambda>event. attempt (send (recording env) event))) st1 = (x, st')"
    using f c by (simp add: finish_run_def then_do_def)
  ultimately have "idle_step st1 st'" by (rule idle.keptD)
  then have "session_is NoSession st' \<or> session_is Over st'" using st1 idle_session by blast
  then show ?thesis by (auto simp: run_admitted_def e f session_is_def split: prod.splits)
qed

end
