(* ===== verification/Sse.thy ===== *)
theory Sse
  imports Provider_Contract Programs
begin

text \<open>
  The incremental decoder of server-sent events, \<open>src/providers/openai_codex/sse.rs\<close>.  The decoder is a
  state that takes one byte at a time; \<open>feed\<close> is the loop over a chunk.  A program returns the frames it
  pushes onto the caller's vector.  The properties say that a well-framed stream decodes to its payloads
  however it is cut into chunks, and that everything the decoder holds is bounded.
\<close>

section \<open>The decoder\<close>

definition MAX_FRAME_BYTES :: nat where "MAX_FRAME_BYTES = 8 * 1024 * 1024"

abbreviation carriage_return :: char where "carriage_return \<equiv> CHR 0x0D"
abbreviation line_feed :: char where "line_feed \<equiv> CHR 0x0A"

record SseDecoder =
  sse_line :: str
  sse_data :: str
  sse_after_cr :: bool
  sse_first_line_seen :: bool
  sse_frame_bytes :: nat
  sse_strict_prolog :: bool
  sse_event_label :: str
  sse_dispatched_label :: str

definition SseDecoder_default :: SseDecoder where
  "SseDecoder_default =
     \<lparr>sse_line = [], sse_data = [], sse_after_cr = False, sse_first_line_seen = False, sse_frame_bytes = 0,
      sse_strict_prolog = False, sse_event_label = [], sse_dispatched_label = []\<rparr>"

definition strict_prolog :: SseDecoder where
  "strict_prolog = SseDecoder_default\<lparr>sse_strict_prolog := True\<rparr>"

type_synonym 'a sse = "(SseDecoder, GatewayError, 'a) prog"

text \<open>\<open>str::strip_prefix(p).unwrap_or(text)\<close>.\<close>

definition without_prefix :: "str \<Rightarrow> str \<Rightarrow> str" where
  "without_prefix p s = (case strip_prefix p s of None \<Rightarrow> s | Some r \<Rightarrow> r)"

definition byte_order_mark :: str where
  "byte_order_mark = [CHR 0xEF, CHR 0xBB, CHR 0xBF]"

text \<open>\<open>chars().any(|c| c.is_control() && c != TAB)\<close>: the C0 controls and DEL are one byte, the C1 controls
  are \<open>C2\<close> followed by \<open>80..9F\<close>.\<close>

fun has_control :: "str \<Rightarrow> bool" where
  "has_control [] = False"
| "has_control (a # s) =
     ((byte a < 32 \<and> byte a \<noteq> 9) \<or> byte a = 127 \<or>
      (byte a = 194 \<and> s \<noteq> [] \<and> 128 \<le> byte (hd s) \<and> byte (hd s) \<le> 159) \<or> has_control s)"

definition dispatch :: "str list sse" where
  "dispatch =
     then_do (read (\<lambda>d. if sse_data d = [] then [] else [butlast (sse_data d)])) (\<lambda>frames.
     then_do (update (\<lambda>d. d\<lparr>sse_data := []\<rparr>)) (\<lambda>_.
     then_do (update (\<lambda>d. if sse_strict_prolog d
        then d\<lparr>sse_dispatched_label := sse_event_label d, sse_event_label := []\<rparr> else d)) (\<lambda>_.
     then_do (update (\<lambda>d. d\<lparr>sse_frame_bytes := 0\<rparr>)) (\<lambda>_.
     ret frames))))"

definition check_prolog :: "str \<Rightarrow> unit sse" where
  "check_prolog text =
     then_do (fail_if (has_control text) UnexpectedContentType) (\<lambda>_.
     if text = [] \<or> hd text = CHR '':'' then ret ()
     else
       (let (field, value) = (case split_once (CHR '':'') text of None \<Rightarrow> (text, []) | Some p \<Rightarrow> p);
            value = without_prefix '' '' value
        in if field = ''data'' \<or> field = ''id'' then ret ()
           else if field = ''event'' then update (\<lambda>d. d\<lparr>sse_event_label := value\<rparr>)
           else if field = ''retry'' \<and> value \<noteq> [] \<and> list_all is_ascii_digit value then ret ()
           else raise UnexpectedContentType))"

definition take_data :: "str \<Rightarrow> str list sse" where
  "take_data text =
     (if text = [] then dispatch
      else case strip_prefix ''data:'' text of
        Some value \<Rightarrow> then_do (update (\<lambda>d. d\<lparr>sse_data := sse_data d @ without_prefix '' '' value @ [line_feed]\<rparr>)) (\<lambda>_. ret [])
      | None \<Rightarrow>
          if text = ''data'' then then_do (update (\<lambda>d. d\<lparr>sse_data := sse_data d @ [line_feed]\<rparr>)) (\<lambda>_. ret [])
          else ret [])"

definition finish_line :: "str list sse" where
  "finish_line =
     then_do (read sse_line) (\<lambda>line.
     then_do (update (\<lambda>d. d\<lparr>sse_line := []\<rparr>)) (\<lambda>_.
     then_do (fail_if (\<not> utf8_valid line) (Protocol ''SSE line is not UTF-8'')) (\<lambda>_.
     then_do (read (\<lambda>d. if sse_first_line_seen d then line else without_prefix byte_order_mark line)) (\<lambda>text.
     then_do (update (\<lambda>d. d\<lparr>sse_first_line_seen := True\<rparr>)) (\<lambda>_.
     then_do (read sse_strict_prolog) (\<lambda>strict.
     then_do (if strict then check_prolog text else ret ()) (\<lambda>_.
     take_data text)))))))"

definition take_byte :: "char \<Rightarrow> str list sse" where
  "take_byte b =
     then_do (update (\<lambda>d. d\<lparr>sse_frame_bytes := sse_frame_bytes d + 1\<rparr>)) (\<lambda>_.
     then_do (read sse_frame_bytes) (\<lambda>n.
     then_do (fail_if (n > MAX_FRAME_BYTES) StreamTooLarge) (\<lambda>_.
     if b = carriage_return then
       then_do finish_line (\<lambda>frames.
       then_do (update (\<lambda>d. d\<lparr>sse_after_cr := True\<rparr>)) (\<lambda>_. ret frames))
     else if b = line_feed then finish_line
     else then_do (update (\<lambda>d. d\<lparr>sse_line := sse_line d @ [b]\<rparr>)) (\<lambda>_. ret []))))"

definition feed_byte :: "char \<Rightarrow> str list sse" where
  "feed_byte b =
     then_do (read sse_after_cr) (\<lambda>after_cr.
     then_do (update (\<lambda>d. d\<lparr>sse_after_cr := False\<rparr>)) (\<lambda>_.
     if after_cr \<and> b = line_feed then ret [] else take_byte b))"

fun feed :: "str \<Rightarrow> str list sse" where
  "feed [] = ret []"
| "feed (b # bytes) =
     then_do (feed_byte b) (\<lambda>frames.
     then_do (feed bytes) (\<lambda>rest. ret (frames @ rest)))"

definition finish :: "str list sse" where
  "finish =
     then_do (read sse_line) (\<lambda>line.
     then_do (if line \<noteq> [] then finish_line else ret []) (\<lambda>frames.
     then_do dispatch (\<lambda>rest. ret (frames @ rest))))"

text \<open>The frames of a sequence of chunks that the decoder accepts.  Where a chunk is refused the transport has already handed
  out the frames of the chunks before it; that is the business of its own model, not of this composition.\<close>

fun feed_chunks :: "str list \<Rightarrow> str list sse" where
  "feed_chunks [] = ret []"
| "feed_chunks (chunk # chunks) =
     then_do (feed chunk) (\<lambda>frames.
     then_do (feed_chunks chunks) (\<lambda>rest. ret (frames @ rest)))"

section \<open>Sequencing\<close>

lemma feed_append:
  "feed (xs @ ys) = then_do (feed xs) (\<lambda>a. then_do (feed ys) (\<lambda>b. ret (a @ b)))"
  by (induction xs) (simp_all add: then_do_assoc then_do_ret ret_then_do)

lemma feed_append_Ok:
  "feed xs d = (Ok a, d1) \<Longrightarrow> feed ys d1 = (Ok b, d2) \<Longrightarrow> feed (xs @ ys) d = (Ok (a @ b), d2)"
  by (simp add: feed_append then_do_def ret_def)

lemma feed_chunks_concat: "feed_chunks chunks = feed (concat chunks)"
  by (induction chunks) (simp_all add: feed_append)

section \<open>Bounded buffers\<close>

text \<open>What is buffered never exceeds the number of bytes counted since the last dispatch.\<close>

definition counted :: "SseDecoder \<Rightarrow> bool" where
  "counted d \<longleftrightarrow> length (sse_line d) + length (sse_data d) \<le> sse_frame_bytes d \<and>
     length (sse_event_label d) \<le> sse_frame_bytes d \<and> (sse_strict_prolog d \<or> sse_event_label d = []) \<and>
     length (sse_dispatched_label d) \<le> MAX_FRAME_BYTES"

definition bounded :: "SseDecoder \<Rightarrow> bool" where
  "bounded d \<longleftrightarrow> counted d \<and> sse_frame_bytes d \<le> MAX_FRAME_BYTES"

text \<open>What a failed step leaves behind: the byte that broke the limit is counted but not kept.\<close>

definition held :: "SseDecoder \<Rightarrow> bool" where
  "held d \<longleftrightarrow> length (sse_line d) + length (sse_data d) \<le> MAX_FRAME_BYTES \<and> length (sse_event_label d) \<le> MAX_FRAME_BYTES \<and>
     length (sse_dispatched_label d) \<le> MAX_FRAME_BYTES \<and> sse_frame_bytes d \<le> MAX_FRAME_BYTES + 1"

lemma bounded_held: "bounded d \<Longrightarrow> held d"
  by (auto simp: bounded_def counted_def held_def)

abbreviation short_frames :: "str list \<Rightarrow> bool" where
  "short_frames \<equiv> list_all (\<lambda>f. length f < MAX_FRAME_BYTES)"

lemma length_without_prefix: "length (without_prefix p s) \<le> length s"
  by (auto simp: without_prefix_def split: option.split)

lemma length_split_once: "split_once c s = Some (a, b) \<Longrightarrow> length b < length s"
  by (auto simp: split_once_Some)

lemma shorter: "s \<noteq> [] \<Longrightarrow> length s \<le> n \<Longrightarrow> n \<le> m \<Longrightarrow> length s - Suc 0 < m"
  by (cases s) auto

abbreviation took :: "str \<Rightarrow> SseDecoder \<Rightarrow> bool" where
  "took text d \<equiv> bounded d \<and> sse_line d = [] \<and> length text + length (sse_data d) \<le> sse_frame_bytes d"

lemma bounded_dispatch:
  "triple (\<lambda>d. bounded d \<and> sse_line d = []) dispatch (\<lambda>fs d. bounded d \<and> short_frames fs) (\<lambda>_. held)"
  unfolding dispatch_def
  by (rule triple_pre, (rule hoare)+) (auto simp: held_def bounded_def counted_def intro: shorter)

lemma bounded_check_prolog:
  "triple (\<lambda>d. took text d \<and> sse_strict_prolog d) (check_prolog text)
     (\<lambda>_ d. took text d) (\<lambda>_. held)"
proof (rule tripleI)
  fix d u d'
  assume "took text d \<and> sse_strict_prolog d"
    and "check_prolog text d = (Ok u, d')"
  moreover have "length (without_prefix '' '' (snd (case split_once (CHR '':'') text of None \<Rightarrow> (text, []) | Some p \<Rightarrow> p))) \<le> length text"
    using length_without_prefix length_split_once by (fastforce split: option.split intro: order_trans)
  ultimately show "took text d'"
    by (auto simp: check_prolog_def prog_defs bounded_def counted_def case_prod_beta Let_def split: if_splits)
next
  fix d u d'
  assume "took text d \<and> sse_strict_prolog d"
    and "check_prolog text d = (Err u, d')"
  then show "held d'" by (auto simp: check_prolog_def prog_defs held_def bounded_def counted_def case_prod_beta Let_def split: if_splits)
qed

lemma bounded_take_data:
  "triple (\<lambda>d. took text d) (take_data text)
     (\<lambda>fs d. bounded d \<and> short_frames fs) (\<lambda>_. held)"
proof (cases "text = []")
  case True
  then show ?thesis unfolding take_data_def by (auto intro: triple_pre [OF bounded_dispatch])
next
  case False
  have v: "Suc (Suc (Suc (Suc (Suc (length v + n))))) \<le> k \<Longrightarrow> Suc (n + length (without_prefix '' '' v)) \<le> k" for v n k
    using length_without_prefix [of "'' ''" v] by linarith
  show ?thesis using False unfolding take_data_def
    by (simp only: if_False) (rule triple_pre, (rule hoare)+, auto simp: held_def bounded_def counted_def split: option.split intro: v)
qed

lemma bounded_finish_line: "triple bounded finish_line (\<lambda>fs d. bounded d \<and> short_frames fs) (\<lambda>_. held)"
proof -
  have len: "length line + n \<le> k \<Longrightarrow> length (without_prefix p line) + n \<le> k" for p line n k
    using length_without_prefix [of p line] by linarith
  have "triple (\<lambda>d. took t d) (then_do (read sse_strict_prolog) (\<lambda>strict.
      then_do (if strict then check_prolog t else ret ()) (\<lambda>_. take_data t)))
      (\<lambda>fs d. bounded d \<and> short_frames fs) (\<lambda>_. held)" for t
    by (rule triple_pre, (rule hoare bounded_take_data bounded_check_prolog)+) auto
  note tail = this
  show ?thesis unfolding finish_line_def
    by (rule triple_pre, (rule tail hoare)+)
      (auto simp: held_def bounded_def counted_def intro: len)
qed

lemma bounded_take_byte: "triple bounded (take_byte b) (\<lambda>fs d. bounded d \<and> short_frames fs) (\<lambda>_. held)"
proof -
  have "triple (\<lambda>d. bounded d \<and> short_frames fs) (then_do (update (\<lambda>d. d\<lparr>sse_after_cr := True\<rparr>)) (\<lambda>_. ret fs))
      (\<lambda>fs d. bounded d \<and> short_frames fs) (\<lambda>_. held)" for fs
    by (rule triple_pre, (rule hoare)+) (auto simp: held_def bounded_def counted_def)
  note cr = triple_then [OF this bounded_finish_line]
  show ?thesis unfolding take_byte_def
    by (rule triple_pre, (rule cr bounded_finish_line hoare)+) (auto simp: held_def bounded_def counted_def)
qed

lemma bounded_feed_byte: "triple bounded (feed_byte b) (\<lambda>fs d. bounded d \<and> short_frames fs) (\<lambda>_. held)"
  unfolding feed_byte_def
  by (rule triple_pre, (rule hoare bounded_take_byte)+) (auto simp: held_def bounded_def counted_def)

lemma bounded_feed: "triple bounded (feed bytes) (\<lambda>fs d. bounded d \<and> short_frames fs) (\<lambda>_. held)"
proof (induction bytes)
  case (Cons b bytes)
  have "triple (\<lambda>d. bounded d \<and> short_frames frames) (then_do (feed bytes) (\<lambda>rest. ret (frames @ rest)))
      (\<lambda>fs d. bounded d \<and> short_frames fs) (\<lambda>_. held)" for frames
    using Cons by (intro tripleI) (auto simp: then_do_def ret_def triple_iff split: prod.splits sum.splits)
  then show ?case unfolding feed.simps by (rule triple_then) (rule bounded_feed_byte)
qed (simp add: triple_def ret_def)

section \<open>Framed streams\<close>

text \<open>A payload as an event: one data field per line, then an empty line.\<close>

definition sse_frame :: "str \<Rightarrow> str \<Rightarrow> str" where
  "sse_frame ending payload = concat (map (\<lambda>l. ''data: '' @ l @ ending) (split_on line_feed payload)) @ ending"

abbreviation line_endings :: "str set" where
  "line_endings \<equiv> {[line_feed], [carriage_return, line_feed], [carriage_return]}"

definition plain :: "str \<Rightarrow> bool" where
  "plain s \<longleftrightarrow> carriage_return \<notin> set s \<and> line_feed \<notin> set s"

text \<open>The decoder between two lines of a stream with the given line ending.\<close>

definition at_line :: "str \<Rightarrow> str \<Rightarrow> nat \<Rightarrow> SseDecoder \<Rightarrow> bool" where
  "at_line ending data n d \<longleftrightarrow> sse_line d = [] \<and> sse_data d = data \<and> sse_frame_bytes d \<le> n \<and>
     \<not> sse_strict_prolog d \<and> (sse_after_cr d \<longrightarrow> ending = [carriage_return])"

lemma feed_plain:
  "plain s \<Longrightarrow> sse_frame_bytes d + length s \<le> MAX_FRAME_BYTES \<Longrightarrow> s \<noteq> [] \<or> \<not> sse_after_cr d \<Longrightarrow>
     feed s d = (Ok [], d\<lparr>sse_line := sse_line d @ s, sse_after_cr := False, sse_frame_bytes := sse_frame_bytes d + length s\<rparr>)"
  by (induction s arbitrary: d)
    (auto simp: plain_def feed_byte_def take_byte_def prog_defs)

lemma feed_ending:
  assumes "ending \<in> line_endings" "sse_frame_bytes d < MAX_FRAME_BYTES" "sse_after_cr d \<longrightarrow> ending = [carriage_return]"
    and "finish_line (d\<lparr>sse_after_cr := False, sse_frame_bytes := sse_frame_bytes d + 1\<rparr>) = (Ok fs, d')" "\<not> sse_after_cr d'"
  shows "feed ending d = (Ok fs, d'\<lparr>sse_after_cr := ending = [carriage_return]\<rparr>)"
  using assms by (auto simp: feed_byte_def take_byte_def prog_defs)

lemma finish_data_line:
  "utf8_valid l \<Longrightarrow> sse_line d = ''data: '' @ l \<Longrightarrow> \<not> sse_strict_prolog d \<Longrightarrow>
     finish_line d = (Ok [], d\<lparr>sse_line := [], sse_first_line_seen := True, sse_data := sse_data d @ l @ [line_feed]\<rparr>)"
  by (simp add: finish_line_def take_data_def prog_defs without_prefix_def byte_order_mark_def)

lemma finish_empty_line:
  "sse_line d = [] \<Longrightarrow> sse_data d \<noteq> [] \<Longrightarrow> \<not> sse_strict_prolog d \<Longrightarrow>
     finish_line d = (Ok [butlast (sse_data d)],
       d\<lparr>sse_line := [], sse_first_line_seen := True, sse_data := [], sse_frame_bytes := 0\<rparr>)"
  by (simp add: finish_line_def take_data_def dispatch_def prog_defs without_prefix_def byte_order_mark_def)

lemma feed_data_line:
  assumes "ending \<in> line_endings" "plain l" "utf8_valid l" "at_line ending data n d"
    and "n + length (''data: '' @ l @ ending) \<le> MAX_FRAME_BYTES"
  shows "\<exists>d'. feed (''data: '' @ l @ ending) d = (Ok [], d') \<and>
    at_line ending (data @ l @ [line_feed]) (n + length (''data: '' @ l @ ending)) d'"
proof -
  let ?t = "''data: '' @ l"
  let ?d = "d\<lparr>sse_line := ?t, sse_after_cr := False, sse_frame_bytes := sse_frame_bytes d + length ?t\<rparr>"
  have e: "0 < length ending" using assms(1) by auto
  have "plain ?t" using assms(2) by (simp add: plain_def)
  then have f: "feed ?t d = (Ok [], ?d)"
    using assms(4,5) feed_plain [of ?t d] by (simp add: at_line_def)
  let ?c = "?d\<lparr>sse_after_cr := False, sse_frame_bytes := sse_frame_bytes ?d + 1\<rparr>"
  let ?d' = "?c\<lparr>sse_line := [], sse_first_line_seen := True, sse_data := sse_data ?c @ l @ [line_feed]\<rparr>"
  have "finish_line ?c = (Ok [], ?d')"
    using assms(3,4) by (intro finish_data_line) (simp_all add: at_line_def)
  note fin = this
  have lt: "sse_frame_bytes ?d < MAX_FRAME_BYTES" using assms(4,5) e by (cases ending) (simp_all add: at_line_def)
  have "feed ending ?d = (Ok [], ?d'\<lparr>sse_after_cr := ending = [carriage_return]\<rparr>)"
    by (rule feed_ending [OF assms(1) lt _ fin]) simp_all
  from feed_append_Ok [OF f this] show ?thesis
    using assms(4) e by (cases ending) (auto simp: at_line_def simp del: feed.simps)
qed

lemma feed_data_lines:
  assumes "ending \<in> line_endings" "list_all plain ls" "list_all utf8_valid ls" "at_line ending data n d"
    and "n + length (concat (map (\<lambda>l. ''data: '' @ l @ ending) ls)) \<le> MAX_FRAME_BYTES"
  shows "\<exists>d'. feed (concat (map (\<lambda>l. ''data: '' @ l @ ending) ls)) d = (Ok [], d') \<and>
    at_line ending (data @ concat (map (\<lambda>l. l @ [line_feed]) ls)) (n + length (concat (map (\<lambda>l. ''data: '' @ l @ ending) ls))) d'"
  using assms(2-5)
proof (induction ls arbitrary: data n d)
  case (Cons l ls)
  obtain d1 where d1: "feed (''data: '' @ l @ ending) d = (Ok [], d1)"
      "at_line ending (data @ l @ [line_feed]) (n + length (''data: '' @ l @ ending)) d1"
    using feed_data_line [OF assms(1), of l data n d] Cons.prems by auto
  from Cons.IH [OF _ _ d1(2)] Cons.prems obtain d' where
    d': "feed (concat (map (\<lambda>l. ''data: '' @ l @ ending) ls)) d1 = (Ok [], d')"
      "at_line ending ((data @ l @ [line_feed]) @ concat (map (\<lambda>l. l @ [line_feed]) ls))
        (n + length (''data: '' @ l @ ending) + length (concat (map (\<lambda>l. ''data: '' @ l @ ending) ls))) d'"
    by (auto simp: add.assoc)
  have "feed (concat (map (\<lambda>l. ''data: '' @ l @ ending) (l # ls))) d = (Ok [], d')"
    using feed_append_Ok [OF d1(1) d'(1)] by simp
  then show ?case using d'(2) by (auto simp: add.assoc)
qed (auto simp: ret_def)

lemma sse_frame_fed:
  assumes "ending \<in> line_endings" "utf8_valid p" "carriage_return \<notin> set p" "at_line ending [] 0 d"
    and "length (sse_frame ending p) \<le> MAX_FRAME_BYTES"
  shows "\<exists>d'. feed (sse_frame ending p) d = (Ok [p], d') \<and> at_line ending [] 0 d'"
proof -
  let ?ls = "split_on line_feed p"
  let ?c = "concat (map (\<lambda>l. ''data: '' @ l @ ending) ?ls)"
  let ?data = "concat (map (\<lambda>l. l @ [line_feed]) ?ls)"
  have ls: "list_all plain ?ls" "list_all utf8_valid ?ls"
    using assms(2,3) split_on_parts [of _ line_feed p] utf8_valid_split_on [of line_feed p]
    by (auto simp: list_all_iff plain_def)
  have e: "0 < length ending" using assms(1) by auto
  have len: "length ?c + length ending \<le> MAX_FRAME_BYTES" using assms(5) by (simp add: sse_frame_def)
  obtain d1 where d1: "feed ?c d = (Ok [], d1)" "at_line ending ?data (length ?c) d1"
    using feed_data_lines [OF assms(1) ls assms(4)] len by auto
  have ne: "?data \<noteq> []" using split_on_nonempty [of line_feed p] by (cases ?ls) auto
  let ?b = "d1\<lparr>sse_after_cr := False, sse_frame_bytes := sse_frame_bytes d1 + 1\<rparr>"
  have "finish_line ?b = (Ok [butlast (sse_data ?b)],
       ?b\<lparr>sse_line := [], sse_first_line_seen := True, sse_data := [], sse_frame_bytes := 0\<rparr>)"
    using d1(2) ne by (intro finish_empty_line) (simp_all add: at_line_def del: concat_eq_Nil_conv)
  note fin = this
  have p: "butlast (sse_data ?b) = p"
    using d1(2) butlast_concat_terminated [OF split_on_nonempty, of line_feed line_feed p] by (simp add: at_line_def join_split_on)
  have lt: "sse_frame_bytes d1 < MAX_FRAME_BYTES" using d1(2) len e by (cases ending) (simp_all add: at_line_def)
  have "sse_after_cr d1 \<longrightarrow> ending = [carriage_return]" using d1(2) by (simp add: at_line_def)
  from feed_ending [OF assms(1) lt this fin] p have
    "feed ending d1 = (Ok [p], ?b\<lparr>sse_line := [], sse_first_line_seen := True, sse_data := [], sse_frame_bytes := 0,
      sse_after_cr := ending = [carriage_return]\<rparr>)" by simp
  from feed_append_Ok [OF d1(1) this] show ?thesis using d1(2) by (simp add: sse_frame_def at_line_def)
qed

lemma sse_frames_fed:
  assumes "ending \<in> line_endings" "at_line ending [] 0 d"
    and "\<forall>p \<in> set ps. utf8_valid p \<and> carriage_return \<notin> set p \<and> length (sse_frame ending p) \<le> MAX_FRAME_BYTES"
  shows "\<exists>d'. feed (concat (map (sse_frame ending) ps)) d = (Ok ps, d') \<and> at_line ending [] 0 d'"
  using assms(2,3)
proof (induction ps arbitrary: d)
  case (Cons p ps)
  obtain d1 where d1: "feed (sse_frame ending p) d = (Ok [p], d1)" "at_line ending [] 0 d1"
    using sse_frame_fed [OF assms(1) _ _ Cons.prems(1), of p] Cons.prems(2) by auto
  obtain d' where d': "feed (concat (map (sse_frame ending) ps)) d1 = (Ok ps, d')" "at_line ending [] 0 d'"
    using Cons.IH [OF d1(2)] Cons.prems by auto
  have "feed (concat (map (sse_frame ending) (p # ps))) d = (Ok (p # ps), d')"
    using feed_append_Ok [OF d1(1) d'(1)] by simp
  with d'(2) show ?case by blast
qed (simp add: ret_def)

definition decode_stream :: "str list \<Rightarrow> str list sse" where
  "decode_stream chunks =
     then_do (feed_chunks chunks) (\<lambda>frames.
     then_do finish (\<lambda>rest. ret (frames @ rest)))"

section \<open>Properties\<close>

text \<open>C12: payloads that are well-formed text without carriage returns, each framed with one data field per
  line in any of the three line endings and within the frame limit, are decoded exactly, in order and
  completely, whatever the chunks.\<close>

theorem framed_payloads_decoded:
  assumes "ending \<in> line_endings"
    and "\<forall>p \<in> set payloads. utf8_valid p \<and> carriage_return \<notin> set p \<and> length (sse_frame ending p) \<le> MAX_FRAME_BYTES"
    and "concat chunks = concat (map (sse_frame ending) payloads)"
  shows "fst (decode_stream chunks SseDecoder_default) = Ok payloads"
proof -
  have "at_line ending [] 0 SseDecoder_default" by (simp add: at_line_def SseDecoder_default_def)
  from sse_frames_fed [OF assms(1) this assms(2)] obtain d' where
    d': "feed (concat (map (sse_frame ending) payloads)) SseDecoder_default = (Ok payloads, d')" "at_line ending [] 0 d'"
    by blast
  then show ?thesis
    by (simp add: decode_stream_def feed_chunks_concat assms(3) then_do_def finish_def dispatch_def prog_defs at_line_def)
qed

theorem framed_payloads_decoded_witness:
  "fst (decode_stream [''data: a'', [carriage_return], [line_feed] @ ''data: b'' @ [carriage_return, line_feed, carriage_return], [line_feed]]
     SseDecoder_default) = Ok [''a'' @ [line_feed] @ ''b'']"
  by (rule framed_payloads_decoded [where ending = "[carriage_return, line_feed]"])
    (simp_all add: sse_frame_def MAX_FRAME_BYTES_def)

text \<open>C22: from a new decoder of either kind, whatever bytes arrive, the decoder holds at most 8 MiB of partial line and event data
  together, and at most 8 MiB in each of its two labels, also when it has just refused a byte.  An accepted chunk yields frames
  shorter than 8 MiB and leaves at most 8 MiB counted; a refused one leaves at most one byte more counted, which was not kept.\<close>

theorem decoder_memory_bounded:
  "case feed bytes (if strict then strict_prolog else SseDecoder_default) of
     (r, d) \<Rightarrow> length (sse_line d) + length (sse_data d) \<le> 8 * 1024 * 1024 \<and> length (sse_event_label d) \<le> 8 * 1024 * 1024 \<and>
       length (sse_dispatched_label d) \<le> 8 * 1024 * 1024 \<and>
       (case r of
          Inl _ \<Rightarrow> sse_frame_bytes d \<le> 8 * 1024 * 1024 + 1
        | Inr frames \<Rightarrow> list_all (\<lambda>f. length f < 8 * 1024 * 1024) frames \<and> sse_frame_bytes d \<le> 8 * 1024 * 1024)"
proof -
  let ?d = "if strict then strict_prolog else SseDecoder_default"
  have b: "bounded ?d"
    by (simp add: bounded_def counted_def strict_prolog_def SseDecoder_default_def)
  obtain r d where f: "feed bytes ?d = (r, d)" by fastforce
  show ?thesis
  proof (cases r)
    case (Inl e)
    then have "held d" using tripleD_Err [OF bounded_feed b] f by simp
    then show ?thesis unfolding f prod.case Inl sum.case by (simp add: held_def MAX_FRAME_BYTES_def)
  next
    case (Inr frames)
    then have "bounded d" "short_frames frames" using tripleD_Ok [OF bounded_feed b] f by auto
    then show ?thesis using bounded_held [of d] unfolding f prod.case Inr sum.case
      by (simp add: bounded_def held_def MAX_FRAME_BYTES_def)
  qed
qed

end
