(* ===== verification/Finalized.thy ===== *)
theory Finalized
  imports Tools "HOL-Library.Monad_Syntax" "HOL-Library.Multiset"
begin

text \<open>
  Recovery of finalized output items, \<open>src/providers/openai_codex/finalized.rs\<close>: the decoder keeps the
  item events of a response within a byte budget, and when a completed response arrives without output
  it rebuilds the output from the finished items, if every event it saw agrees with them.  A function
  returning \<open>Option<()>\<close> is a predicate; \<open>BTreeMap\<close> and \<open>BTreeSet\<close> locals are association lists and lists.
\<close>

section \<open>Strings\<close>

definition starts_with :: "str \<Rightarrow> str \<Rightarrow> bool" where
  "starts_with s p \<longleftrightarrow> strip_prefix p s \<noteq> None"

definition ends_with :: "str \<Rightarrow> str \<Rightarrow> bool" where
  "ends_with s p \<longleftrightarrow> starts_with (rev s) (rev p)"

fun contains :: "str \<Rightarrow> str \<Rightarrow> bool" where
  "contains [] p \<longleftrightarrow> p = []"
| "contains (c # s) p \<longleftrightarrow> starts_with (c # s) p \<or> contains s p"

section \<open>Observed events\<close>

definition LIMIT :: nat where "LIMIT = 1024 * 1024"

record FinalizedItems =
  fin_events :: "Value list"
  fin_count :: nat
  fin_bytes :: nat
  fin_invalid :: bool
  fin_evidence :: bool

definition FinalizedItems_default :: FinalizedItems where
  "FinalizedItems_default = \<lparr>fin_events = [], fin_count = 0, fin_bytes = 0, fin_invalid = False, fin_evidence = False\<rparr>"

text \<open>\<open>value[key]\<close> compared with a string literal, and \<open>as_str().unwrap_or("")\<close>.\<close>

definition member_is :: "Value \<Rightarrow> str \<Rightarrow> str \<Rightarrow> bool" where
  "member_is v k s \<longleftrightarrow> as_str (index_member v k) = Some s"

definition str_or_empty :: "Value \<Rightarrow> str" where
  "str_or_empty v = (case as_str v of None \<Rightarrow> [] | Some s \<Rightarrow> s)"

definition has_member :: "Value \<Rightarrow> str \<Rightarrow> bool" where
  "has_member v k \<longleftrightarrow> get_member v k \<noteq> None"

definition associated :: "Value \<Rightarrow> bool" where
  "associated v \<longleftrightarrow>
     list_ex (has_member v) [''item'', ''item_id'', ''output_index'', ''content_index'', ''summary_index'', ''call_id''] \<or>
     list_ex (starts_with (str_or_empty (index_member v ''type'')))
       [''response.output_item.'', ''response.output_text.'', ''response.refusal.'', ''response.content_part.'',
        ''response.function_call_arguments.'', ''response.reasoning_'', ''response.custom_tool_call_input.'']"

definition known_kinds :: "str list" where
  "known_kinds =
     [''response.output_item.added'', ''response.output_item.done'', ''response.output_text.delta'',
      ''response.output_text.done'', ''response.refusal.delta'', ''response.refusal.done'',
      ''response.function_call_arguments.delta'', ''response.function_call_arguments.done'',
      ''response.content_part.added'', ''response.content_part.done'', ''response.reasoning_summary_text.delta'',
      ''response.reasoning_summary_text.done'', ''response.reasoning_summary_part.added'',
      ''response.reasoning_summary_part.done'', ''response.reasoning_text.delta'', ''response.reasoning_text.done'',
      ''response.reasoning_text_part.added'', ''response.reasoning_text_part.done'']"

section \<open>Complete items\<close>

definition bounded_text :: "Value \<Rightarrow> bool" where
  "bounded_text v \<longleftrightarrow> (case as_str v of None \<Rightarrow> False | Some s \<Rightarrow> s \<noteq> [] \<and> length s \<le> 512)"

text \<open>\<open>if let Some(a) = part.get(key) { a.as_array()?; }\<close>\<close>

definition optional_array :: "Value \<Rightarrow> str \<Rightarrow> bool" where
  "optional_array v k \<longleftrightarrow> (case get_member v k of None \<Rightarrow> True | Some a \<Rightarrow> as_array a \<noteq> None)"

definition part_ok :: "(str \<times> str) list \<Rightarrow> Value \<Rightarrow> bool" where
  "part_ok kinds part \<longleftrightarrow>
     (case as_str (index_member part ''type'') of
        None \<Rightarrow> False
      | Some kind \<Rightarrow>
          (case map_of kinds kind of
             None \<Rightarrow> False
           | Some field \<Rightarrow> as_str (index_member part field) \<noteq> None \<and> optional_array part ''annotations'' \<and>
               optional_array part ''logprobs''))"

definition parts :: "Value \<Rightarrow> (str \<times> str) list \<Rightarrow> bool" where
  "parts v kinds \<longleftrightarrow> (case as_array v of None \<Rightarrow> False | Some ps \<Rightarrow> list_all (part_ok kinds) ps)"

text \<open>\<open>value.get(key).is_some_and(p)\<close> and \<open>is_none_or\<close>.\<close>

definition member_and :: "Value \<Rightarrow> str \<Rightarrow> (Value \<Rightarrow> bool) \<Rightarrow> bool" where
  "member_and v k p \<longleftrightarrow> (case get_member v k of None \<Rightarrow> False | Some x \<Rightarrow> p x)"

definition message_ok :: "Value \<Rightarrow> bool" where
  "message_ok item \<longleftrightarrow>
     \<not> member_and item ''role'' (\<lambda>v. as_str v \<noteq> Some ''assistant'') \<and>
     parts (index_member item ''content'') [(''output_text'', ''text''), (''refusal'', ''refusal'')]"

definition reasoning_ok :: "Value \<Rightarrow> bool" where
  "reasoning_ok item \<longleftrightarrow>
     (has_member item ''summary'' \<or> has_member item ''content'' \<or> member_and item ''encrypted_content'' (\<lambda>v. v \<noteq> Null)) \<and>
     \<not> member_and item ''summary'' (\<lambda>v. \<not> parts v [(''summary_text'', ''text'')]) \<and>
     \<not> member_and item ''content'' (\<lambda>v. \<not> parts v [(''reasoning_text'', ''text'')]) \<and>
     \<not> member_and item ''encrypted_content'' (\<lambda>v. v \<noteq> Null \<and> as_str v = None)"

definition function_call_ok :: "crates \<Rightarrow> Value \<Rightarrow> bool" where
  "function_call_ok cr item \<longleftrightarrow>
     bounded_text (index_member item ''call_id'') \<and> bounded_text (index_member item ''name'') \<and>
     (case as_str (index_member item ''arguments'') of
        None \<Rightarrow> False
      | Some args \<Rightarrow> length args \<le> LIMIT \<and> (case json_from_slice cr args of None \<Rightarrow> False | Some v \<Rightarrow> is_object v)) \<and>
     \<not> member_and item ''namespace'' (\<lambda>v. v \<noteq> Null) \<and>
     \<not> member_and item ''caller'' (\<lambda>v. v \<noteq> Null \<and> \<not> member_is v ''type'' ''direct'')"

definition ordinary_item :: "crates \<Rightarrow> Value \<Rightarrow> bool" where
  "ordinary_item cr item \<longleftrightarrow>
     \<not> member_and item ''status'' (\<lambda>v. as_str v \<noteq> Some ''completed'') \<and>
     (case as_str (index_member item ''type'') of
        None \<Rightarrow> False
      | Some kind \<Rightarrow>
          if kind = ''message'' then message_ok item
          else if kind = ''reasoning'' then reasoning_ok item
          else if kind = ''function_call'' then function_call_ok cr item
          else False)"

definition complete :: "crates \<Rightarrow> Value \<Rightarrow> bool" where
  "complete cr item \<longleftrightarrow> bounded_text (index_member item ''id'') \<and> ordinary_item cr item"


section \<open>Observing\<close>

definition duplicate_item_event :: "Value list \<Rightarrow> Value \<Rightarrow> str \<Rightarrow> bool" where
  "duplicate_item_event events v kind \<longleftrightarrow>
     list_ex (\<lambda>old. Value_eq (index_member old ''output_index'') (index_member v ''output_index'') \<and>
       (member_is old ''type'' ''response.output_item.done'' \<or>
        (member_is old ''type'' kind \<and> kind = ''response.output_item.added''))) events"

definition unacceptable :: "crates \<Rightarrow> Value list \<Rightarrow> Value \<Rightarrow> bool" where
  "unacceptable cr events v \<longleftrightarrow>
     (let kind = str_or_empty (index_member v ''type'')
      in \<not> kind \<in> set known_kinds \<or>
         (case as_u64 (index_member v ''output_index'') of None \<Rightarrow> True | Some i \<Rightarrow> i \<ge> 512) \<or>
         duplicate_item_event events v kind \<or>
         (kind = ''response.output_item.done'' \<and> \<not> complete cr (index_member v ''item'')))"

text \<open>The byte counter is given what is left of the limit; a value that does not fit makes the record
  invalid.\<close>

definition record_event :: "crates \<Rightarrow> Value \<Rightarrow> FinalizedItems \<Rightarrow> FinalizedItems" where
  "record_event cr v self =
     (case json_to_vec cr v of
        None \<Rightarrow> self\<lparr>fin_invalid := True\<rparr>
      | Some bytes \<Rightarrow>
          if length bytes > LIMIT - fin_bytes self then self\<lparr>fin_invalid := True\<rparr>
          else
            (let self = self\<lparr>fin_bytes := LIMIT - (LIMIT - fin_bytes self - length bytes)\<rparr>;
                 self = self\<lparr>fin_invalid := unacceptable cr (fin_events self) v\<rparr>
             in if fin_invalid self then self else self\<lparr>fin_events := fin_events self @ [v]\<rparr>))"

definition FinalizedItems_observe :: "crates \<Rightarrow> Value \<Rightarrow> FinalizedItems \<Rightarrow> FinalizedItems" where
  "FinalizedItems_observe cr v self =
     (let self = self\<lparr>fin_count := min (fin_count self + 1) (2 ^ 64 - 1), fin_evidence := fin_evidence self \<or> associated v\<rparr>;
          self = (if fin_count self > 4096 then self\<lparr>fin_invalid := True\<rparr> else self);
          self = (if \<not> fin_invalid self \<and> associated v then record_event cr v self else self)
      in if fin_invalid self then self\<lparr>fin_events := []\<rparr> else self)"

section \<open>Agreement with the finished items\<close>

definition opt_value_eq :: "Value option \<Rightarrow> Value option \<Rightarrow> bool" where
  "opt_value_eq a b \<longleftrightarrow> (case (a, b) of (Some x, Some y) \<Rightarrow> Value_eq x y | (None, None) \<Rightarrow> True | _ \<Rightarrow> False)"

definition compatible :: "Value \<Rightarrow> Value \<Rightarrow> bool" where
  "compatible value item \<longleftrightarrow>
     list_all (\<lambda>field. \<not> has_member value field \<or>
        (member_is item ''type'' ''function_call'' \<and>
         (field = ''arguments'' \<or> opt_value_eq (get_member value field) (get_member item field))))
       [''call_id'', ''name'', ''caller'', ''namespace'', ''arguments''] \<and>
     \<not> member_and value ''role'' (\<lambda>role. \<not> member_is item ''type'' ''message'' \<or> as_str role \<noteq> Some ''assistant'' \<or>
         member_and item ''role'' (\<lambda>done_role. \<not> Value_eq role done_role)) \<and>
     \<not> (has_member value ''content'' \<and> member_is item ''type'' ''function_call'') \<and>
     \<not> (has_member value ''summary'' \<and> \<not> member_is item ''type'' ''reasoning'')"

definition provisional_field :: "str \<Rightarrow> str \<Rightarrow> str \<Rightarrow> str option" where
  "provisional_field kind array part =
     (if (kind = ''message'' \<and> array = ''content'' \<and> part = ''output_text'') \<or>
         (kind = ''reasoning'' \<and> array = ''content'' \<and> part = ''reasoning_text'') \<or>
         (kind = ''reasoning'' \<and> array = ''summary'' \<and> part = ''summary_text'') then Some ''text''
      else if kind = ''message'' \<and> array = ''content'' \<and> part = ''refusal'' then Some ''refusal''
      else None)"

text \<open>\<open>target[field].as_str()?.starts_with(part[field].as_str()?)\<close>\<close>

definition text_extends :: "Value \<Rightarrow> Value \<Rightarrow> bool" where
  "text_extends target part \<longleftrightarrow>
     (case (as_str target, as_str part) of (Some t, Some p) \<Rightarrow> starts_with t p | _ \<Rightarrow> False)"

definition provisional_part :: "Value \<Rightarrow> str \<Rightarrow> Value \<times> Value \<Rightarrow> bool" where
  "provisional_part item array = (\<lambda>(part, target).
     (case (as_str (index_member item ''type''), as_str (index_member part ''type'')) of
        (Some kind, Some part_kind) \<Rightarrow>
          (case provisional_field kind array part_kind of
             None \<Rightarrow> False
           | Some field \<Rightarrow> Value_eq (index_member part ''type'') (index_member target ''type'') \<and>
               text_extends (index_member target field) (index_member part field))
      | _ \<Rightarrow> False))"

definition provisional_array :: "Value \<Rightarrow> Value \<Rightarrow> str \<Rightarrow> bool" where
  "provisional_array value item array \<longleftrightarrow>
     (case get_member value array of
        None \<Rightarrow> True
      | Some given \<Rightarrow>
          (case (as_array given, case get_member item array of None \<Rightarrow> Some [] | Some ps \<Rightarrow> as_array ps) of
             (Some provided, Some finalized) \<Rightarrow>
               length provided \<le> length finalized \<and> list_all (provisional_part item array) (zip provided finalized)
           | _ \<Rightarrow> False))"

definition provisional_content :: "Value \<Rightarrow> Value \<Rightarrow> bool" where
  "provisional_content value item \<longleftrightarrow>
     \<not> member_and value ''arguments'' (\<lambda>arguments. \<not> text_extends (index_member item ''arguments'') arguments) \<and>
     provisional_array value item ''content'' \<and> provisional_array value item ''summary''"

section \<open>Validation\<close>

text \<open>\<open>v.pointer("/response/id")\<close>\<close>

definition pointer2 :: "Value \<Rightarrow> str \<Rightarrow> str \<Rightarrow> Value option" where
  "pointer2 v a b = Option.bind (get_member v a) (\<lambda>x. get_member x b)"

definition wrong_response :: "str \<Rightarrow> Value \<Rightarrow> bool" where
  "wrong_response rid v \<longleftrightarrow>
     member_and v ''response_id'' (\<lambda>i. as_str i \<noteq> Some rid) \<or>
     (case pointer2 v ''response'' ''id'' of None \<Rightarrow> False | Some i \<Rightarrow> as_str i \<noteq> Some rid)"

text \<open>The first pass: the finished items by output index, with the item ids and call ids seen.\<close>

type_synonym done_items = "(u64 \<times> Value) list \<times> str list \<times> str list"

definition done_event :: "crates \<Rightarrow> str \<Rightarrow> Value \<Rightarrow> done_items \<Rightarrow> done_items option" where
  "done_event cr rid v = (\<lambda>(done, ids, calls).
     if wrong_response rid v then None
     else if \<not> member_is v ''type'' ''response.output_item.done'' then Some (done, ids, calls)
     else do {
       index \<leftarrow> as_u64 (index_member v ''output_index'');
       if index \<ge> 512 then None else do {
         item \<leftarrow> get_member v ''item'';
         if \<not> complete cr item then None else do {
           i \<leftarrow> as_str (index_member item ''id'');
           if i \<in> set ids \<or> index \<in> fst ` set done then None
           else if member_is item ''type'' ''function_call'' then do {
             call \<leftarrow> as_str (index_member item ''call_id'');
             if call \<in> set calls then None else Some ((index, item) # done, i # ids, call # calls)
           }
           else Some ((index, item) # done, i # ids, calls)
         }
       }
     })"

fun done_events :: "crates \<Rightarrow> str \<Rightarrow> Value list \<Rightarrow> done_items \<Rightarrow> done_items option" where
  "done_events cr rid [] acc = Some acc"
| "done_events cr rid (v # vs) acc =
     Option.bind (done_event cr rid v acc) (done_events cr rid vs)"

text \<open>\<open>done\<close> as the \<open>BTreeMap\<close> iterates it.\<close>

definition by_index :: "(u64 \<times> Value) list \<Rightarrow> (u64 \<times> Value) list" where
  "by_index done = sort_key fst done"

definition contiguous :: "(u64 \<times> Value) list \<Rightarrow> bool" where
  "contiguous done \<longleftrightarrow> map fst (by_index done) = map of_nat [0..<length done]"


text \<open>The second pass: every event must agree with the finished item of its index.\<close>

type_synonym part_key = "u64 \<times> str \<times> u64"

record Seen =
  seen_added :: "u64 list"
  seen_finished :: "u64 list"
  seen_finals :: "(part_key \<times> str) list"
  seen_fragments :: "part_key \<Rightarrow> str option"

definition Seen_empty :: Seen where
  "Seen_empty = \<lparr>seen_added = [], seen_finished = [], seen_finals = [], seen_fragments = (\<lambda>_. None)\<rparr>"

definition array_get :: "Value list \<Rightarrow> u64 \<Rightarrow> Value option" where
  "array_get vs i = (if unat i < length vs then Some (vs ! unat i) else None)"

definition content_kinds :: "str list" where
  "content_kinds =
     [''response.output_text.delta'', ''response.output_text.done'', ''response.refusal.delta'', ''response.refusal.done'',
      ''response.content_part.added'', ''response.content_part.done'', ''response.reasoning_text.delta'',
      ''response.reasoning_text.done'', ''response.reasoning_text_part.added'', ''response.reasoning_text_part.done'']"

definition summary_kinds :: "str list" where
  "summary_kinds =
     [''response.reasoning_summary_text.delta'', ''response.reasoning_summary_text.done'',
      ''response.reasoning_summary_part.added'', ''response.reasoning_summary_part.done'']"

definition content_part :: "str \<Rightarrow> (str \<times> str) option" where
  "content_part t =
     (if t = ''output_text'' then Some (''message'', ''text'')
      else if t = ''refusal'' then Some (''message'', ''refusal'')
      else if t = ''reasoning_text'' then Some (''reasoning'', ''text'')
      else None)"

definition matches_family :: "str \<Rightarrow> str \<Rightarrow> bool" where
  "matches_family kind t \<longleftrightarrow>
     (if starts_with kind ''response.content_part.'' then True
      else if starts_with kind ''response.reasoning_text_part.'' then t = ''reasoning_text''
      else starts_with kind (''response.'' @ t @ ''.''))"

text \<open>Family, text field, part index and the finished part an event is about.\<close>

definition part_target :: "Value \<Rightarrow> Value \<Rightarrow> str \<Rightarrow> (str \<times> str \<times> u64 \<times> Value) option" where
  "part_target v item kind =
     (if kind = ''response.function_call_arguments.delta'' \<or> kind = ''response.function_call_arguments.done'' then
        if \<not> member_is item ''type'' ''function_call'' then None else Some (''arguments'', ''arguments'', 0, item)
      else if kind \<in> set content_kinds then do {
        i \<leftarrow> as_u64 (index_member v ''content_index'');
        ps \<leftarrow> as_array (index_member item ''content'');
        target \<leftarrow> array_get ps i;
        t \<leftarrow> as_str (index_member target ''type'');
        (expected_item, field) \<leftarrow> content_part t;
        if \<not> member_is item ''type'' expected_item then None
        else if \<not> matches_family kind t then None
        else Some (''content'', field, i, target)
      }
      else if kind \<in> set summary_kinds then
        if \<not> member_is item ''type'' ''reasoning'' then None else do {
          i \<leftarrow> as_u64 (index_member v ''summary_index'');
          ps \<leftarrow> as_array (index_member item ''summary'');
          target \<leftarrow> array_get ps i;
          Some (''summary'', ''text'', i, target)
        }
      else None)"

definition insert_final :: "part_key \<times> str \<Rightarrow> Seen \<Rightarrow> Seen" where
  "insert_final k seen = seen\<lparr>seen_finals := k # seen_finals seen\<rparr>"

definition part_event :: "Value \<Rightarrow> str \<Rightarrow> part_key \<Rightarrow> str \<Rightarrow> Value \<Rightarrow> Seen \<Rightarrow> Seen option" where
  "part_event v kind key field target seen = do {
     final_text \<leftarrow> as_str (index_member target field);
     if ends_with kind ''.delta'' then
       if (key, ''field'') \<in> set (seen_finals seen) \<or> (key, ''part'') \<in> set (seen_finals seen) then None else do {
         delta \<leftarrow> as_str (index_member v ''delta'');
         let text = (case seen_fragments seen key of None \<Rightarrow> [] | Some f \<Rightarrow> f) @ delta;
         if \<not> starts_with final_text text then None
         else Some (seen\<lparr>seen_fragments := (seen_fragments seen)(key \<mapsto> text)\<rparr>)
       }
     else if contains kind ''part.'' then
       (let part = index_member v ''part''
        in if \<not> Value_eq (index_member part ''type'') (index_member target ''type'') then None else do {
             text \<leftarrow> as_str (index_member part field);
             if ends_with kind ''.done'' then
               if (key, ''part'') \<in> set (seen_finals seen) \<or> \<not> Value_eq part target then None
               else Some (insert_final (key, ''part'') seen)
             else if (key, ''added'') \<in> set (seen_finals seen) \<or> (key, ''part'') \<in> set (seen_finals seen) \<or>
                     \<not> starts_with final_text text then None
             else Some (insert_final (key, ''added'') seen)
           })
     else if (key, ''field'') \<in> set (seen_finals seen) then None else do {
       text \<leftarrow> as_str (index_member v field);
       if text \<noteq> final_text then None else Some (insert_final (key, ''field'') seen)
     }
   }"

text \<open>What an added or done event may carry besides its item.\<close>

definition item_event_ok :: "Value \<Rightarrow> Value \<Rightarrow> str \<Rightarrow> bool" where
  "item_event_ok v item kind \<longleftrightarrow>
     (if kind = ''response.output_item.added'' \<or> kind = ''response.output_item.done'' then
        \<not> list_ex (has_member v) [''content_index'', ''summary_index'', ''part'', ''delta'', ''text'', ''refusal'', ''arguments''] \<and>
        member_and v ''item'' (\<lambda>nested. compatible nested item \<and>
          list_all (\<lambda>field. opt_value_eq (get_member nested field) (get_member item field)) [''id'', ''type''])
      else \<not> has_member v ''item'')"

definition agree_event :: "(u64 \<times> Value) list \<Rightarrow> Value \<Rightarrow> Seen \<Rightarrow> Seen option" where
  "agree_event done v seen = do {
     index \<leftarrow> as_u64 (index_member v ''output_index'');
     item \<leftarrow> map_of done index;
     kind \<leftarrow> as_str (index_member v ''type'');
     if member_and v ''item_id'' (\<lambda>i. \<not> Value_eq i (index_member item ''id'')) then None
     else if \<not> compatible v item then None
     else if \<not> item_event_ok v item kind then None
     else if kind = ''response.output_item.done'' then Some (seen\<lparr>seen_finished := index # seen_finished seen\<rparr>)
     else if index \<in> set (seen_finished seen) then None
     else if kind = ''response.output_item.added'' then
       if \<not> provisional_content (index_member v ''item'') item then None
       else if index \<in> set (seen_added seen) then None
       else Some (seen\<lparr>seen_added := index # seen_added seen\<rparr>)
     else if \<not> Value_eq (index_member v ''item_id'') (index_member item ''id'') then None
     else do {
       (family, field, part_index, target) \<leftarrow> part_target v item kind;
       if (family \<noteq> ''content'' \<and> has_member v ''content_index'') \<or> (family \<noteq> ''summary'' \<and> has_member v ''summary_index'') then None
       else part_event v kind (index, family, part_index) field target seen
     }
   }"

fun agree_events :: "(u64 \<times> Value) list \<Rightarrow> Value list \<Rightarrow> Seen \<Rightarrow> Seen option" where
  "agree_events done [] seen = Some seen"
| "agree_events done (v # vs) seen = Option.bind (agree_event done v seen) (agree_events done vs)"

definition validate :: "crates \<Rightarrow> Value list \<Rightarrow> str \<Rightarrow> Value list option" where
  "validate cr events rid = do {
     (done, _, _) \<leftarrow> done_events cr rid events ([], [], []);
     if done = [] \<or> \<not> contiguous done then None else do {
       agree_events done events Seen_empty;
       Some (map snd (by_index done))
     }
   }"

definition recover :: "crates \<Rightarrow> str \<Rightarrow> (FinalizedItems, GatewayError, Value list) prog" where
  "recover cr rid =
     then_do (read (\<lambda>self. if fin_invalid self then None else if \<not> fin_evidence self then Some []
        else validate cr (fin_events self) rid)) (\<lambda>result.
     then_do (update (\<lambda>self. self\<lparr>fin_events := [], fin_invalid := fin_invalid self \<or> result = None\<rparr>)) (\<lambda>_.
     from_result (ok_or (Protocol ''invalid finalized output recovery'') result)))"


section \<open>What is kept\<close>

abbreviation observe_all :: "crates \<Rightarrow> Value list \<Rightarrow> FinalizedItems" where
  "observe_all cr vs \<equiv> fold (FinalizedItems_observe cr) vs FinalizedItems_default"

definition encoded_length :: "crates \<Rightarrow> Value \<Rightarrow> nat" where
  "encoded_length cr v = (case json_to_vec cr v of None \<Rightarrow> 0 | Some bytes \<Rightarrow> length bytes)"

definition within_budget :: "crates \<Rightarrow> FinalizedItems \<Rightarrow> bool" where
  "within_budget cr f \<longleftrightarrow> sum_list (map (encoded_length cr) (fin_events f)) \<le> fin_bytes f \<and> fin_bytes f \<le> LIMIT \<and>
     length (fin_events f) \<le> fin_count f \<and> (fin_events f = [] \<or> fin_count f \<le> 4096)"

lemma within_budget_observe: "within_budget cr f \<Longrightarrow> within_budget cr (FinalizedItems_observe cr v f)"
  by (auto simp: within_budget_def FinalizedItems_observe_def record_event_def encoded_length_def Let_def split: option.split)

lemma within_budget_all: "within_budget cr f \<Longrightarrow> within_budget cr (fold (FinalizedItems_observe cr) vs f)"
  by (induction vs arbitrary: f) (simp_all add: within_budget_observe)

lemma within_budget_default: "within_budget cr FinalizedItems_default"
  by (simp add: within_budget_def FinalizedItems_default_def)

lemma observe_invalid: "fin_invalid f \<Longrightarrow> fin_invalid (FinalizedItems_observe cr v f)"
  by (simp add: FinalizedItems_observe_def Let_def)

lemma observe_all_invalid: "fin_invalid f \<Longrightarrow> fin_invalid (fold (FinalizedItems_observe cr) vs f)"
  by (induction vs arbitrary: f) (simp_all add: observe_invalid)

lemma observe_valid:
  "\<not> fin_invalid (FinalizedItems_observe cr v f) \<Longrightarrow>
     fin_events (FinalizedItems_observe cr v f) = fin_events f @ (if associated v then [v] else []) \<and>
     fin_evidence (FinalizedItems_observe cr v f) = (fin_evidence f \<or> associated v)"
  by (auto simp: FinalizedItems_observe_def record_event_def Let_def split: option.splits if_splits)

lemma observe_all_valid:
  "\<not> fin_invalid (fold (FinalizedItems_observe cr) vs f) \<Longrightarrow>
     fin_events (fold (FinalizedItems_observe cr) vs f) = fin_events f @ filter associated vs \<and>
     fin_evidence (fold (FinalizedItems_observe cr) vs f) = (fin_evidence f \<or> list_ex associated vs)"
proof (induction vs arbitrary: f)
  case (Cons v vs)
  let ?g = "FinalizedItems_observe cr v f"
  have g: "\<not> fin_invalid ?g" using Cons.prems observe_all_invalid [of ?g cr vs] by auto
  show ?case using Cons.IH [of ?g] Cons.prems observe_valid [OF g] by auto
qed simp

section \<open>What is recovered\<close>

abbreviation item_done :: "Value \<Rightarrow> bool" where
  "item_done v \<equiv> member_is v ''type'' ''response.output_item.done''"

abbreviation item_of :: "Value \<Rightarrow> Value" where
  "item_of v \<equiv> index_member v ''item''"

definition output_index_of :: "Value \<Rightarrow> u64" where
  "output_index_of v = the (as_u64 (index_member v ''output_index''))"

abbreviation is_call :: "Value \<Rightarrow> bool" where
  "is_call item \<equiv> member_is item ''type'' ''function_call''"

definition member_text :: "str \<Rightarrow> Value \<Rightarrow> str" where
  "member_text k item = the (as_str (index_member item k))"

lemma done_event_other: "done_event cr rid v (d, i, c) = Some acc \<Longrightarrow> \<not> item_done v \<Longrightarrow> acc = (d, i, c)"
  by (auto simp: done_event_def split: if_splits)

lemma done_event_item:
  assumes "done_event cr rid v (d, i, c) = Some acc" "item_done v"
  shows "complete cr (item_of v) \<and> output_index_of v \<notin> fst ` set d \<and> member_text ''id'' (item_of v) \<notin> set i \<and>
    (is_call (item_of v) \<longrightarrow> member_text ''call_id'' (item_of v) \<notin> set c) \<and> output_index_of v < 512 \<and>
    acc = ((output_index_of v, item_of v) # d, member_text ''id'' (item_of v) # i,
      (if is_call (item_of v) then [member_text ''call_id'' (item_of v)] else []) @ c)"
  using assms
  by (auto simp: done_event_def output_index_of_def member_text_def index_member_def split: if_splits bind_splits)

lemma done_events_result:
  assumes "done_events cr rid vs (d, i, c) = Some (d', i', c')" "distinct (map fst d)" "distinct i" "distinct c"
  shows "d' = rev (map (\<lambda>v. (output_index_of v, item_of v)) (filter item_done vs)) @ d \<and>
    i' = rev (map (member_text ''id'' \<circ> item_of) (filter item_done vs)) @ i \<and>
    c' = rev (map (member_text ''call_id'') (filter is_call (map item_of (filter item_done vs)))) @ c \<and>
    distinct (map fst d') \<and> distinct i' \<and> distinct c' \<and>
    list_all (\<lambda>v. complete cr (item_of v)) (filter item_done vs)"
  using assms
proof (induction vs arbitrary: d i c)
  case (Cons v vs)
  then obtain d1 i1 c1 where e: "done_event cr rid v (d, i, c) = Some (d1, i1, c1)"
      and r: "done_events cr rid vs (d1, i1, c1) = Some (d', i', c')"
    by (auto split: bind_splits)
  show ?case
  proof (cases "item_done v")
    case True
    note di = done_event_item [OF e True]
    then have "distinct (map fst d1)" "distinct i1" "distinct c1" using Cons.prems(2-4) by (simp_all split: if_splits)
    note ih = Cons.IH [OF r this]
    have "distinct (map fst d') \<and> distinct i' \<and> distinct c'" using ih by blast
    moreover have "d' = rev (map (\<lambda>v. (output_index_of v, item_of v)) (filter item_done (v # vs))) @ d"
      using ih di True by simp
    moreover have "i' = rev (map (member_text ''id'' \<circ> item_of) (filter item_done (v # vs))) @ i"
      using ih di True by simp
    moreover have "c' = rev (map (member_text ''call_id'') (filter is_call (map item_of (filter item_done (v # vs))))) @ c"
      using ih di True by simp
    moreover have "list_all (\<lambda>v. complete cr (item_of v)) (filter item_done (v # vs))"
      using ih di True by simp
    ultimately show ?thesis by blast
  next
    case False
    then have f: "filter item_done (v # vs) = filter item_done vs" by simp
    show ?thesis unfolding f using done_event_other [OF e False] Cons.IH [OF r] Cons.prems(2-4) by blast
  qed
qed simp

lemma insort_key_map: "insort_key f (g x) (map g xs) = map g (insort_key (\<lambda>x. f (g x)) x xs)"
  by (induction xs) simp_all

lemma sort_key_map: "sort_key f (map g xs) = map g (sort_key (\<lambda>x. f (g x)) xs)"
  by (induction xs) (simp_all add: insort_key_map)

lemma by_index_rev: "distinct (map fst d) \<Longrightarrow> by_index (rev d) = by_index d"
  unfolding by_index_def
  by (rule sort_key_inj_key_eq) (auto simp: distinct_map intro: inj_on_subset)


lemma complete_item_text: "complete cr item \<Longrightarrow> as_str (index_member item ''id'') = Some (member_text ''id'' item)"
  by (auto simp: complete_def bounded_text_def member_text_def split: option.splits)

lemma validate_result:
  assumes "validate cr events rid = Some items"
  shows "items = map item_of (sort_key output_index_of (filter item_done events)) \<and>
    map output_index_of (sort_key output_index_of (filter item_done events)) = map of_nat [0..<length items] \<and>
    list_all (complete cr) items \<and> distinct (map (member_text ''id'') items) \<and>
    distinct (map (member_text ''call_id'') (filter is_call items))"
proof -
  let ?D = "filter item_done events" and ?entry = "\<lambda>v. (output_index_of v, item_of v)"
  let ?S = "sort_key output_index_of ?D"
  obtain d i c where d: "done_events cr rid events ([], [], []) = Some (d, i, c)"
      and ok: "contiguous d" and items: "items = map snd (by_index d)"
    using assms by (auto simp: validate_def split: bind_splits if_splits)
  note r = done_events_result [OF d]
  have eq: "d = rev (map ?entry ?D)" and comp: "list_all (complete cr) (map item_of ?D)"
    using r by (simp_all add: list_all_iff)
  have "distinct (rev (map fst (map ?entry ?D)))" "distinct (rev (map (member_text ''id'') (map item_of ?D)))"
    "distinct (rev (map (member_text ''call_id'') (filter is_call (map item_of ?D))))"
    using r by (auto simp: rev_map)
  then have dist: "distinct (map fst (map ?entry ?D))" and ids: "distinct (map (member_text ''id'') (map item_of ?D))"
    and calls: "distinct (map (member_text ''call_id'') (filter is_call (map item_of ?D)))"
    by (simp_all only: distinct_rev)
  have b: "by_index d = map ?entry ?S"
    unfolding eq by_index_rev [OF dist] by (simp add: by_index_def sort_key_map)
  have items': "items = map item_of ?S" by (simp add: items b comp_def)
  have "length d = length items" unfolding items' eq by simp
  then have "map output_index_of ?S = map of_nat [0..<length items]"
    using ok by (simp add: contiguous_def b comp_def)
  moreover have "mset (map (member_text ''id'') items) = mset (map (member_text ''id'') (map item_of ?D))"
    unfolding items' by simp
  then have "distinct (map (member_text ''id'') items)" using ids mset_eq_imp_distinct_iff by blast
  moreover have "mset (map (member_text ''call_id'') (filter is_call items)) =
      mset (map (member_text ''call_id'') (filter is_call (map item_of ?D)))"
    unfolding items' by simp
  then have "distinct (map (member_text ''call_id'') (filter is_call items))" using calls mset_eq_imp_distinct_iff by blast
  moreover have "list_all (complete cr) items" unfolding items' using comp by (simp add: list_all_iff)
  ultimately show ?thesis using items' by blast
qed

definition recovered :: "crates \<Rightarrow> Value list \<Rightarrow> Value list \<Rightarrow> bool" where
  "recovered cr values items \<longleftrightarrow>
     items = map item_of (sort_key output_index_of (filter item_done values)) \<and>
     map output_index_of (sort_key output_index_of (filter item_done values)) = map of_nat [0..<length items] \<and>
     list_all (complete cr) items \<and> distinct (map (member_text ''id'') items) \<and>
     distinct (map (member_text ''call_id'') (filter is_call items))"

lemma item_done_associated: "item_done v \<Longrightarrow> associated v"
  by (simp add: member_is_def associated_def str_or_empty_def starts_with_def)

lemma recover_recovered:
  assumes "recover cr rid (observe_all cr values) = (Ok items, f)"
  shows "recovered cr values items"
proof -
  let ?f = "observe_all cr values"
  from assms have v: "\<not> fin_invalid ?f"
    and r: "(if \<not> fin_evidence ?f then Some [] else validate cr (fin_events ?f) rid) = Some items"
    by (auto simp: recover_def prog_defs ok_or_Ok_iff split: if_splits)
  note k = observe_all_valid [OF v]
  have fd: "filter item_done (filter associated values) = filter item_done values"
    by (auto intro!: filter_cong simp: item_done_associated)
  show ?thesis
  proof (cases "fin_evidence ?f")
    case True
    then have "validate cr (filter associated values) rid = Some items" using r k by (simp add: FinalizedItems_default_def)
    from validate_result [OF this] show ?thesis unfolding recovered_def fd .
  next
    case False
    then have "\<not> list_ex associated values" "items = []" using r k by simp_all
    then have "filter item_done values = []" using item_done_associated by (auto simp: list_ex_iff filter_empty_conv)
    then show ?thesis using \<open>items = []\<close> by (simp add: recovered_def)
  qed
qed


section \<open>Streamed text\<close>

text \<open>The text a part key names in the finished items, and the part and fragment a delta event is about.\<close>

definition final_text :: "(u64 \<Rightarrow> Value option) \<Rightarrow> part_key \<Rightarrow> str option" where
  "final_text items = (\<lambda>(index, family, i). do {
     item \<leftarrow> items index;
     if family = ''arguments'' then as_str (index_member item ''arguments'')
     else do {
       ps \<leftarrow> as_array (index_member item family);
       target \<leftarrow> array_get ps i;
       if family = ''content'' then do {
         t \<leftarrow> as_str (index_member target ''type'');
         (_, field) \<leftarrow> content_part t;
         as_str (index_member target field)
       }
       else as_str (index_member target ''text'')
     }
   })"

definition delta_of :: "(u64 \<Rightarrow> Value option) \<Rightarrow> Value \<Rightarrow> (part_key \<times> str) option" where
  "delta_of items v = do {
     index \<leftarrow> as_u64 (index_member v ''output_index'');
     item \<leftarrow> items index;
     kind \<leftarrow> as_str (index_member v ''type'');
     (family, _, i, _) \<leftarrow> part_target v item kind;
     delta \<leftarrow> as_str (index_member v ''delta'');
     if ends_with kind ''.delta'' then Some ((index, family, i), delta) else None
   }"

definition streamed :: "(u64 \<Rightarrow> Value option) \<Rightarrow> part_key \<Rightarrow> Value list \<Rightarrow> str" where
  "streamed items key vs = concat (map (\<lambda>v. case delta_of items v of None \<Rightarrow> [] | Some (k, d) \<Rightarrow> if k = key then d else []) vs)"

definition fragment :: "Seen \<Rightarrow> part_key \<Rightarrow> str" where
  "fragment seen key = (case seen_fragments seen key of None \<Rightarrow> [] | Some f \<Rightarrow> f)"

text \<open>Every fragment collected so far is a prefix of the finished text.\<close>

definition agreeing :: "(u64 \<Rightarrow> Value option) \<Rightarrow> Seen \<Rightarrow> bool" where
  "agreeing items seen \<longleftrightarrow>
     (\<forall>key. seen_fragments seen key \<noteq> None \<longrightarrow> (\<exists>t. final_text items key = Some t \<and> starts_with t (fragment seen key)))"

lemma part_target_text:
  "part_target v item kind = Some (family, field, i, target) \<Longrightarrow> items index = Some item \<Longrightarrow>
     final_text items (index, family, i) = as_str (index_member target field)"
  by (auto simp: part_target_def final_text_def bind_eq_Some_conv split: if_splits)

lemma part_target_item_kinds:
  "part_target v item ''response.output_item.added'' = None" "part_target v item ''response.output_item.done'' = None"
  by (simp_all add: part_target_def content_kinds_def summary_kinds_def)

lemma part_event_delta:
  assumes "part_event v kind key field target seen = Some seen'" "ends_with kind ''.delta''"
  shows "\<exists>d t. as_str (index_member v ''delta'') = Some d \<and> as_str (index_member target field) = Some t \<and>
    starts_with t (fragment seen key @ d) \<and> seen_fragments seen' = (seen_fragments seen)(key \<mapsto> fragment seen key @ d)"
  using assms by (auto simp: part_event_def fragment_def Let_def bind_eq_Some_conv split: if_splits)

lemma part_event_other:
  assumes "part_event v kind key field target seen = Some seen'" "\<not> ends_with kind ''.delta''"
  shows "seen_fragments seen' = seen_fragments seen"
  using assms by (auto simp: part_event_def insert_final_def Let_def bind_eq_Some_conv split: if_splits)

lemma agree_event_fragments:
  assumes "agree_event done v seen = Some seen'"
  shows "case delta_of (map_of done) v of
      None \<Rightarrow> seen_fragments seen' = seen_fragments seen
    | Some (key, d) \<Rightarrow> seen_fragments seen' = (seen_fragments seen)(key \<mapsto> fragment seen key @ d) \<and>
        (\<exists>t. final_text (map_of done) key = Some t \<and> starts_with t (fragment seen key @ d))"
proof -
  obtain index item kind where v: "as_u64 (index_member v ''output_index'') = Some index" "map_of done index = Some item"
      "as_str (index_member v ''type'') = Some kind"
    using assms by (auto simp: agree_event_def bind_eq_Some_conv)
  show ?thesis
  proof (cases "part_target v item kind")
    case None
    then have "seen_fragments seen' = seen_fragments seen"
      using assms v by (auto simp: agree_event_def split: if_splits)
    then show ?thesis using v None by (simp add: delta_of_def)
  next
    case (Some p)
    obtain family field i target where p: "p = (family, field, i, target)" by (cases p) auto
    have "kind \<noteq> ''response.output_item.added''" "kind \<noteq> ''response.output_item.done''"
      using Some part_target_item_kinds by auto
    then have e: "part_event v kind (index, family, i) field target seen = Some seen'"
      using assms v Some p by (auto simp: agree_event_def split: if_splits)
    show ?thesis
    proof (cases "ends_with kind ''.delta''")
      case True
      from part_event_delta [OF e True] part_target_text [OF Some [unfolded p], of "map_of done" index, OF v(2)] show ?thesis
        using v Some p True by (auto simp: delta_of_def)
    next
      case False
      from part_event_other [OF e False] show ?thesis
        using v Some p False by (auto simp: delta_of_def split: bind_splits)
    qed
  qed
qed

lemma agree_events_fragments:
  assumes "agree_events done vs seen = Some seen'" "agreeing (map_of done) seen"
  shows "agreeing (map_of done) seen' \<and> fragment seen' key = fragment seen key @ streamed (map_of done) key vs"
  using assms
proof (induction vs arbitrary: seen)
  case Nil
  then show ?case by (simp add: streamed_def)
next
  case (Cons v vs)
  then obtain s1 where s1: "agree_event done v seen = Some s1" and r: "agree_events done vs s1 = Some seen'"
    by (auto simp: bind_eq_Some_conv)
  note f = agree_event_fragments [OF s1]
  have "agreeing (map_of done) s1 \<and> fragment s1 key = fragment seen key @ streamed (map_of done) key [v]"
    using f Cons.prems(2) by (auto simp: agreeing_def fragment_def streamed_def split: option.splits if_splits)
  with Cons.IH [OF r] show ?case by (simp add: streamed_def)
qed

lemma map_of_by_index: "distinct (map fst d) \<Longrightarrow> map_of (by_index d) = map_of d"
  by (subst map_of_inject_set) (simp_all add: by_index_def distinct_map)

lemma validate_streamed:
  assumes "validate cr events rid = Some items"
  shows "streamed (map_of (zip (map of_nat [0..<length items]) items)) key events = [] \<or>
    (\<exists>t. final_text (map_of (zip (map of_nat [0..<length items]) items)) key = Some t \<and>
      starts_with t (streamed (map_of (zip (map of_nat [0..<length items]) items)) key events))"
proof -
  obtain d i c seen where d: "done_events cr rid events ([], [], []) = Some (d, i, c)"
      and ok: "contiguous d" and items: "items = map snd (by_index d)" and a: "agree_events d events Seen_empty = Some seen"
    using assms by (auto simp: validate_def bind_eq_Some_conv split: if_splits)
  have dist: "distinct (map fst d)" using done_events_result [OF d] by auto
  have "length items = length d" by (simp add: items by_index_def)
  then have "zip (map of_nat [0..<length items]) items = by_index d"
    using ok zip_map_fst_snd [of "by_index d"] by (simp add: contiguous_def items)
  then have m: "map_of (zip (map of_nat [0..<length items]) items) = map_of d" using map_of_by_index [OF dist] by simp
  have e: "agreeing (map_of d) Seen_empty" by (simp add: agreeing_def Seen_empty_def)
  have f: "fragment seen key = streamed (map_of d) key events"
    using agree_events_fragments [OF a e, of key] by (simp add: fragment_def Seen_empty_def)
  have "agreeing (map_of d) seen" using agree_events_fragments [OF a e] by blast
  from this [unfolded agreeing_def, rule_format, of key] show ?thesis
    unfolding m using f [symmetric] by (cases "seen_fragments seen key") (auto simp: fragment_def)
qed

section \<open>Properties\<close>

definition example_item :: Value where
  "example_item =
     Object [(''content'', Array [Object [(''text'', String ''hello''), (''type'', String ''output_text'')]]),
       (''id'', String ''m1''), (''type'', String ''message'')]"

definition example_delta :: Value where
  "example_delta =
     Object [(''content_index'', Number (PosInt 0)), (''delta'', String ''hel''), (''item_id'', String ''m1''),
       (''output_index'', Number (PosInt 0)), (''type'', String ''response.output_text.delta'')]"

definition example_done :: Value where
  "example_done =
     Object [(''item'', example_item), (''output_index'', Number (PosInt 0)), (''type'', String ''response.output_item.done'')]"

lemma example_encoded: "json_to_vec example_crates example_delta = Some ''null''" "json_to_vec example_crates example_done = Some ''null''"
  by code_simp+

lemma example_associated: "associated example_delta" "associated example_done"
  by code_simp+

lemma example_acceptable: "\<not> unacceptable example_crates [] example_delta" "\<not> unacceptable example_crates [example_delta] example_done"
  by code_simp+

lemma example_observed:
  "observe_all example_crates [example_delta, example_done] =
     \<lparr>fin_events = [example_delta, example_done], fin_count = 2, fin_bytes = 8, fin_invalid = False, fin_evidence = True\<rparr>"
  by (simp add: FinalizedItems_observe_def record_event_def example_encoded example_associated example_acceptable
      FinalizedItems_default_def LIMIT_def Let_def)

lemma example_validated: "validate example_crates [example_delta, example_done] ''r'' = Some [example_item]"
  by code_simp

text \<open>C23: whatever events are observed, the serialized size of the retained ones fits in the bytes counted, the
  count never passes 1 MiB (so the remaining budget never underflows), and at most 4096 events are kept.\<close>

theorem recovery_budget:
  "sum_list (map (encoded_length cr) (fin_events (observe_all cr vs))) \<le> fin_bytes (observe_all cr vs) \<and>
   fin_bytes (observe_all cr vs) \<le> 1048576 \<and> length (fin_events (observe_all cr vs)) \<le> 4096"
  using within_budget_all [OF within_budget_default, of cr vs] by (auto simp: within_budget_def LIMIT_def)

text \<open>C9: when recovery succeeds, the recovered output consists of exactly the items of the observed done events,
  in the order of their output indexes, which are 0, 1, 2, ...; every item is complete, no two have one
  id, and no two function calls have one call id.\<close>

theorem recovered_output_exact:
  assumes "recover cr rid (observe_all cr vs) = (Ok items, f)"
  shows "items = map item_of (sort_key output_index_of (filter item_done vs)) \<and>
    map output_index_of (sort_key output_index_of (filter item_done vs)) = map of_nat [0..<length items] \<and>
    list_all (complete cr) items \<and> distinct (map (member_text ''id'') items) \<and>
    distinct (map (member_text ''call_id'') (filter is_call items))"
  by (rule recover_recovered [unfolded recovered_def, OF assms])

theorem recovered_output_exact_witness:
  "list_all (complete example_crates) [example_item] \<and>
   fst (recover example_crates ''r'' (observe_all example_crates [example_delta, example_done])) = Ok [example_item]"
proof -
  have "fst (recover example_crates ''r'' (observe_all example_crates [example_delta, example_done])) = Ok [example_item]"
    unfolding example_observed by (simp add: recover_def prog_defs example_validated)
  then obtain f where r: "recover example_crates ''r'' (observe_all example_crates [example_delta, example_done]) = (Ok [example_item], f)"
    by (metis prod.collapse)
  from recovered_output_exact [OF r] have "list_all (complete example_crates) [example_item]" by blast
  then show ?thesis using r by (metis fst_conv)
qed

text \<open>C19: when recovery succeeds, the text streamed for a part of an item, all its delta events together, is a
  prefix of the text the finished item has there.\<close>

theorem streamed_text_is_prefix:
  assumes "validate cr events rid = Some items"
  shows "streamed (map_of (zip (map of_nat [0..<length items]) items)) key events = [] \<or>
    (\<exists>t. final_text (map_of (zip (map of_nat [0..<length items]) items)) key = Some t \<and>
      starts_with t (streamed (map_of (zip (map of_nat [0..<length items]) items)) key events))"
  by (rule validate_streamed [OF assms])

theorem streamed_text_is_prefix_witness:
  "\<exists>t. final_text (map_of [(0, example_item)]) (0, ''content'', 0) = Some t \<and> starts_with t ''hel''"
proof -
  have s: "streamed (map_of [(0, example_item)]) (0, ''content'', 0) [example_delta, example_done] = ''hel''" by code_simp
  from streamed_text_is_prefix [OF example_validated, of "(0, ''content'', 0)"] s show ?thesis by simp
qed

end
