(* ===== verification/Response_Codec.thy ===== *)
theory Response_Codec
  imports Finalized Run_Controller
begin

text \<open>
  The decoder of provider events, \<open>src/providers/openai_codex/codec.rs\<close>: one JSON value per frame in, the
  provider-neutral events of \<open>src/provider.rs\<close> out.  A decoder is a state; \<open>apply\<close> leaves it changed also
  when it fails, as the source does.  The properties connect it with the run's collector, which must
  accept what the decoder produces, and with the check of stored responses.
\<close>

section \<open>Required members\<close>

definition member_str :: "Value \<Rightarrow> str \<Rightarrow> str option" where
  "member_str v field = Option.bind (get_member v field) as_str"

definition member_u64 :: "Value \<Rightarrow> str \<Rightarrow> u64 option" where
  "member_u64 v field = Option.bind (get_member v field) as_u64"

definition required_str :: "Value \<Rightarrow> str \<Rightarrow> GatewayError + str" where
  "required_str v field = ok_or (Protocol ''required string missing'') (member_str v field)"

definition required_u64 :: "Value \<Rightarrow> str \<Rightarrow> GatewayError + u64" where
  "required_u64 v field = ok_or (Protocol ''required integer missing'') (member_u64 v field)"

definition required_response_id :: "Value \<Rightarrow> GatewayError + str" where
  "required_response_id v =
     and_then (required_str v ''id'') (\<lambda>i.
     and_then (reject_if (i = []) (Protocol ''empty response identity'')) (\<lambda>_.
     Ok i))"

section \<open>Items\<close>

definition item_kind_of :: "str \<Rightarrow> ItemKind" where
  "item_kind_of t =
     (if t = ''message'' then Message
      else if t = ''reasoning'' then Reasoning
      else if t = ''function_call'' then FunctionCallKind
      else if t = ''custom_tool_call'' then CustomToolCall
      else if t = ''tool_search_call'' then ToolSearchCall
      else if t = ''tool_search_output'' then ToolSearchOutput
      else if t = ''program'' then Program
      else if t = ''program_output'' then ProgramOutput
      else UnknownKind)"

definition call_origin_of :: "Value \<Rightarrow> CallOrigin" where
  "call_origin_of native =
     (case get_member native ''caller'' of
        None \<Rightarrow> Direct
      | Some c \<Rightarrow>
          if c = Null then Direct
          else if member_str c ''type'' = Some ''direct'' then Direct
          else if member_str c ''type'' = Some ''program'' then Programmatic
          else UnknownOrigin)"

definition parse_call :: "Value \<Rightarrow> GatewayError + FunctionCall" where
  "parse_call native =
     and_then (required_str native ''call_id'') (\<lambda>i.
     and_then (required_str native ''name'') (\<lambda>name.
     Ok \<lparr>call_id = i, call_name = name,
         call_arguments = (case member_str native ''arguments'' of None \<Rightarrow> [] | Some a \<Rightarrow> a),
         call_origin = call_origin_of native, call_namespace = member_str native ''namespace'',
         call_complete = (case get_member native ''status'' of None \<Rightarrow> True | Some s \<Rightarrow> as_str s = Some ''completed'')\<rparr>))"

definition parse_item :: "Value \<Rightarrow> GatewayError + OutputItem" where
  "parse_item native =
     and_then (required_str native ''type'') (\<lambda>native_type.
     and_then (if item_kind_of native_type = FunctionCallKind then map_ok Some (parse_call native) else Ok None) (\<lambda>call.
     Ok \<lparr>item_id = member_str native ''id'', item_kind = item_kind_of native_type, item_native_type = native_type,
         item_function_call = call, item_native = native\<rparr>))"

section \<open>Responses\<close>

definition MAX_ITEMS :: nat where "MAX_ITEMS = 512"

definition parse_outcome :: "Value \<Rightarrow> GatewayError + ResponseOutcome" where
  "parse_outcome native =
     and_then (required_str native ''status'') (\<lambda>status.
     if status = ''completed'' then Ok Completed
     else if status = ''incomplete'' then
       Ok (Incomplete (Option.bind (pointer2 native ''incomplete_details'' ''reason'') as_str))
     else if status = ''failed'' then Ok Failed
     else if status = ''cancelled'' then Ok CancelledUpstream
     else Err (Protocol ''non-terminal or unknown terminal status''))"

definition parse_output :: "Value \<Rightarrow> ResponseOutcome \<Rightarrow> GatewayError + OutputItem list" where
  "parse_output native outcome =
     (case get_member native ''output'' of
        Some (Array items) \<Rightarrow>
          if length items \<le> MAX_ITEMS then collect_results parse_item items else Err StreamTooLarge
      | None \<Rightarrow>
          if outcome = Failed \<or> outcome = CancelledUpstream then Ok [] else Err (Protocol ''invalid response output'')
      | Some other \<Rightarrow>
          if other = Null \<and> (outcome = Failed \<or> outcome = CancelledUpstream) then Ok []
          else Err (Protocol ''invalid response output''))"

definition part_text :: "Value \<Rightarrow> GatewayError + str" where
  "part_text part =
     (if member_str part ''type'' = Some ''output_text'' then required_str part ''text''
      else if member_str part ''type'' = Some ''refusal'' then required_str part ''refusal''
      else Ok [])"

definition item_text :: "OutputItem \<Rightarrow> GatewayError + str" where
  "item_text item =
     (if item_kind item = Message then
        (case Option.bind (get_member (item_native item) ''content'') as_array of
           None \<Rightarrow> Ok []
         | Some ps \<Rightarrow> map_ok concat (collect_results part_text ps))
      else Ok [])"

definition output_text :: "OutputItem list \<Rightarrow> GatewayError + str" where
  "output_text items = map_ok concat (collect_results item_text items)"

definition parse_usage :: "Value \<Rightarrow> GatewayError + Usage" where
  "parse_usage u =
     and_then (required_u64 u ''input_tokens'') (\<lambda>input.
     and_then (required_u64 u ''output_tokens'') (\<lambda>output.
     and_then (required_u64 u ''total_tokens'') (\<lambda>total.
     Ok \<lparr>usage_input_tokens = input, usage_output_tokens = output, usage_total_tokens = total,
         usage_cached_input_tokens = Option.bind (pointer2 u ''input_tokens_details'' ''cached_tokens'') as_u64,
         usage_reasoning_tokens = Option.bind (pointer2 u ''output_tokens_details'' ''reasoning_tokens'') as_u64\<rparr>)))"

definition parse_response :: "Value \<Rightarrow> GatewayError + ModelResponse" where
  "parse_response native =
     and_then (required_response_id native) (\<lambda>i.
     and_then (parse_outcome native) (\<lambda>outcome.
     and_then (parse_output native outcome) (\<lambda>output.
     and_then (output_text output) (\<lambda>text.
     and_then (map_transpose parse_usage (case get_member native ''usage'' of None \<Rightarrow> None
        | Some u \<Rightarrow> if u = Null then None else Some u)) (\<lambda>usage.
     Ok \<lparr>response_provenance = NativeTerminal, response_id = i, response_model = member_str native ''model'',
         response_outcome = outcome, response_output = output, response_text = text, response_usage = usage,
         response_native = native\<rparr>)))))"

section \<open>The decoder\<close>

record ResponseDecoder =
  dec_response_id :: "str option"
  dec_finished :: bool
  dec_terminal_received :: bool
  dec_finalized :: FinalizedItems

definition ResponseDecoder_default :: ResponseDecoder where
  "ResponseDecoder_default =
     \<lparr>dec_response_id = None, dec_finished = False, dec_terminal_received = False, dec_finalized = FinalizedItems_default\<rparr>"

type_synonym 'a decoding = "(ResponseDecoder, GatewayError, 'a) prog"

definition on_finalized :: "(FinalizedItems, GatewayError, 'a) prog \<Rightarrow> 'a decoding" where
  "on_finalized m = (\<lambda>d. case m (dec_finalized d) of (r, f) \<Rightarrow> (r, d\<lparr>dec_finalized := f\<rparr>))"

definition event_response_id :: "Value \<Rightarrow> str decoding" where
  "event_response_id event =
     then_do (read dec_response_id) (\<lambda>known.
     then_do (from_result (ok_or (Protocol ''content before response identity'') known)) (\<lambda>i.
     let reported = (case member_str event ''response_id'' of
           Some r \<Rightarrow> Some r
         | None \<Rightarrow> Option.bind (pointer2 event ''response'' ''id'') as_str)
     in then_do (fail_if (case reported of None \<Rightarrow> False | Some other \<Rightarrow> other \<noteq> i) (Protocol ''cross-response event'')) (\<lambda>_.
        ret i)))"

definition apply_created :: "Value \<Rightarrow> ProviderEvent list decoding" where
  "apply_created value =
     then_do (from_result (ok_or (Protocol ''response missing'') (get_member value ''response''))) (\<lambda>response.
     then_do (from_result (required_response_id response)) (\<lambda>i.
     then_do (read dec_response_id) (\<lambda>known.
     then_do (fail_if (known \<noteq> None) (Protocol ''duplicate response.created'')) (\<lambda>_.
     then_do (update (\<lambda>d. d\<lparr>dec_response_id := Some i\<rparr>)) (\<lambda>_.
     ret [ResponseStarted i])))))"

text \<open>\<open>str::trim_start_matches\<close> removes a prefix as often as it occurs.\<close>

function trim_start_matches :: "str \<Rightarrow> str \<Rightarrow> str" where
  "trim_start_matches p s =
     (if p = [] then s else case strip_prefix p s of None \<Rightarrow> s | Some r \<Rightarrow> trim_start_matches p r)"
  by pat_completeness auto
termination
  by (relation "measure (length \<circ> snd)") auto

declare trim_start_matches.simps [simp del]

definition apply_status :: "str \<Rightarrow> Value \<Rightarrow> ProviderEvent list decoding" where
  "apply_status kind value =
     then_do (event_response_id value) (\<lambda>i.
     ret [ResponseStatus i (trim_start_matches ''response.'' kind)])"

definition apply_item :: "str \<Rightarrow> Value \<Rightarrow> ProviderEvent list decoding" where
  "apply_item kind value =
     then_do (event_response_id value) (\<lambda>i.
     then_do (from_result (required_u64 value ''output_index'')) (\<lambda>index.
     then_do (from_result (ok_or (Protocol ''missing output item'') (get_member value ''item''))) (\<lambda>native.
     then_do (from_result (parse_item native)) (\<lambda>item.
     ret [if ends_with kind ''.added'' then OutputItemStarted i index item else OutputItemFinished i index item]))))"

definition delta_kind :: "str \<Rightarrow> DeltaKind" where
  "delta_kind kind =
     (if kind = ''response.output_text.delta'' then TextDelta
      else if kind = ''response.refusal.delta'' then Refusal
      else if kind = ''response.reasoning_summary_text.delta'' then ReasoningSummary
      else if kind = ''response.reasoning_text.delta'' then ReasoningText
      else if kind = ''response.function_call_arguments.delta'' then FunctionArguments
      else CustomToolInput)"

definition apply_delta :: "str \<Rightarrow> Value \<Rightarrow> ProviderEvent list decoding" where
  "apply_delta kind value =
     then_do (event_response_id value) (\<lambda>i.
     then_do (from_result (required_str value ''item_id'')) (\<lambda>item.
     then_do (from_result (required_u64 value ''output_index'')) (\<lambda>index.
     then_do (from_result (required_str value ''delta'')) (\<lambda>delta.
     ret [OutputItemUpdated i item index (member_u64 value ''content_index'') (member_u64 value ''summary_index'')
        (delta_kind kind) delta]))))"

text \<open>\<open>effective["output"] = Value::Array(recovered)\<close> on an object that has the member.\<close>

fun set_member :: "Value \<Rightarrow> str \<Rightarrow> Value \<Rightarrow> Value" where
  "set_member (Object ms) k v = Object (map (\<lambda>(k', v'). (k', if k' = k then v else v')) ms)"
| "set_member other k v = other"

definition identify_response :: "ModelResponse \<Rightarrow> ProviderEvent list decoding" where
  "identify_response response =
     then_do (read dec_response_id) (\<lambda>known.
     case known of
       Some i \<Rightarrow> then_do (fail_if (i \<noteq> response_id response) (Protocol ''response ID changed'')) (\<lambda>_. ret [])
     | None \<Rightarrow> then_do (update (\<lambda>d. d\<lparr>dec_response_id := Some (response_id response)\<rparr>)) (\<lambda>_.
         ret [ResponseStarted (response_id response)]))"

definition recover_output :: "crates \<Rightarrow> ModelResponse \<Rightarrow> ModelResponse decoding" where
  "recover_output cr response =
     then_do (on_finalized (recover cr (response_id response))) (\<lambda>recovered.
     if recovered = [] then ret response
     else
       then_do (from_result (parse_response (set_member (response_native response) ''output'' (Array recovered)))) (\<lambda>parsed.
       ret (response\<lparr>response_output := response_output parsed, response_text := response_text parsed,
            response_provenance := ValidatedOutputItemDone\<rparr>)))"

abbreviation success_kind :: "str \<Rightarrow> bool" where
  "success_kind kind \<equiv> kind = ''response.completed'' \<or> kind = ''response.done''"

definition apply_terminal :: "crates \<Rightarrow> str \<Rightarrow> Value \<Rightarrow> ProviderEvent list decoding" where
  "apply_terminal cr kind value =
     then_do (from_result (ok_or (Protocol ''terminal response missing'') (get_member value ''response''))) (\<lambda>native.
     then_do (from_result (parse_response native)) (\<lambda>response.
     then_do (fail_if (\<not> success_kind kind \<and> response_outcome response = Completed)
        (Protocol ''non-success terminal event claims completed status'')) (\<lambda>_.
     then_do (identify_response response) (\<lambda>started.
     then_do (update (\<lambda>d. d\<lparr>dec_terminal_received := True\<rparr>)) (\<lambda>_.
     then_do (if success_kind kind \<and> response_outcome response = Completed \<and>
          Option.bind (get_member (response_native response) ''output'') as_array = Some []
        then recover_output cr response else ret response) (\<lambda>response.
     then_do (update (\<lambda>d. d\<lparr>dec_finished := True\<rparr>)) (\<lambda>_.
     ret (started @ [ResponseFinished response]))))))))"

definition apply_kind :: "crates \<Rightarrow> str \<Rightarrow> Value \<Rightarrow> ProviderEvent list decoding" where
  "apply_kind cr kind value =
     (if kind = ''response.created'' then apply_created value
      else if kind = ''response.in_progress'' \<or> kind = ''response.queued'' then apply_status kind value
      else if kind = ''response.output_item.added'' \<or> kind = ''response.output_item.done'' then apply_item kind value
      else if kind \<in> set [''response.output_text.delta'', ''response.refusal.delta'', ''response.reasoning_summary_text.delta'',
          ''response.reasoning_text.delta'', ''response.function_call_arguments.delta'', ''response.custom_tool_call_input.delta'']
        then apply_delta kind value
      else if kind \<in> set [''response.completed'', ''response.done'', ''response.incomplete'', ''response.failed'', ''response.cancelled'']
        then apply_terminal cr kind value
      else if kind = ''error'' then raise ProviderFailed
      else ret [ProviderExtension kind value])"

definition apply_event :: "crates \<Rightarrow> Value \<Rightarrow> ProviderEvent list decoding" where
  "apply_event cr value =
     then_do (read dec_finished) (\<lambda>finished.
     then_do (fail_if finished (Protocol ''event after terminal response'')) (\<lambda>_.
     then_do (from_result (ok_or (Protocol ''missing event type'') (member_str value ''type''))) (\<lambda>kind.
     then_do (update (\<lambda>d. d\<lparr>dec_finalized := FinalizedItems_observe cr value (dec_finalized d)\<rparr>)) (\<lambda>_.
     apply_kind cr kind value))))"

text \<open>A response as the transport delivers it: the values of its frames, one after the other.\<close>

fun apply_all :: "crates \<Rightarrow> Value list \<Rightarrow> ProviderEvent list decoding" where
  "apply_all cr [] = ret []"
| "apply_all cr (v # vs) =
     then_do (apply_event cr v) (\<lambda>events.
     then_do (apply_all cr vs) (\<lambda>rest. ret (events @ rest)))"

section \<open>The grammar of a response\<close>

text \<open>What a decoder promises of its events, as an automaton on the known response id and whether the response
  has finished: one start with a nonempty id, then only events of that id, nothing after the finish, and
  no session or request failure.\<close>

fun grammar_step :: "str option \<times> bool \<Rightarrow> ProviderEvent \<Rightarrow> (str option \<times> bool) option" where
  "grammar_step (known, fin) (ResponseStarted i) =
     (if known = None \<and> \<not> fin \<and> i \<noteq> [] then Some (Some i, False) else None)"
| "grammar_step (known, fin) (ResponseStatus i _) = (if known = Some i \<and> \<not> fin then Some (known, fin) else None)"
| "grammar_step (known, fin) (OutputItemStarted i _ _) = (if known = Some i \<and> \<not> fin then Some (known, fin) else None)"
| "grammar_step (known, fin) (OutputItemUpdated i _ _ _ _ _ _) = (if known = Some i \<and> \<not> fin then Some (known, fin) else None)"
| "grammar_step (known, fin) (OutputItemFinished i _ _) = (if known = Some i \<and> \<not> fin then Some (known, fin) else None)"
| "grammar_step (known, fin) (ResponseFinished r) =
     (if known = Some (response_id r) \<and> \<not> fin then Some (known, True) else None)"
| "grammar_step (known, fin) (ProviderExtension _ _) = (if fin then None else Some (known, fin))"
| "grammar_step (known, fin) (SessionClosed _) = None"
| "grammar_step (known, fin) (RequestFailed _ _ _) = None"

fun response_grammar :: "str option \<times> bool \<Rightarrow> ProviderEvent list \<Rightarrow> (str option \<times> bool) option" where
  "response_grammar st [] = Some st"
| "response_grammar st (e # es) = Option.bind (grammar_step st e) (\<lambda>st'. response_grammar st' es)"

abbreviation progress :: "ResponseDecoder \<Rightarrow> str option \<times> bool" where
  "progress d \<equiv> (dec_response_id d, dec_finished d)"

lemma response_grammar_append:
  "response_grammar st (xs @ ys) = Option.bind (response_grammar st xs) (\<lambda>st'. response_grammar st' ys)"
  by (induction xs arbitrary: st) (auto split: bind_splits)

lemma required_response_id_Ok: "required_response_id v = Ok i \<Longrightarrow> i \<noteq> []"
  by (auto simp: required_response_id_def wi_results)

lemma parse_response_id: "parse_response v = Ok r \<Longrightarrow> response_id r \<noteq> []"
  by (auto simp: parse_response_def wi_results dest: required_response_id_Ok)

lemma event_response_id_Ok:
  "event_response_id v d = (Ok i, d') \<Longrightarrow> dec_response_id d = Some i \<and> d' = d"
  by (auto simp: event_response_id_def prog_Ok Let_def wi_results)

lemma on_finalized_Ok:
  "on_finalized m d = (Ok a, d') \<Longrightarrow> progress d' = progress d"
  by (auto simp: on_finalized_def split: prod.splits)

lemma recover_output_Ok:
  "recover_output cr r d = (Ok r', d') \<Longrightarrow> progress d' = progress d \<and> response_id r' = response_id r"
  by (auto simp: recover_output_def prog_Ok dest!: on_finalized_Ok split: if_splits)

lemma apply_kind_cases [consumes 1, case_names created status item delta terminal extension]:
  assumes "apply_kind cr kind v d = (Ok events, d')"
  obtains "apply_created v d = (Ok events, d')" | "apply_status kind v d = (Ok events, d')" | "apply_item kind v d = (Ok events, d')"
    | "apply_delta kind v d = (Ok events, d')" | "apply_terminal cr kind v d = (Ok events, d')"
    | "events = [ProviderExtension kind v]" "d' = d"
  using assms by (auto simp: apply_kind_def raise_def ret_def split: if_splits)

lemma apply_kind_progress:
  assumes "apply_kind cr kind v d = (Ok events, d')" "\<not> dec_finished d"
  shows "response_grammar (progress d) events = Some (progress d')"
proof -
  from assms(1) show ?thesis
  proof (cases rule: apply_kind_cases)
    case created
    then show ?thesis using assms(2) by (auto simp: apply_created_def prog_Ok wi_results dest: required_response_id_Ok)
  next
    case terminal
    then obtain native r where p: "parse_response native = Ok r"
      and t: "then_do (identify_response r) (\<lambda>started.
     then_do (update (\<lambda>d. d\<lparr>dec_terminal_received := True\<rparr>)) (\<lambda>_.
     then_do (if success_kind kind \<and> response_outcome r = Completed \<and>
          Option.bind (get_member (response_native r) ''output'') as_array = Some []
        then recover_output cr r else ret r) (\<lambda>response.
     then_do (update (\<lambda>d. d\<lparr>dec_finished := True\<rparr>)) (\<lambda>_.
     ret (started @ [ResponseFinished response]))))) d = (Ok events, d')"
      by (auto simp: apply_terminal_def prog_Ok)
    then obtain started r' d1 d2 where i: "identify_response r d = (Ok started, d1)"
      and e: "events = started @ [ResponseFinished r']" and d': "d' = d2\<lparr>dec_finished := True\<rparr>"
      and r': "response_id r' = response_id r" "dec_response_id d2 = dec_response_id d1"
      by (auto simp: prog_Ok dest!: recover_output_Ok split: if_splits)
    then show ?thesis using assms(2) parse_response_id [OF p]
      by (auto simp: identify_response_def prog_Ok split: option.splits)
  qed (use assms(2) in \<open>auto simp: apply_status_def apply_item_def apply_delta_def prog_Ok dest!: event_response_id_Ok\<close>)
qed

lemma apply_event_progress:
  assumes "apply_event cr v d = (Ok events, d')"
  shows "response_grammar (progress d) events = Some (progress d')"
proof -
  obtain kind where f: "\<not> dec_finished d"
    and k: "apply_kind cr kind v (d\<lparr>dec_finalized := FinalizedItems_observe cr v (dec_finalized d)\<rparr>) = (Ok events, d')"
    using assms by (auto simp: apply_event_def prog_Ok)
  from apply_kind_progress [OF k] f show ?thesis by simp
qed

lemma apply_all_progress:
  assumes "apply_all cr vs d = (Ok events, d')"
  shows "response_grammar (progress d) events = Some (progress d')"
  using assms
proof (induction vs arbitrary: d events)
  case (Cons v vs)
  then obtain e1 d1 e2 where "apply_event cr v d = (Ok e1, d1)" "apply_all cr vs d1 = (Ok e2, d')" "events = e1 @ e2"
    by (auto simp: prog_Ok)
  then show ?case using Cons.IH apply_event_progress [of cr v d e1 d1] by (simp add: response_grammar_append)
qed (auto simp: ret_def)

section \<open>The run's collector accepts what the decoder produces\<close>

text \<open>Envelopes of one request of one session, in increasing order after \<open>s\<close>.\<close>

definition matching :: "'u uuid_crate \<Rightarrow> str \<Rightarrow> str \<Rightarrow> str \<Rightarrow> EventEnvelope \<Rightarrow> bool" where
  "matching uu session provider request e \<longleftrightarrow>
     env_session_id e = session \<and> env_provider e = provider \<and> env_request_id e = Some request \<and>
     (provider = PROVIDER_ID \<longrightarrow> is_local_event_id uu (env_event_id e) (env_session_id e) (env_sequence e))"

fun increasing :: "u64 option \<Rightarrow> EventEnvelope list \<Rightarrow> bool" where
  "increasing s [] = True"
| "increasing s (e # es) = ((case s of None \<Rightarrow> True | Some p \<Rightarrow> p < env_sequence e) \<and> increasing (Some (env_sequence e)) es)"

fun collect_envelopes :: "'u uuid_crate \<Rightarrow> str \<Rightarrow> str \<Rightarrow> str \<Rightarrow> EventEnvelope list \<Rightarrow> (collecting, RunOutcome, unit) prog" where
  "collect_envelopes uu session provider request [] = ret ()"
| "collect_envelopes uu session provider request (e # es) =
     then_do (observe uu e session provider request) (\<lambda>_. collect_envelopes uu session provider request es)"

definition tracks :: "str option \<times> bool \<Rightarrow> Collector \<Rightarrow> bool" where
  "tracks st c \<longleftrightarrow> col_response_id c = fst st \<and> col_started c = (fst st \<noteq> None) \<and> col_terminal c = snd st \<and> fst st \<noteq> Some []"

lemma observe_tracks:
  assumes "matching uu session provider request e" "case s of None \<Rightarrow> True | Some p \<Rightarrow> p < env_sequence e"
    and "tracks st c" "grammar_step st (env_event e) = Some st'"
  shows "\<exists>c'. observe uu e session provider request (c, s) = (Ok (), (c', Some (env_sequence e))) \<and> tracks st' c'"
proof -
  obtain known fin where st: "st = (known, fin)" by (cases st)
  have "\<not> fin" using assms(4) st by (cases "env_event e") (auto split: if_splits)
  then have h: "\<not> (case s of None \<Rightarrow> False | Some p \<Rightarrow> env_sequence e \<le> p)" "\<not> col_terminal c"
    using assms(2,3) st by (auto simp: tracks_def split: option.splits)
  show ?thesis using assms h unfolding st
    by (cases "env_event e")
      (auto simp: observe_def matching_def tracks_def check_response_id_def prog_defs split: if_splits option.splits)
qed

lemma collect_tracks:
  assumes "list_all (matching uu session provider request) es" "increasing s es" "tracks st c"
    and "response_grammar st (map env_event es) = Some st'"
  shows "\<exists>c' s'. collect_envelopes uu session provider request es (c, s) = (Ok (), (c', s')) \<and> tracks st' c'"
  using assms
proof (induction es arbitrary: s st c)
  case (Cons e es)
  then obtain st1 where st1: "grammar_step st (env_event e) = Some st1" "response_grammar st1 (map env_event es) = Some st'"
    by (auto simp: bind_eq_Some_conv)
  obtain c1 where c1: "observe uu e session provider request (c, s) = (Ok (), (c1, Some (env_sequence e)))" "tracks st1 c1"
    using observe_tracks [OF _ _ Cons.prems(3) st1(1), of uu session provider request s] Cons.prems(1,2) by auto
  show ?case using Cons.IH [OF _ _ c1(2) st1(2)] Cons.prems(1,2) c1(1) by (auto simp: then_do_def)
qed (auto simp: ret_def)

section \<open>Finished responses\<close>

lemma as_str_index_member: "as_str (index_member v k) = member_str v k"
  by (simp add: index_member_def member_str_def split: option.split)

lemma member_str_Some: "member_str v k = Some s \<Longrightarrow> get_member v k = Some (String s)"
  by (auto simp: member_str_def bind_eq_Some_conv elim: as_str.elims)

lemma complete_parts:
  assumes "complete cr native" "is_call native"
  shows "member_str native ''type'' = Some ''function_call'' \<and> function_call_ok cr native \<and>
    \<not> member_and native ''status'' (\<lambda>v. as_str v \<noteq> Some ''completed'')"
  using assms by (auto simp: complete_def ordinary_item_def member_is_def as_str_index_member)

lemma direct_call_origin:
  "\<not> member_and native ''caller'' (\<lambda>v. v \<noteq> Null \<and> \<not> member_is v ''type'' ''direct'') \<Longrightarrow> call_origin_of native = Direct"
  by (auto simp: call_origin_of_def member_and_def member_is_def as_str_index_member split: option.splits)

lemma complete_function_call:
  assumes "complete cr native" "is_call native"
  shows "\<exists>item call. parse_item native = Ok item \<and> item_kind item = FunctionCallKind \<and> item_native item = native \<and>
    item_function_call item = Some call \<and> call_complete call \<and> call_origin call = Direct \<and> call_namespace call = None \<and>
    call_id call = member_text ''call_id'' native \<and> call_id call \<noteq> [] \<and> length (call_id call) \<le> 512 \<and> call_name call \<noteq> [] \<and>
    \<not> member_and native ''namespace'' (\<lambda>v. v \<noteq> Null) \<and>
    (\<exists>v. json_from_slice cr (call_arguments call) = Some v \<and> is_object v)"
proof -
  note p = complete_parts [OF assms]
  then have f: "function_call_ok cr native" by blast
  then obtain i name args v where m: "member_str native ''call_id'' = Some i" "i \<noteq> []" "length i \<le> 512"
      "member_str native ''name'' = Some name" "name \<noteq> []" "member_str native ''arguments'' = Some args"
      "json_from_slice cr args = Some v" "is_object v"
    by (auto simp: function_call_ok_def bounded_text_def as_str_index_member split: option.splits)
  have n: "\<not> member_and native ''namespace'' (\<lambda>v. v \<noteq> Null)" and o: "call_origin_of native = Direct"
    using f direct_call_origin by (simp_all add: function_call_ok_def)
  then have "member_str native ''namespace'' = None"
    by (auto simp: member_str_def member_and_def split: option.splits)
  moreover have "case get_member native ''status'' of None \<Rightarrow> True | Some s \<Rightarrow> as_str s = Some ''completed''"
    using p by (simp add: member_and_def split: option.splits)
  ultimately show ?thesis using m n o p
    by (simp add: parse_item_def parse_call_def required_str_def item_kind_of_def member_text_def as_str_index_member)
qed

lemma complete_other:
  assumes "complete cr native" "\<not> is_call native"
  shows "\<exists>item. parse_item native = Ok item \<and> item_kind item \<in> {Message, Reasoning} \<and> item_function_call item = None"
proof -
  from assms obtain t where "member_str native ''type'' = Some t" "t = ''message'' \<or> t = ''reasoning''"
    by (auto simp: complete_def ordinary_item_def member_is_def as_str_index_member split: option.splits if_splits)
  then show ?thesis by (auto simp: parse_item_def required_str_def item_kind_of_def)
qed

lemma parse_item_native: "parse_item native = Ok item \<Longrightarrow> item_native item = native"
  by (auto simp: parse_item_def wi_results)

lemma parse_items_native: "list_all2 (\<lambda>native item. parse_item native = Ok item) natives items \<Longrightarrow> natives = map item_native items"
  by (induction rule: list_all2_induct) (auto dest: parse_item_native)

lemma complete_items_replayable:
  assumes "list_all (complete cr) items" "distinct (map (member_text ''call_id'') (filter is_call items))"
    and "set ids \<inter> member_text ''call_id'' ` set (filter is_call items) = {}"
    and "collect_results parse_item items = Ok outs"
  shows "validate_response_items cr ids outs = Ok () \<longleftrightarrow>
    list_all (\<lambda>call. length (call_arguments call) \<le> MAX_ARGUMENT_BYTES) (List.map_filter item_function_call outs)"
  using assms
proof (induction items arbitrary: ids outs)
  case Nil
  then show ?case by (simp add: map_filter_simps)
next
  case (Cons native items)
  then obtain item rest where i: "parse_item native = Ok item" and r: "collect_results parse_item items = Ok rest"
      and o: "outs = item # rest"
    by (auto simp: wi_results list_all2_Cons1)
  show ?case
  proof (cases "is_call native")
    case True
    obtain call where call: "item_kind item = FunctionCallKind" "item_function_call item = Some call" "call_complete call"
        "call_origin call = Direct" "call_namespace call = None" "call_id call = member_text ''call_id'' native" "call_id call \<noteq> []"
        "length (call_id call) \<le> 512" "call_name call \<noteq> []" "\<not> member_and native ''namespace'' (\<lambda>v. v \<noteq> Null)"
        "\<exists>v. json_from_slice cr (call_arguments call) = Some v \<and> is_object v"
      using complete_function_call [of cr native] True Cons.prems(1) i by auto
    have "validate_response_items cr (call_id call # ids) rest = Ok () \<longleftrightarrow>
      list_all (\<lambda>call. length (call_arguments call) \<le> MAX_ARGUMENT_BYTES) (List.map_filter item_function_call rest)"
      using Cons.IH [OF _ _ _ r] Cons.prems True call(6) by (auto simp: image_iff)
    moreover have "call_id call \<notin> set ids" using Cons.prems(3) True call(6) by auto
    ultimately show ?thesis
      using call parse_item_native [OF i] by (auto simp: o reject_if_def member_and_def map_filter_simps split: option.splits)
  next
    case False
    then have "validate_response_items cr ids rest = Ok () \<longleftrightarrow>
      list_all (\<lambda>call. length (call_arguments call) \<le> MAX_ARGUMENT_BYTES) (List.map_filter item_function_call rest)"
      using Cons.IH [OF _ _ _ r] Cons.prems by auto
    then show ?thesis using complete_other [of cr native] False Cons.prems(1) i by (auto simp: o map_filter_simps)
  qed
qed

lemma get_set_member: "get_member v k \<noteq> None \<Longrightarrow> get_member (set_member v k x) k = Some x"
proof (cases v)
  case (Object ms)
  moreover assume "get_member v k \<noteq> None"
  ultimately show ?thesis by (induction ms arbitrary: v) (auto split: if_splits)
qed auto

text \<open>A finished response is the parsed native response; only its output and text may come from recovery.\<close>

definition finish_spec :: "crates \<Rightarrow> FinalizedItems \<Rightarrow> ModelResponse \<Rightarrow> bool" where
  "finish_spec cr f r \<longleftrightarrow>
     parse_response (response_native r) = Ok r \<or>
     (response_provenance r = ValidatedOutputItemDone \<and> response_outcome r = Completed \<and> response_id r \<noteq> [] \<and>
      (\<exists>items g. recover cr (response_id r) f = (Ok items, g) \<and> collect_results parse_item items = Ok (response_output r)))"

lemma parse_response_provenance: "parse_response native = Ok r \<Longrightarrow> response_provenance r = NativeTerminal"
  by (auto simp: parse_response_def wi_results)

lemma parse_response_native: "parse_response native = Ok r \<Longrightarrow> response_native r = native"
  by (auto simp: parse_response_def wi_results)

lemma recover_output_spec:
  assumes "recover_output cr r d = (Ok r', d')" "parse_response (response_native r) = Ok r" "response_outcome r = Completed"
    and "get_member (response_native r) ''output'' \<noteq> None"
  shows "finish_spec cr (dec_finalized d) r'"
proof -
  obtain items g where rec: "recover cr (response_id r) (dec_finalized d) = (Ok items, g)"
    and t: "items = [] \<and> r' = r \<or> (\<exists>p. parse_response (set_member (response_native r) ''output'' (Array items)) = Ok p \<and>
      r' = r\<lparr>response_output := response_output p, response_text := response_text p, response_provenance := ValidatedOutputItemDone\<rparr>)"
    using assms(1) by (auto simp: recover_output_def prog_Ok on_finalized_def split: prod.splits if_splits)
  from t show ?thesis
  proof
    assume "items = [] \<and> r' = r"
    then show ?thesis using assms(2) by (simp add: finish_spec_def)
  next
    assume "\<exists>p. parse_response (set_member (response_native r) ''output'' (Array items)) = Ok p \<and>
      r' = r\<lparr>response_output := response_output p, response_text := response_text p, response_provenance := ValidatedOutputItemDone\<rparr>"
    then obtain p where p: "parse_response (set_member (response_native r) ''output'' (Array items)) = Ok p"
      and r': "r' = r\<lparr>response_output := response_output p, response_text := response_text p, response_provenance := ValidatedOutputItemDone\<rparr>"
      by blast
    have "collect_results parse_item items = Ok (response_output p)"
      using p get_set_member [OF assms(4), of "Array items"]
      by (auto simp: parse_response_def parse_output_def and_then_Ok_iff split: if_splits)
    then show ?thesis using rec assms(3) parse_response_id [OF assms(2)] by (auto simp: finish_spec_def r')
  qed
qed

lemma grammar_finished: "response_grammar (known, True) es = Some st \<Longrightarrow> es = [] \<and> st = (known, True)"
  by (cases es) (auto simp: bind_eq_Some_conv elim!: grammar_step.elims split: if_splits)

definition event_type :: "Value \<Rightarrow> str" where
  "event_type v = (case member_str v ''type'' of None \<Rightarrow> [] | Some t \<Rightarrow> t)"

lemma identify_response_Ok:
  "identify_response r d = (Ok started, d') \<Longrightarrow> dec_finalized d' = dec_finalized d \<and> (\<forall>r'. ResponseFinished r' \<notin> set started)"
  by (auto simp: identify_response_def prog_Ok split: option.splits)

lemma apply_terminal_finished:
  assumes "apply_terminal cr kind v d = (Ok events, d')" "ResponseFinished r \<in> set events"
  shows "finish_spec cr (dec_finalized d) r \<and> (response_outcome r = Completed \<longrightarrow> success_kind kind)"
proof -
  obtain native r0 where p: "parse_response native = Ok r0" and g: "success_kind kind \<or> response_outcome r0 \<noteq> Completed"
      and t: "then_do (identify_response r0) (\<lambda>started.
     then_do (update (\<lambda>d. d\<lparr>dec_terminal_received := True\<rparr>)) (\<lambda>_.
     then_do (if success_kind kind \<and> response_outcome r0 = Completed \<and>
          Option.bind (get_member (response_native r0) ''output'') as_array = Some []
        then recover_output cr r0 else ret r0) (\<lambda>response.
     then_do (update (\<lambda>d. d\<lparr>dec_finished := True\<rparr>)) (\<lambda>_.
     ret (started @ [ResponseFinished response]))))) d = (Ok events, d')"
    using assms(1) by (auto simp: apply_terminal_def prog_Ok)
  from p have p': "parse_response (response_native r0) = Ok r0" by (simp add: parse_response_native)
  from t obtain started d1 r' d2 where i: "identify_response r0 d = (Ok started, d1)"
    and e: "events = started @ [ResponseFinished r']"
    and o: "(if success_kind kind \<and> response_outcome r0 = Completed \<and>
          Option.bind (get_member (response_native r0) ''output'') as_array = Some []
        then recover_output cr r0 else ret r0) (d1\<lparr>dec_terminal_received := True\<rparr>) = (Ok r', d2)"
    by (auto simp only: prog_Ok)
  have r: "r = r'" using assms(2) e identify_response_Ok [OF i] by auto
  have f: "dec_finalized (d1\<lparr>dec_terminal_received := True\<rparr>) = dec_finalized d" using identify_response_Ok [OF i] by simp
  show ?thesis
  proof (cases "success_kind kind \<and> response_outcome r0 = Completed \<and>
          Option.bind (get_member (response_native r0) ''output'') as_array = Some []")
    case True
    then have "recover_output cr r0 (d1\<lparr>dec_terminal_received := True\<rparr>) = (Ok r', d2)" using o by simp
    moreover have "get_member (response_native r0) ''output'' \<noteq> None" using True by (auto simp: bind_eq_Some_conv)
    ultimately have "finish_spec cr (dec_finalized d) r'" using recover_output_spec [of cr r0 _ r' d2] p' True f by metis
    then show ?thesis using True r by simp
  next
    case False
    then have "r' = r0" using o by (auto simp: ret_def split: if_splits)
    then show ?thesis using p' g r by (auto simp: finish_spec_def)
  qed
qed

lemma apply_event_finished:
  assumes "apply_event cr v d = (Ok events, d')" "ResponseFinished r \<in> set events"
  shows "finish_spec cr (FinalizedItems_observe cr v (dec_finalized d)) r \<and>
    (response_outcome r = Completed \<longrightarrow> success_kind (event_type v))"
proof -
  let ?d = "d\<lparr>dec_finalized := FinalizedItems_observe cr v (dec_finalized d)\<rparr>"
  obtain kind where k: "member_str v ''type'' = Some kind" and a: "apply_kind cr kind v ?d = (Ok events, d')"
    using assms(1) by (auto simp: apply_event_def prog_Ok wi_results)
  from a have "apply_terminal cr kind v ?d = (Ok events, d')"
  proof (cases rule: apply_kind_cases)
  qed (use assms(2) in \<open>auto simp: apply_created_def apply_status_def apply_item_def apply_delta_def prog_Ok split: if_splits\<close>)
  from apply_terminal_finished [OF this assms(2)] show ?thesis using k by (simp add: event_type_def)
qed

lemma apply_event_finalized:
  assumes "apply_event cr v d = (Ok events, d')" "\<not> dec_finished d'"
  shows "dec_finalized d' = FinalizedItems_observe cr v (dec_finalized d)"
proof -
  let ?d = "d\<lparr>dec_finalized := FinalizedItems_observe cr v (dec_finalized d)\<rparr>"
  obtain kind where a: "apply_kind cr kind v ?d = (Ok events, d')"
    using assms(1) by (auto simp: apply_event_def prog_Ok)
  from a show ?thesis
  proof (cases rule: apply_kind_cases)
    case terminal
    then have "dec_finished d'" by (auto simp: apply_terminal_def prog_Ok)
    then show ?thesis using assms(2) by blast
  qed (auto simp: apply_created_def apply_status_def apply_item_def apply_delta_def prog_Ok dest!: event_response_id_Ok)
qed

text \<open>The event that finishes a response is the last one, and the decoder has observed them all.\<close>

lemma apply_all_finished:
  assumes "apply_all cr vs d = (Ok events, d')" "ResponseFinished r \<in> set events"
  shows "vs \<noteq> [] \<and> finish_spec cr (fold (FinalizedItems_observe cr) vs (dec_finalized d)) r \<and>
    (response_outcome r = Completed \<longrightarrow> success_kind (event_type (last vs)))"
  using assms
proof (induction vs arbitrary: d events)
  case (Cons v vs)
  then obtain e1 d1 e2 where a: "apply_event cr v d = (Ok e1, d1)" and b: "apply_all cr vs d1 = (Ok e2, d')" and e: "events = e1 @ e2"
    by (auto simp: prog_Ok)
  show ?case
  proof (cases "dec_finished d1")
    case True
    then have "vs = []" using b by (cases vs) (auto simp: apply_event_def prog_Ok)
    then have "ResponseFinished r \<in> set e1" using Cons.prems(2) b e by (simp add: ret_def)
    from apply_event_finished [OF a this] show ?thesis using \<open>vs = []\<close> by simp
  next
    case False
    have "ResponseFinished r \<notin> set e1"
    proof
      assume "ResponseFinished r \<in> set e1"
      then obtain xs ys where x: "e1 = xs @ ResponseFinished r # ys" by (meson split_list)
      from apply_event_progress [OF a] False show False
        unfolding x response_grammar_append
        by (auto simp: bind_eq_Some_conv dest!: grammar_finished split: if_splits)
    qed
    then have "ResponseFinished r \<in> set e2" using Cons.prems(2) e by simp
    from Cons.IH [OF b this] show ?thesis using apply_event_finalized [OF a False] by simp
  qed
qed (auto simp: ret_def)

section \<open>Properties\<close>

definition example_created :: Value where
  "example_created = Object [(''response'', Object [(''id'', String ''r'')]), (''type'', String ''response.created'')]"

definition example_completed :: Value where
  "example_completed =
     Object [(''response'', Object [(''id'', String ''r''), (''output'', Array []), (''status'', String ''completed'')]),
       (''type'', String ''response.completed'')]"

definition example_uuids :: "unit uuid_crate" where
  "example_uuids = \<lparr>uuid_parse_str = (\<lambda>_. None), uuid_is_nil = (\<lambda>_. False), uuid_hyphenated = (\<lambda>_. [])\<rparr>"

definition example_envelope :: EventEnvelope where
  "example_envelope =
     \<lparr>env_schema_version = 2, env_sequence = 1, env_event_id = ''e'', env_session_id = ''s'', env_request_id = Some ''q'',
      env_provider = ''p'', env_provider_sequence = None, env_event = ResponseStarted ''r''\<rparr>"

definition example_finalized :: "nat \<Rightarrow> FinalizedItems" where
  "example_finalized n = FinalizedItems_default\<lparr>fin_count := n\<rparr>"

lemma example_other:
  "\<not> associated example_created" "\<not> associated example_completed"
  "member_str example_created ''type'' = Some ''response.created''" "member_str example_completed ''type'' = Some ''response.completed''"
  "member_str example_done ''type'' = Some ''response.output_item.done''"
  by code_simp+

lemma example_observe:
  assumes "n < 4096"
  shows "FinalizedItems_observe example_crates example_created (example_finalized n) = example_finalized (min (n + 1) (2 ^ 64 - 1))"
    "FinalizedItems_observe example_crates example_completed (example_finalized n) = example_finalized (min (n + 1) (2 ^ 64 - 1))"
  using assms by (simp_all add: FinalizedItems_observe_def example_finalized_def FinalizedItems_default_def example_other Let_def)

lemma example_created_applied:
  "apply_all example_crates [example_created] ResponseDecoder_default =
     (Ok (map env_event [example_envelope]),
      ResponseDecoder_default\<lparr>dec_response_id := Some ''r'', dec_finalized := example_finalized (Suc 0)\<rparr>)"
proof -
  have "get_member example_created ''response'' = Some (Object [(''id'', String ''r'')])"
    "required_response_id (Object [(''id'', String ''r'')]) = Ok ''r''" by code_simp+
  then show ?thesis using example_observe(1) [of 0]
    by (simp add: apply_event_def apply_kind_def apply_created_def prog_defs example_other
        ResponseDecoder_default_def example_finalized_def FinalizedItems_default_def example_envelope_def)
qed

definition example_response_native :: Value where
  "example_response_native = index_member example_completed ''response''"

lemma example_parsed:
  "get_member example_completed ''response'' = Some example_response_native"
  "parse_response example_response_native = Ok \<lparr>response_provenance = NativeTerminal, response_id = ''r'', response_model = None,
     response_outcome = Completed, response_output = [], response_text = [], response_usage = None,
     response_native = example_response_native\<rparr>"
  "Option.bind (get_member example_response_native ''output'') as_array = Some []"
  by code_simp+

lemma example_completed_applied:
  "\<exists>r d. apply_all example_crates [example_completed] ResponseDecoder_default = (Ok [ResponseStarted ''r'', ResponseFinished r], d) \<and>
     response_outcome r = Completed"
  using example_observe(2) [of 0]
  by (simp add: apply_event_def apply_kind_def apply_terminal_def identify_response_def recover_output_def on_finalized_def recover_def
      prog_defs example_other example_parsed ResponseDecoder_default_def example_finalized_def FinalizedItems_default_def)

definition example_output_item :: OutputItem where
  "example_output_item =
     \<lparr>item_id = Some ''m1'', item_kind = Message, item_native_type = ''message'', item_function_call = None, item_native = example_item\<rparr>"

lemma example_recovery:
  "parse_item example_item = Ok example_output_item"
  "validate example_crates [example_done] ''r'' = Some [example_item]"
  "map_ok response_output (parse_response (set_member example_response_native ''output'' (Array [example_item]))) = Ok [example_output_item]"
  "member_str example_done ''response_id'' = None" "pointer2 example_done ''response'' ''id'' = None"
  "required_u64 example_done ''output_index'' = Ok 0" "get_member example_done ''item'' = Some example_item"
  "\<not> unacceptable example_crates [] example_done"
  "\<not> ends_with ''response.output_item.done'' ''.added''"
  by code_simp+

lemma example_done_observed:
  "FinalizedItems_observe example_crates example_done (example_finalized (Suc 0)) =
     \<lparr>fin_events = [example_done], fin_count = 2, fin_bytes = 4, fin_invalid = False, fin_evidence = True\<rparr>"
  by (simp add: FinalizedItems_observe_def record_event_def example_encoded example_associated example_recovery example_finalized_def
      FinalizedItems_default_def LIMIT_def Let_def)

lemma example_completed_observed:
  "FinalizedItems_observe example_crates example_completed
     \<lparr>fin_events = [example_done], fin_count = 2, fin_bytes = 4, fin_invalid = False, fin_evidence = True\<rparr> =
     \<lparr>fin_events = [example_done], fin_count = 3, fin_bytes = 4, fin_invalid = False, fin_evidence = True\<rparr>"
  by (simp add: FinalizedItems_observe_def example_other Let_def)

lemma example_recovered_applied:
  "\<exists>r d events. apply_all example_crates [example_created, example_done, example_completed] ResponseDecoder_default = (Ok events, d) \<and>
     ResponseFinished r \<in> set events \<and> response_provenance r = ValidatedOutputItemDone \<and> response_output r = [example_output_item]"
proof -
  obtain p where p: "parse_response (set_member example_response_native ''output'' (Array [example_item])) = Ok p"
      "response_output p = [example_output_item]"
    using example_recovery(3) by (auto simp: wi_results)
  have e: "then_do (apply_all example_crates [example_created]) f ResponseDecoder_default = f (map env_event [example_envelope])
      (ResponseDecoder_default\<lparr>dec_response_id := Some ''r'', dec_finalized := example_finalized (Suc 0)\<rparr>)" for f
    unfolding then_do_def example_created_applied by simp
  have a: "apply_all example_crates [example_created, example_done, example_completed] =
      then_do (apply_all example_crates [example_created]) (\<lambda>a.
      then_do (apply_all example_crates [example_done, example_completed]) (\<lambda>b. ret (a @ b)))"
    by (simp add: then_do_assoc ret_then_do)
  let ?r = "\<lparr>response_provenance = ValidatedOutputItemDone, response_id = ''r'', response_model = None, response_outcome = Completed,
    response_output = [example_output_item], response_text = response_text p, response_usage = None,
    response_native = example_response_native\<rparr>"
  have "\<exists>d. apply_all example_crates [example_created, example_done, example_completed] ResponseDecoder_default =
      (Ok (map env_event [example_envelope] @ [OutputItemFinished ''r'' 0 example_output_item, ResponseFinished ?r]), d)"
    unfolding a e
    by (simp add: apply_event_def apply_kind_def apply_item_def event_response_id_def apply_terminal_def identify_response_def
      recover_output_def on_finalized_def recover_def prog_defs example_other example_parsed example_recovery p
      example_done_observed example_completed_observed ResponseDecoder_default_def Let_def)
  then show ?thesis by (elim exE) (intro exI [of _ ?r] exI conjI, assumption, simp_all)
qed

text \<open>C20: the events of an accepted stream follow the grammar of one response: a single start with a nonempty
  id, then only events of that id, and nothing after the response has finished; the decoder's state says
  where in the grammar it is.\<close>

theorem decoder_follows_grammar:
  "case apply_all cr vs ResponseDecoder_default of
     (Inl _, _) \<Rightarrow> True
   | (Inr events, d) \<Rightarrow> response_grammar (None, False) events = Some (dec_response_id d, dec_finished d)"
  using apply_all_progress [of cr vs ResponseDecoder_default]
  by (auto simp: ResponseDecoder_default_def split: prod.splits sum.splits)

text \<open>C8: the collector of a run accepts every stream the decoder accepts: when the decoded events are wrapped in
  envelopes of one request of one session with increasing sequence numbers, observing them all
  succeeds, and the collector then knows the response id and whether the response has finished.\<close>

theorem collector_accepts_decoder:
  assumes "apply_all cr vs ResponseDecoder_default = (Ok (map env_event es), d)"
    and "list_all (matching uu session provider request) es" "increasing None es"
  shows "\<exists>c s. collect_envelopes uu session provider request es (Collector_default, None) = (Ok (), (c, s)) \<and>
    col_response_id c = dec_response_id d \<and> col_terminal c = dec_finished d"
proof -
  have "tracks (None, False) Collector_default" by (simp add: tracks_def Collector_default_def)
  moreover have "response_grammar (None, False) (map env_event es) = Some (progress d)"
    using apply_all_progress [OF assms(1)] by (simp add: ResponseDecoder_default_def)
  ultimately show ?thesis using collect_tracks [OF assms(2,3)] by (fastforce simp: tracks_def)
qed

theorem collector_accepts_decoder_witness:
  "\<exists>c s. collect_envelopes example_uuids ''s'' ''p'' ''q'' [example_envelope] (Collector_default, None) = (Ok (), (c, s)) \<and>
     col_response_id c = Some ''r'' \<and> \<not> col_terminal c"
  using collector_accepts_decoder [OF example_created_applied, of example_uuids "''s''" "''p''" "''q''"]
  by (simp add: example_envelope_def matching_def PROVIDER_ID_def ResponseDecoder_default_def)

text \<open>C21: a finished response counts as completed only if the event that finished it, the last of the stream, was
  a success event.\<close>

theorem completed_only_from_success:
  assumes "apply_all cr vs ResponseDecoder_default = (Ok events, d)" "ResponseFinished r \<in> set events"
    and "response_outcome r = Completed"
  shows "event_type (last vs) \<in> {''response.completed'', ''response.done''}"
  using apply_all_finished [OF assms(1,2)] assms(3) by auto

theorem completed_only_from_success_witness:
  "event_type (last [example_completed]) \<in> {''response.completed'', ''response.done''}"
proof -
  obtain r d where "apply_all example_crates [example_completed] ResponseDecoder_default = (Ok [ResponseStarted ''r'', ResponseFinished r], d)"
    "response_outcome r = Completed" using example_completed_applied by blast
  then show ?thesis by (intro completed_only_from_success) auto
qed

text \<open>C10: a response whose output was recovered from streamed items passes the check of stored responses exactly when the
  arguments of each of its calls fit in the executor's 64 KiB: recovery already guarantees that the calls are complete, direct and
  distinct with object arguments, but it lets arguments of up to 1 MiB through, which replay then rejects.\<close>

theorem recovered_response_replayable:
  assumes "apply_all cr vs ResponseDecoder_default = (Ok events, d)" "ResponseFinished r \<in> set events"
    and "response_provenance r = ValidatedOutputItemDone"
  shows "validate_response cr r = Ok () \<longleftrightarrow> (\<forall>call \<in> set (response_calls r). length (call_arguments call) \<le> 65536)"
proof -
  have "finish_spec cr (observe_all cr vs) r"
    using apply_all_finished [OF assms(1,2)] by (simp add: ResponseDecoder_default_def)
  moreover have "\<not> parse_response (response_native r) = Ok r"
    using assms(3) parse_response_provenance by fastforce
  ultimately obtain items g where r: "response_outcome r = Completed" "response_id r \<noteq> []"
      "recover cr (response_id r) (observe_all cr vs) = (Ok items, g)" "collect_results parse_item items = Ok (response_output r)"
    by (auto simp: finish_spec_def)
  have "validate_response_items cr [] (response_output r) = Ok () \<longleftrightarrow>
    list_all (\<lambda>call. length (call_arguments call) \<le> MAX_ARGUMENT_BYTES) (response_calls r)"
    unfolding response_calls_def by (rule complete_items_replayable) (use recover_recovered [OF r(3)] r(4) in \<open>auto simp: recovered_def\<close>)
  then show ?thesis using r(1,2) by (simp add: validate_response_def reject_if_def list_all_iff MAX_ARGUMENT_BYTES_def)
qed

theorem recovered_response_replayable_witness:
  "\<exists>r. response_provenance r = ValidatedOutputItemDone \<and> response_output r = [example_output_item] \<and>
     validate_response example_crates r = Ok ()"
proof -
  obtain r d events where a: "apply_all example_crates [example_created, example_done, example_completed] ResponseDecoder_default = (Ok events, d)"
    and r: "ResponseFinished r \<in> set events" "response_provenance r = ValidatedOutputItemDone" "response_output r = [example_output_item]"
    using example_recovered_applied by blast
  have "response_calls r = []" by (simp add: response_calls_def r(3) example_output_item_def map_filter_simps)
  then show ?thesis using recovered_response_replayable [OF a r(1,2)] r(2,3) by auto
qed

end
