(* ===== verification/Stream_Consistency.thy ===== *)
theory Stream_Consistency
  imports Response_Codec
begin

text \<open>
  The adapter's check of a streamed response against its terminal, \<open>src/providers/openai_codex/consistency.rs\<close>.
  The chunks in which \<open>serde_json::to_writer\<close> writes an event, and whether it then succeeds, are the
  parameter \<open>writes\<close>; they are charged against a byte budget one by one.
\<close>

section \<open>State\<close>

definition MAX_BYTES :: nat where "MAX_BYTES = 1024 * 1024"
definition MAX_EVENTS :: nat where "MAX_EVENTS = 4096"

definition inconsistent :: GatewayError where
  "inconsistent = Protocol ''streamed output is inconsistent with terminal output or exceeds tracking limits''"

record Lifecycle =
  lc_bytes :: nat
  lc_events :: nat
  lc_identities :: "(u64 \<times> str) list"
  lc_kinds :: "(u64 \<times> ItemKind) list"
  lc_parts :: "(u64 \<times> nat \<times> DeltaKind \<times> str) list"
  lc_finalized :: "(u64 \<times> Value) list"
  lc_rendered :: str

definition Lifecycle_default :: Lifecycle where
  "Lifecycle_default =
     \<lparr>lc_bytes = 0, lc_events = 0, lc_identities = [], lc_kinds = [], lc_parts = [], lc_finalized = [], lc_rendered = []\<rparr>"

type_synonym 'a lifecycle = "(Lifecycle, GatewayError, 'a) prog"
type_synonym event_writes = "ProviderEvent \<Rightarrow> str list \<times> bool"

text \<open>\<open>Budget::write\<close>.\<close>

definition charge :: "str \<Rightarrow> unit lifecycle" where
  "charge bytes =
     then_do (read lc_bytes) (\<lambda>n.
     then_do (fail_if (length bytes > MAX_BYTES - n) inconsistent) (\<lambda>_.
     update (\<lambda>l. l\<lparr>lc_bytes := lc_bytes l + length bytes\<rparr>)))"

fun charge_all :: "str list \<Rightarrow> unit lifecycle" where
  "charge_all [] = ret ()"
| "charge_all (chunk # chunks) = then_do (charge chunk) (\<lambda>_. charge_all chunks)"

definition charge_event :: "event_writes \<Rightarrow> ProviderEvent \<Rightarrow> unit lifecycle" where
  "charge_event writes event =
     then_do (charge_all (fst (writes event))) (\<lambda>_. fail_if (\<not> snd (writes event)) inconsistent)"

definition identity :: "u64 \<Rightarrow> str \<Rightarrow> unit lifecycle" where
  "identity index i =
     then_do (fail_if (i = [] \<or> index \<ge> 512) inconsistent) (\<lambda>_.
     then_do (read (\<lambda>l. List.find (\<lambda>(j, s). j = index \<or> s = i) (lc_identities l))) (\<lambda>old.
     case old of
       Some (old_index, old_id) \<Rightarrow> fail_if (old_index \<noteq> index \<or> old_id \<noteq> i) inconsistent
     | None \<Rightarrow> update (\<lambda>l. l\<lparr>lc_identities := lc_identities l @ [(index, i)]\<rparr>)))"

definition note_kind :: "u64 \<Rightarrow> ItemKind \<Rightarrow> unit lifecycle" where
  "note_kind index k =
     then_do (fail_if (index \<ge> 512) inconsistent) (\<lambda>_.
     then_do (read (\<lambda>l. map_of (lc_kinds l) index)) (\<lambda>old.
     case old of
       Some k' \<Rightarrow> fail_if (k' \<noteq> k) inconsistent
     | None \<Rightarrow> update (\<lambda>l. l\<lparr>lc_kinds := lc_kinds l @ [(index, k)]\<rparr>)))"

section \<open>Observing\<close>

definition observe_item :: "bool \<Rightarrow> u64 \<Rightarrow> OutputItem \<Rightarrow> unit lifecycle" where
  "observe_item fin index item =
     then_do (note_kind index (item_kind item)) (\<lambda>_.
     if item_kind item \<notin> {Message, FunctionCallKind} then ret ()
     else
       let expected_type = (if item_kind item = Message then ''message'' else ''function_call'')
       in
       then_do (fail_if (item_native_type item \<noteq> expected_type \<or> member_str (item_native item) ''type'' \<noteq> Some expected_type)
          inconsistent) (\<lambda>_.
       then_do (from_result (ok_or inconsistent (item_id item))) (\<lambda>i.
       then_do (identity index i) (\<lambda>_.
       then_do (fail_if (member_str (item_native item) ''id'' \<noteq> item_id item) inconsistent) (\<lambda>_.
       if fin then
         then_do (read lc_finalized) (\<lambda>done.
         then_do (fail_if (length done \<ge> 512) inconsistent) (\<lambda>_.
         then_do (fail_if (list_ex (\<lambda>(j, v). j = index \<and> \<not> Value_eq v (item_native item)) done) inconsistent) (\<lambda>_.
         update (\<lambda>l. l\<lparr>lc_finalized := lc_finalized l @ [(index, item_native item)]\<rparr>))))
       else ret ())))))"

fun append_part :: "u64 \<Rightarrow> nat \<Rightarrow> str \<Rightarrow> (u64 \<times> nat \<times> DeltaKind \<times> str) list \<Rightarrow> (u64 \<times> nat \<times> DeltaKind \<times> str) list" where
  "append_part index content delta [] = []"
| "append_part index content delta ((i, c, k, t) # ps) =
     (if i = index \<and> c = content then (i, c, k, t @ delta) # ps else (i, c, k, t) # append_part index content delta ps)"

definition store_part :: "u64 \<Rightarrow> nat \<Rightarrow> DeltaKind \<Rightarrow> str \<Rightarrow> unit lifecycle" where
  "store_part index content k delta =
     then_do (read (\<lambda>l. List.find (\<lambda>(i, c, _, _). i = index \<and> c = content) (lc_parts l))) (\<lambda>old.
     case old of
       Some (_, _, old_kind, _) \<Rightarrow>
         then_do (fail_if (old_kind \<noteq> k) inconsistent) (\<lambda>_.
         update (\<lambda>l. l\<lparr>lc_parts := append_part index content delta (lc_parts l)\<rparr>))
     | None \<Rightarrow> update (\<lambda>l. l\<lparr>lc_parts := lc_parts l @ [(index, content, k, delta)]\<rparr>))"

definition observe_delta :: "u64 \<Rightarrow> str \<Rightarrow> u64 option \<Rightarrow> DeltaKind \<Rightarrow> str \<Rightarrow> unit lifecycle" where
  "observe_delta index item content_index k delta =
     (if delta = [] then ret ()
      else
        then_do (identity index item) (\<lambda>_.
        then_do (note_kind index Message) (\<lambda>_.
        then_do (charge delta) (\<lambda>_.
        then_do (from_result (map_ok unat (ok_or inconsistent content_index))) (\<lambda>content.
        then_do (fail_if (content \<ge> 512) inconsistent) (\<lambda>_.
        then_do (store_part index content k delta) (\<lambda>_.
        update (\<lambda>l. l\<lparr>lc_rendered := lc_rendered l @ delta\<rparr>))))))))"

fun is_output_event :: "ProviderEvent \<Rightarrow> bool" where
  "is_output_event (OutputItemStarted _ _ _) = True"
| "is_output_event (OutputItemUpdated _ _ _ _ _ _ _) = True"
| "is_output_event (OutputItemFinished _ _ _) = True"
| "is_output_event _ = False"

definition observe_event :: "ProviderEvent \<Rightarrow> unit lifecycle" where
  "observe_event event =
     (case event of
        OutputItemStarted _ index item \<Rightarrow> observe_item False index item
      | OutputItemFinished _ index item \<Rightarrow> observe_item True index item
      | OutputItemUpdated _ item index content _ k delta \<Rightarrow>
          if k = TextDelta \<or> k = Refusal then observe_delta index item content k delta else ret ()
      | _ \<Rightarrow> ret ())"

definition Lifecycle_observe :: "event_writes \<Rightarrow> ProviderEvent \<Rightarrow> unit lifecycle" where
  "Lifecycle_observe writes event =
     then_do (update (\<lambda>l. l\<lparr>lc_events := lc_events l + 1\<rparr>)) (\<lambda>_.
     then_do (read lc_events) (\<lambda>n.
     then_do (fail_if (n > MAX_EVENTS) inconsistent) (\<lambda>_.
     then_do (if is_output_event event then charge_event writes event else ret ()) (\<lambda>_.
     observe_event event))))"

fun observe_events :: "event_writes \<Rightarrow> ProviderEvent list \<Rightarrow> unit lifecycle" where
  "observe_events writes [] = ret ()"
| "observe_events writes (e # es) = then_do (Lifecycle_observe writes e) (\<lambda>_. observe_events writes es)"

section \<open>Validation\<close>






section \<open>What the state says of the events\<close>





























section \<open>The byte budget\<close>

text \<open>\<open>n\<close> bytes are charged and not yet rendered.\<close>

definition budgeted :: "nat \<Rightarrow> Lifecycle \<Rightarrow> bool" where
  "budgeted n l \<longleftrightarrow> length (lc_rendered l) + n \<le> lc_bytes l \<and> lc_bytes l \<le> MAX_BYTES"

definition budget_keeps :: "Lifecycle \<Rightarrow> Lifecycle \<Rightarrow> bool" where
  "budget_keeps l l' \<longleftrightarrow> (\<forall>n. budgeted n l \<longrightarrow> budgeted n l')"

interpretation budget: step_relation budget_keeps
  by unfold_locales (auto simp: budget_keeps_def)

lemma budget_triple: "budget.kept m \<Longrightarrow> triple (budgeted n) m (\<lambda>_. budgeted n) (\<lambda>_. budgeted 0)"
proof (rule tripleI)
  fix s e s'
  assume "budget.kept m" "budgeted n s" "m s = (Err e, s')"
  then have "budgeted n s'" using budget.keptD unfolding budget_keeps_def by blast
  then show "budgeted 0 s'" by (simp add: budgeted_def)
next
  fix s a s'
  assume "budget.kept m" "budgeted n s" "m s = (Ok a, s')"
  then show "budgeted n s'" using budget.keptD unfolding budget_keeps_def by blast
qed

lemmas budget_steps = budget_triple [OF budget.kept_ret] budget_triple [OF budget.kept_read] budget_triple [OF budget.kept_fail_if]
  budget_triple [OF budget.kept_from_result]

lemma budget_charge: "budget.kept (charge b)"
  by (rule budget.keptI) (auto simp: charge_def prog_defs budget_keeps_def budgeted_def split: if_splits)

lemma budget_charge_more: "triple (budgeted 0) (charge b) (\<lambda>_. budgeted (length b)) (\<lambda>_. budgeted 0)"
  unfolding charge_def by (rule triple_pre, (rule hoare)+) (auto simp: budgeted_def)

lemma budget_charge_all: "budget.kept (charge_all bs)"
  by (induction bs) (simp_all add: budget.kept_ret budget.kept_then budget_charge)

lemma budget_quiet: "(\<And>l. lc_bytes (f l) = lc_bytes l \<and> lc_rendered (f l) = lc_rendered l) \<Longrightarrow> budget.kept (update f)"
  by (rule budget.kept_update) (simp add: budget_keeps_def budgeted_def)

lemma budget_identity: "budget.kept (identity index i)"
  unfolding identity_def
  by (intro budget.kept_then budget.kept_fail_if budget.kept_read) (auto intro: budget.kept_fail_if budget_quiet split: option.split)

lemma budget_note_kind: "budget.kept (note_kind index k)"
  unfolding note_kind_def
  by (intro budget.kept_then budget.kept_fail_if budget.kept_read) (auto intro: budget.kept_fail_if budget_quiet split: option.split)

lemma budget_store_part: "budget.kept (store_part index content k delta)"
  unfolding store_part_def
  by (intro budget.kept_then budget.kept_read) (auto intro!: budget.kept_then budget.kept_fail_if budget_quiet split: option.split)

lemma budget_observe_item: "budget.kept (observe_item fin index item)"
  unfolding observe_item_def Let_def
  by (intro budget.kept_rules budget_note_kind budget_identity budget_quiet) simp_all

lemma budget_observe_delta:
  "triple (budgeted 0) (observe_delta index item content k delta) (\<lambda>_. budgeted 0) (\<lambda>_. budgeted 0)"
proof -
  have "triple (budgeted (length delta)) (update (\<lambda>l. l\<lparr>lc_rendered := lc_rendered l @ delta\<rparr>)) (\<lambda>_. budgeted 0) (\<lambda>_. budgeted 0)"
    by (rule triple_pre, rule hoare) (simp add: budgeted_def)
  note render = this
  show ?thesis unfolding observe_delta_def
    by (rule triple_if, rule budget_steps)
      (rule render budget_triple [OF budget_store_part] budget_charge_more budget_triple [OF budget_note_kind]
        budget_triple [OF budget_identity] budget_steps triple_then)+
qed

lemma budget_observe: "triple (budgeted 0) (Lifecycle_observe writes e) (\<lambda>_. budgeted 0) (\<lambda>_. budgeted 0)"
proof -
  have "triple (budgeted 0) (observe_event e) (\<lambda>_. budgeted 0) (\<lambda>_. budgeted 0)"
    unfolding observe_event_def
    by (cases e) (auto intro: budget_triple [OF budget.kept_ret] budget_triple [OF budget_observe_item] budget_observe_delta)
  note ev = this
  have "budget.kept (if is_output_event e then charge_event writes e else ret ())"
    unfolding charge_event_def by (intro budget.kept_rules budget_charge_all)
  note ch = budget_triple [OF this]
  have "budget.kept (update (\<lambda>l. l\<lparr>lc_events := lc_events l + 1\<rparr>))" by (rule budget_quiet) simp
  note up = budget_triple [OF this]
  show ?thesis unfolding Lifecycle_observe_def by (rule ev ch up budget_steps triple_then)+
qed

lemma budget_observe_events: "triple (budgeted 0) (observe_events writes es) (\<lambda>_. budgeted 0) (\<lambda>_. budgeted 0)"
  by (induction es) (auto intro: budget_triple [OF budget.kept_ret] triple_then budget_observe)

section \<open>Properties\<close>










text \<open>C24: whatever events are observed, and also when one is refused, the bytes charged stay within 1 MiB (so the
  budget left is never computed from a larger number) and the rendered text is no longer than they are.\<close>

theorem lifecycle_budget:
  "case observe_events writes es Lifecycle_default of
     (_, l) \<Rightarrow> length (lc_rendered l) \<le> lc_bytes l \<and> lc_bytes l \<le> MAX_BYTES"
proof -
  have b: "budgeted 0 Lifecycle_default" by (simp add: budgeted_def Lifecycle_default_def)
  obtain r l where o: "observe_events writes es Lifecycle_default = (r, l)" by fastforce
  have "budgeted 0 l"
    using tripleD_Ok [OF budget_observe_events b] tripleD_Err [OF budget_observe_events b] o by (cases r) blast+
  then show ?thesis by (simp add: o budgeted_def)
qed

end
