(* ===== verification/Storage_Records.thy ===== *)
theory Storage_Records
  imports Run_Controller
begin

text \<open>
  The values the session store records: errors (\<open>src/storage/error.rs\<close>), run inputs and append records
  (\<open>src/storage/records.rs\<close>), history selections and provider bindings (\<open>src/storage/replay_metadata.rs\<close>),
  receipts and creation provenance (\<open>src/storage/dto.rs\<close>), and the skill ids a run input names
  (\<open>src/context.rs\<close>).

  Identifier types (\<open>RunId\<close>, \<open>OperationId\<close>, \<open>StoredEventId\<close>, \<open>ApplicationSessionId\<close>) are the strings they wrap.
  The JSON text \<open>dto::canonical_json\<close> writes for a request is a parameter of \<open>store_env\<close>, as SHA-256 and the uuid
  library are.
\<close>

section \<open>Errors\<close>

datatype CommitCertainty = NotApplicable | NotCommitted | UnknownCommit

datatype StorageErrorKind =
    InvalidInput | Busy | Closed | NotFound | Unavailable | UnsupportedVersion | Integrity | CommandConflict
  | InvalidTransition | ActiveRunExists | StaleHistory | CatalogRepairRequired | CreationIncomplete | Io
  | CommitUnknown

record StorageError =
  error_kind :: StorageErrorKind
  error_certainty :: CommitCertainty

definition StorageError_new :: "StorageErrorKind \<Rightarrow> StorageError" where
  "StorageError_new kind =
     \<lparr>error_kind = kind, error_certainty = (if kind = CommitUnknown then UnknownCommit else NotApplicable)\<rparr>"

definition not_committed :: "StorageError \<Rightarrow> StorageError" where
  "not_committed e = e\<lparr>error_certainty := NotCommitted\<rparr>"

definition unknown_commit :: "StorageError \<Rightarrow> StorageError" where
  "unknown_commit e = e\<lparr>error_certainty := UnknownCommit\<rparr>"

fun StorageErrorKind_code :: "StorageErrorKind \<Rightarrow> str" where
  "StorageErrorKind_code InvalidInput = ''storage.invalid_input''"
| "StorageErrorKind_code Busy = ''storage.busy''"
| "StorageErrorKind_code Closed = ''storage.closed''"
| "StorageErrorKind_code NotFound = ''storage.not_found''"
| "StorageErrorKind_code Unavailable = ''storage.unavailable''"
| "StorageErrorKind_code UnsupportedVersion = ''storage.unsupported_version''"
| "StorageErrorKind_code Integrity = ''storage.integrity''"
| "StorageErrorKind_code CommandConflict = ''storage.command_conflict''"
| "StorageErrorKind_code InvalidTransition = ''storage.invalid_transition''"
| "StorageErrorKind_code ActiveRunExists = ''storage.active_run_exists''"
| "StorageErrorKind_code StaleHistory = ''storage.stale_history''"
| "StorageErrorKind_code CatalogRepairRequired = ''storage.catalog_repair_required''"
| "StorageErrorKind_code CreationIncomplete = ''storage.creation_incomplete''"
| "StorageErrorKind_code Io = ''storage.io''"
| "StorageErrorKind_code CommitUnknown = ''storage.commit_unknown''"

definition StorageError_from_code :: "str \<Rightarrow> StorageError option" where
  "StorageError_from_code code =
     List.find (\<lambda>e. StorageErrorKind_code (error_kind e) = code)
       (map StorageError_new [InvalidInput, Busy, Closed, NotFound, Unavailable, UnsupportedVersion, Integrity,
          CommandConflict, InvalidTransition, ActiveRunExists, CatalogRepairRequired, CreationIncomplete, Io,
          CommitUnknown, StaleHistory])"

definition invalid :: StorageError where "invalid = StorageError_new InvalidInput"

definition integrity :: StorageError where "integrity = StorageError_new Integrity"

definition transition :: StorageError where "transition = StorageError_new InvalidTransition"

section \<open>Skill ids\<close>

datatype Scope = Global | Project

record SkillId =
  skill_scope :: Scope
  skill_name :: str

fun Scope_to_string :: "Scope \<Rightarrow> str" where
  "Scope_to_string Global = ''global''"
| "Scope_to_string Project = ''project''"

definition SkillId_to_string :: "SkillId \<Rightarrow> str" where
  "SkillId_to_string i = Scope_to_string (skill_scope i) @ '':'' @ skill_name i"

definition is_ascii_lowercase :: "char \<Rightarrow> bool" where
  "is_ascii_lowercase c \<longleftrightarrow> 97 \<le> byte c \<and> byte c \<le> 122"

definition valid_name :: "str \<Rightarrow> bool" where
  "valid_name name \<longleftrightarrow>
     name \<noteq> [] \<and> length name \<le> 64 \<and>
     list_all (\<lambda>b. is_ascii_lowercase b \<or> is_ascii_digit b \<or> b = CHR ''-'') name \<and>
     hd name \<noteq> CHR ''-'' \<and> last name \<noteq> CHR ''-'' \<and> adjacent (\<lambda>a b. \<not> (a = CHR ''-'' \<and> b = CHR ''-'')) name"

definition SkillId_from_str :: "str \<Rightarrow> SkillId option" where
  "SkillId_from_str value =
     Option.bind (split_once CHR '':'' value) (\<lambda>(scope, name).
     Option.bind (if scope = ''global'' then Some Global else if scope = ''project'' then Some Project else None) (\<lambda>scope.
     if \<not> valid_name name then None else Some \<lparr>skill_scope = scope, skill_name = name\<rparr>))"

section \<open>Run inputs\<close>

record RecordedRunInput =
  in_user_text :: str
  in_prepared_request :: RunRequest
  in_tool_definitions :: "ToolDefinition list"
  in_available_skills :: "str list"
  in_active_skills :: "str list"
  in_project_instructions_source :: "str option"

text \<open>The two loops over skill ids with the set of ids already inserted.\<close>

fun check_available :: "str list \<Rightarrow> str list \<Rightarrow> StorageError + unit" where
  "check_available seen [] = Ok ()"
| "check_available seen (i # ids) =
     and_then (ok_or invalid (SkillId_from_str i)) (\<lambda>_.
     and_then (reject_if (i \<in> set seen) invalid) (\<lambda>_.
     check_available (i # seen) ids))"

fun check_active :: "str list \<Rightarrow> str list \<Rightarrow> str list \<Rightarrow> StorageError + unit" where
  "check_active available seen [] = Ok ()"
| "check_active available seen (i # ids) =
     and_then (reject_if (i \<notin> set available \<or> i \<in> set seen) invalid) (\<lambda>_.
     check_active available (i # seen) ids)"

definition RecordedRunInput_new ::
    "crates \<Rightarrow> str \<Rightarrow> RunRequest \<Rightarrow> ToolDefinition list \<Rightarrow> str list \<Rightarrow> str list \<Rightarrow> str option \<Rightarrow>
     StorageError + RecordedRunInput" where
  "RecordedRunInput_new cr user request tools available active source =
     and_then (reject_if (opt_tools (req_options request) \<noteq> []) invalid) (\<lambda>_.
     and_then (map_err (\<lambda>_. invalid) (validate_input cr [User user])) (\<lambda>_.
     and_then (map_err (\<lambda>_. invalid) (validate_input cr [User (req_prompt request)])) (\<lambda>_.
     and_then (map_err (\<lambda>_. invalid) (SessionOptions_validate cr ((req_options request)\<lparr>opt_tools := tools\<rparr>))) (\<lambda>_.
     and_then (check_available [] available) (\<lambda>_.
     and_then (check_active available [] active) (\<lambda>_.
     and_then (reject_if (case source of None \<Rightarrow> False | Some s \<Rightarrow> s \<noteq> ''project:AGENTS.md'') invalid) (\<lambda>_.
     Ok \<lparr>in_user_text = user, in_prepared_request = request, in_tool_definitions = tools,
         in_available_skills = available, in_active_skills = active,
         in_project_instructions_source = source\<rparr>)))))))"

definition RecordedRunInput_try_from :: "crates \<Rightarrow> RecordedRunInput \<Rightarrow> StorageError + RecordedRunInput" where
  "RecordedRunInput_try_from cr value =
     RecordedRunInput_new cr (in_user_text value) (in_prepared_request value) (in_tool_definitions value)
       (in_available_skills value) (in_active_skills value) (in_project_instructions_source value)"

section \<open>History selections and provider bindings\<close>

record StoredHistorySelection =
  sel_policy :: str
  sel_through_sequence :: u64
  sel_history_digest :: str
  sel_provider_id :: str
  sel_requested_model :: str
  sel_expected_identity :: "ReplayIdentity option"

definition i64_max :: u64 where
  "i64_max = 2 ^ 63 - 1"

definition StoredHistorySelection_new ::
    "crates \<Rightarrow> u64 \<Rightarrow> str \<Rightarrow> str \<Rightarrow> str \<Rightarrow> ReplayIdentity option \<Rightarrow> StorageError + StoredHistorySelection" where
  "StoredHistorySelection_new cr through digest provider model identity =
     and_then (reject_if (through = 0 \<or> through > i64_max \<or> \<not> valid_digest digest \<or> is_blank provider
        \<or> (case identity of None \<Rightarrow> False | Some i \<Rightarrow> ri_provider_id i \<noteq> provider)) invalid) (\<lambda>_.
     and_then (map_err (\<lambda>_. invalid) (SessionOptions_validate cr (SessionOptions_new model))) (\<lambda>_.
     Ok \<lparr>sel_policy = ''closed-exchanges-v1'', sel_through_sequence = through, sel_history_digest = digest,
         sel_provider_id = provider, sel_requested_model = model, sel_expected_identity = identity\<rparr>))"

text \<open>The deserializer also reads the identity through \<open>ReplayIdentity::new\<close>.\<close>

definition ReplayIdentity_try_from :: "ReplayIdentity \<Rightarrow> GatewayError + ReplayIdentity" where
  "ReplayIdentity_try_from value =
     ReplayIdentity_new (ri_provider_id value) (ri_format value) (ri_principal_digest value)"

definition StoredHistorySelection_try_from ::
    "crates \<Rightarrow> StoredHistorySelection \<Rightarrow> StorageError + StoredHistorySelection" where
  "StoredHistorySelection_try_from cr value =
     and_then (map_err (\<lambda>_. invalid) (map_transpose ReplayIdentity_try_from (sel_expected_identity value))) (\<lambda>identity.
     and_then (reject_if (sel_policy value \<noteq> ''closed-exchanges-v1'') invalid) (\<lambda>_.
     StoredHistorySelection_new cr (sel_through_sequence value) (sel_history_digest value) (sel_provider_id value)
       (sel_requested_model value) identity))"

definition selection_matches_input :: "StoredHistorySelection \<Rightarrow> RecordedRunInput \<Rightarrow> bool" where
  "selection_matches_input s input \<longleftrightarrow>
     sel_provider_id s = req_provider_id (in_prepared_request input) \<and>
     sel_requested_model s = opt_model (req_options (in_prepared_request input))"

record RecordedProviderBinding =
  bind_run_id :: str
  bind_provider_session_id :: str
  bind_requested_model :: str
  bind_identity :: ReplayIdentity

definition RecordedProviderBinding_new ::
    "crates \<Rightarrow> str \<Rightarrow> str \<Rightarrow> str \<Rightarrow> ReplayIdentity \<Rightarrow> StorageError + RecordedProviderBinding" where
  "RecordedProviderBinding_new cr run session model identity =
     and_then (reject_if (is_blank session) invalid) (\<lambda>_.
     and_then (map_err (\<lambda>_. invalid) (SessionOptions_validate cr (SessionOptions_new model))) (\<lambda>_.
     Ok \<lparr>bind_run_id = run, bind_provider_session_id = session, bind_requested_model = model,
         bind_identity = identity\<rparr>))"

definition binding_matches_input :: "RecordedProviderBinding \<Rightarrow> RecordedRunInput \<Rightarrow> bool" where
  "binding_matches_input b input \<longleftrightarrow>
     ri_provider_id (bind_identity b) = req_provider_id (in_prepared_request input) \<and>
     bind_requested_model b = opt_model (req_options (in_prepared_request input))"

section \<open>Append records\<close>

datatype AppendRunRecord =
    AppendProviderBinding RecordedProviderBinding
  | AppendRuntime RunEventEnvelope
  | AppendToolResult "str option" str str bool
  | AppendResult RunResult

text \<open>\<open>value.parse::<RunId>()\<close> keeps only the error.\<close>

definition parse_run_id :: "'u uuid_crate \<Rightarrow> str \<Rightarrow> StorageError + str" where
  "parse_run_id uu value = map_err (\<lambda>_. invalid) (storage_id_from_str uu value)"

definition runtime_identities_valid :: "RunEventEnvelope \<Rightarrow> bool" where
  "runtime_identities_valid event =
     (case re_event event of
        RunStarted \<Rightarrow> re_turn_id event = None \<and> re_session_id event = None \<and> re_request_id event = None
      | TurnStarted _ \<Rightarrow> re_turn_id event \<noteq> None \<and> re_session_id event \<noteq> None \<and> re_request_id event = None
      | ProviderEventReceived provider \<Rightarrow>
          re_turn_id event \<noteq> None \<and> re_session_id event = Some (env_session_id provider) \<and>
          re_request_id event \<noteq> None \<and> re_request_id event = env_request_id provider
      | ToolEvent _ \<Rightarrow> re_turn_id event \<noteq> None \<and> re_session_id event \<noteq> None \<and> re_request_id event \<noteq> None
      | TurnFinished _ _ _ _ \<Rightarrow> re_turn_id event \<noteq> None \<and> re_session_id event \<noteq> None
      | RunFinished _ _ \<Rightarrow> re_turn_id event = None)"

definition validate_runtime :: "'u uuid_crate \<Rightarrow> RunEventEnvelope \<Rightarrow> StorageError + unit" where
  "validate_runtime uu event =
     and_then (reject_if (re_schema_version event \<noteq> 2 \<or>
        (case re_event event of ProviderEventReceived provider \<Rightarrow> env_schema_version provider \<noteq> 1 | _ \<Rightarrow> False))
        (StorageError_new UnsupportedVersion)) (\<lambda>_.
     and_then (parse_run_id uu (re_run_id event)) (\<lambda>_.
     and_then (reject_if (re_sequence event = 0 \<or> re_sequence event > i64_max \<or> re_event_id event = []) invalid) (\<lambda>_.
     reject_if (\<not> runtime_identities_valid event) transition)))"

definition AppendRunRecord_validate :: "'u uuid_crate \<Rightarrow> AppendRunRecord \<Rightarrow> StorageError + unit" where
  "AppendRunRecord_validate uu record =
     (case record of
        AppendRuntime event \<Rightarrow> validate_runtime uu event
      | AppendResult result \<Rightarrow> map_ok (\<lambda>_. ()) (parse_run_id uu (result_run_id result))
      | AppendToolResult _ _ _ _ \<Rightarrow> Ok ()
      | AppendProviderBinding _ \<Rightarrow> Ok ())"

definition optional_uuid :: "'u uuid_crate \<Rightarrow> str option \<Rightarrow> bool" where
  "optional_uuid uu value = (case value of None \<Rightarrow> True | Some v \<Rightarrow> is_canonical_uuid uu v)"

definition call_valid :: "str \<Rightarrow> bool" where
  "call_valid value \<longleftrightarrow> value \<noteq> [] \<and> length value \<le> 512"

fun tool_event_call :: "ToolExecutionEvent \<Rightarrow> str" where
  "tool_event_call (ToolExecutionStarted c _) = c"
| "tool_event_call (ToolExecutionFinished c _ _) = c"
| "tool_event_call (ToolResultReused c _) = c"

definition validate_admission :: "'u uuid_crate \<Rightarrow> AppendRunRecord \<Rightarrow> StorageError + unit" where
  "validate_admission uu record =
     and_then (AppendRunRecord_validate uu record) (\<lambda>_.
     reject_if (\<not> (case record of
        AppendRuntime event \<Rightarrow>
          is_canonical_uuid uu (re_run_id event) \<and> is_canonical_uuid uu (re_event_id event) \<and>
          optional_uuid uu (re_turn_id event) \<and> optional_uuid uu (re_request_id event) \<and>
          (case re_event event of
             ProviderEventReceived provider \<Rightarrow> optional_uuid uu (env_request_id provider)
           | RunFinished _ summary \<Rightarrow> optional_uuid uu (last_request_id summary)
           | ToolEvent tool \<Rightarrow> call_valid (tool_event_call tool)
           | _ \<Rightarrow> True)
      | AppendToolResult request call _ _ \<Rightarrow> optional_uuid uu request \<and> call_valid call
      | AppendResult result \<Rightarrow>
          is_canonical_uuid uu (result_run_id result) \<and> optional_uuid uu (last_request_id (result_summary result))
      | AppendProviderBinding _ \<Rightarrow> True)) invalid)"

definition validate_provider_admission :: "'u uuid_crate \<Rightarrow> AppendRunRecord \<Rightarrow> str \<Rightarrow> StorageError + unit" where
  "validate_provider_admission uu record provider =
     (if provider \<noteq> PROVIDER_ID then Ok ()
      else case record of
        AppendRuntime event \<Rightarrow>
          and_then (case re_event event of
             ProviderEventReceived nested \<Rightarrow>
               and_then (reject_if (env_provider nested \<noteq> provider) transition) (\<lambda>_.
               reject_if (\<not> is_local_event_id uu (env_event_id nested) (env_session_id nested) (env_sequence nested)) invalid)
           | _ \<Rightarrow> Ok ()) (\<lambda>_.
          reject_if (\<not> optional_uuid uu (re_session_id event)) invalid)
      | AppendResult result \<Rightarrow> reject_if (\<not> optional_uuid uu (result_session_id result)) invalid
      | AppendProviderBinding binding \<Rightarrow>
          reject_if (\<not> is_canonical_uuid uu (bind_provider_session_id binding)) invalid
      | AppendToolResult _ _ _ _ \<Rightarrow> Ok ())"

section \<open>The integers of SQLite\<close>

text \<open>A sequence number is a nonnegative \<open>i64\<close> in a column and a \<open>u64\<close> in memory.\<close>

lemma i64_bounds: "unat (w :: u64) < 9223372036854775808 \<longleftrightarrow> w \<le> i64_max"
proof -
  have "unat i64_max = 2 ^ 63 - 1" by (simp add: i64_max_def)
  then show ?thesis by (simp add: word_le_nat_alt) linarith
qed

lemma sint_u64_small: "w \<le> i64_max \<Longrightarrow> sint (w :: u64) = uint w"
proof -
  assume "w \<le> i64_max"
  then have "unat w < 2 ^ 63" by (simp add: i64_bounds)
  then have u: "uint w < 2 ^ 63" by (simp only: uint_unat_less)
  have "- (2 ^ 63) \<le> uint w" by (rule order_trans [of _ 0]) simp_all
  then show ?thesis using u by (simp add: sint_uint signed_take_bit_int_eq_self_iff)
qed

lemma i64_try_from_u64_small: "w \<le> i64_max \<Longrightarrow> i64_try_from_u64 w = Some (sint w)"
  by (simp add: i64_try_from_u64_def i64_bounds sint_u64_small)

lemma i64_try_from_u64_large: "\<not> w \<le> i64_max \<Longrightarrow> i64_try_from_u64 w = None"
  by (simp add: i64_try_from_u64_def i64_bounds)

lemma uint_of_i64: "0 \<le> i \<Longrightarrow> i < 2 ^ 63 \<Longrightarrow> uint (of_int i :: u64) = i"
  by (simp add: uint_word_of_int take_bit_int_eq_self)

lemma of_i64_small: 
  assumes "0 \<le> i" "i < 2 ^ 63" shows "(of_int i :: u64) \<le> i64_max"
  using uint_of_i64 [OF assms] assms uint_unat_less [of "of_int i"] by (simp add: i64_bounds)

lemma sint_of_i64: "0 \<le> i \<Longrightarrow> i < 2 ^ 63 \<Longrightarrow> sint (of_int i :: u64) = i"
  using sint_u64_small [OF of_i64_small] uint_of_i64 by metis

lemma sint_i64_range: "w \<le> i64_max \<Longrightarrow> 0 \<le> sint (w :: u64) \<and> sint w < 2 ^ 63"
  using uint_unat_less [of w] by (simp add: sint_u64_small i64_bounds)

lemma of_int_sint: "of_int (sint w) = (w :: u64)"
  by simp

lemma u64_try_from_i64_nonneg: "0 \<le> i \<Longrightarrow> i < 2 ^ 63 \<Longrightarrow> u64_try_from_i64 i = Some (of_int i)"
  by (simp add: u64_try_from_i64_def)

lemma of_i64_eq: "0 \<le> i \<Longrightarrow> i < 2 ^ 63 \<Longrightarrow> 0 \<le> j \<Longrightarrow> j < 2 ^ 63 \<Longrightarrow> (of_int i :: u64) = of_int j \<longleftrightarrow> i = j"
  using sint_of_i64 by metis

lemma of_i64_less: "0 \<le> i \<Longrightarrow> i < 2 ^ 63 \<Longrightarrow> 0 \<le> j \<Longrightarrow> j < 2 ^ 63 \<Longrightarrow> (of_int i :: u64) < of_int j \<longleftrightarrow> i < j"
  by (simp only: word_less_def uint_of_i64)

lemma of_i64_le: "0 \<le> i \<Longrightarrow> i < 2 ^ 63 \<Longrightarrow> 0 \<le> j \<Longrightarrow> j < 2 ^ 63 \<Longrightarrow> (of_int i :: u64) \<le> of_int j \<longleftrightarrow> i \<le> j"
  by (simp only: word_le_def uint_of_i64)

lemma checked_add_u64_i64:
  assumes "0 \<le> i" "i < 2 ^ 63" shows "checked_add_u64 (of_int i) 1 = Some (of_int (i + 1))"
proof -
  have "unat (of_int i :: u64) < 2 ^ 63" using of_i64_small [OF assms] by (simp add: i64_bounds)
  then have "unat (of_int i :: u64) + 1 < 2 ^ 64" by simp
  then show ?thesis by (simp add: checked_add_u64_def)
qed

section \<open>Results that survive\<close>

definition ok_le :: "'e + 'a \<Rightarrow> 'f + 'a \<Rightarrow> bool" where
  "ok_le m m' \<longleftrightarrow> (\<forall>a. m = Ok a \<longrightarrow> m' = Ok a)"

named_theorems ok_mono \<open>an answer that is kept when its inputs answer more often\<close>

lemma ok_leD: "ok_le m m' \<Longrightarrow> m = Ok a \<Longrightarrow> m' = Ok a"
  by (simp add: ok_le_def)

lemma ok_le_refl [ok_mono]: "ok_le m m"
  by (simp add: ok_le_def)

lemma ok_le_and_then [ok_mono]:
  "ok_le m m' \<Longrightarrow> (\<And>a. ok_le (f a) (f' a)) \<Longrightarrow> ok_le (and_then m f) (and_then m' f')"
  by (auto simp: ok_le_def and_then_Ok_iff)

lemma ok_le_map_transpose [ok_mono]:
  "(\<And>a. ok_le (f a) (f' a)) \<Longrightarrow> ok_le (map_transpose f x) (map_transpose f' x)"
  by (cases x) (auto simp: ok_le_def map_ok_Ok_iff)

lemma ok_le_option [ok_mono]:
  "ok_le m m' \<Longrightarrow> (\<And>a. ok_le (f a) (f' a)) \<Longrightarrow>
     ok_le (case x of None \<Rightarrow> m | Some a \<Rightarrow> f a) (case x of None \<Rightarrow> m' | Some a \<Rightarrow> f' a)"
  by (cases x) auto

lemma ok_le_prod [ok_mono]:
  "(\<And>a b. ok_le (f a b) (f' a b)) \<Longrightarrow> ok_le (case x of (a, b) \<Rightarrow> f a b) (case x of (a, b) \<Rightarrow> f' a b)"
  by (cases x) auto

end
