(* ===== verification/Session_Tables.thy ===== *)
theory Session_Tables
  imports Storage_Records
begin

text \<open>
  One session database: its tables (\<open>src/storage/session_v2.sql\<close> and \<open>src/storage/session_v3.sql\<close>), the decoding of
  stored events and the history reader (\<open>src/storage/history.rs\<close>), receipts and provenance (\<open>src/storage/dto.rs\<close>), the
  manifest checks and the creation of a database (\<open>src/storage/session_schema.rs\<close>), the projection cursor
  (\<open>src/storage/conversation/projector.rs\<close>) and the rename command (\<open>src/storage/session.rs\<close>).

  SQLite is the language of these sources; the model is a record of tables, each a list of rows.  A query is a
  function of the tables, a statement that writes is \<open>execute\<close>: it answers \<open>storage.integrity\<close>, as
  \<open>database::error\<close> does for a constraint violation, when the written tables break a constraint of the schema.
  A \<open>*_json\<close> column holds the value its text encodes, and reading it applies the checks of that type's
  deserializer.  A transaction (\<open>transact\<close>) restores the tables when its body fails.
  The rows of the conversation display are a parameter of type \<open>'d\<close>.
\<close>

section \<open>Receipts and creation provenance\<close>

record CommitReceipt =
  rc_operation_id :: str
  rc_session_id :: str
  rc_run_id :: "str option"
  rc_first_sequence :: u64
  rc_last_sequence :: u64

definition CommitReceipt_try_from :: "CommitReceipt \<Rightarrow> StorageError + CommitReceipt" where
  "CommitReceipt_try_from value =
     and_then (reject_if (rc_first_sequence value = 0 \<or> rc_last_sequence value < rc_first_sequence value
        \<or> rc_last_sequence value > i64_max) invalid) (\<lambda>_.
     Ok value)"

definition CommitReceipt_single :: "str \<Rightarrow> str \<Rightarrow> i64 \<Rightarrow> StorageError + CommitReceipt" where
  "CommitReceipt_single operation session sequence =
     and_then (ok_or invalid (u64_try_from_i64 sequence)) (\<lambda>sequence.
     CommitReceipt_try_from \<lparr>rc_operation_id = operation, rc_session_id = session, rc_run_id = None,
       rc_first_sequence = sequence, rc_last_sequence = sequence\<rparr>)"

definition CommitReceipt_run_batch :: "str \<Rightarrow> str \<Rightarrow> str \<Rightarrow> i64 \<Rightarrow> i64 \<Rightarrow> StorageError + CommitReceipt" where
  "CommitReceipt_run_batch operation session run first final =
     and_then (ok_or invalid (u64_try_from_i64 first)) (\<lambda>first.
     and_then (ok_or invalid (u64_try_from_i64 final)) (\<lambda>final.
     CommitReceipt_try_from \<lparr>rc_operation_id = operation, rc_session_id = session, rc_run_id = Some run,
       rc_first_sequence = first, rc_last_sequence = final\<rparr>))"

record CreateSession =
  cs_operation_id :: str
  cs_title :: str
  cs_workspace :: "str option"

text \<open>\<open>Path::is_absolute\<close> on Unix: the path begins with a slash.\<close>

definition validate_workspace :: "str option \<Rightarrow> StorageError + unit" where
  "validate_workspace workspace =
     reject_if (case workspace of None \<Rightarrow> False
       | Some value \<Rightarrow> \<not> (value \<noteq> [] \<and> hd value = CHR ''/'') \<or> CHR 0x00 \<in> set value) invalid"

definition CreateSession_new :: "str \<Rightarrow> str \<Rightarrow> str option \<Rightarrow> StorageError + CreateSession" where
  "CreateSession_new operation title workspace =
     and_then (validate_workspace workspace) (\<lambda>_.
     Ok \<lparr>cs_operation_id = operation, cs_title = title, cs_workspace = workspace\<rparr>)"

record CreationRequest =
  cq_method :: str
  cq_title :: str
  cq_workspace :: "str option"

definition CreateSession_request :: "CreateSession \<Rightarrow> CreationRequest" where
  "CreateSession_request input =
     \<lparr>cq_method = ''create_session'', cq_title = cs_title input, cq_workspace = cs_workspace input\<rparr>"

record CreationProvenance =
  pv_operation_id :: str
  pv_method :: str
  pv_request_json :: str
  pv_payload_hash :: str
  pv_session_id :: str
  pv_creation_event_id :: str
  pv_created_at_ms :: i64
  pv_receipt :: CommitReceipt

datatype Mutation =
    Accept RecordedRunInput
  | AcceptHistory RecordedRunInput StoredHistorySelection
  | Append "AppendRunRecord list"

datatype ProjectorInput =
    ProjectCreated
  | ProjectRenamed
  | ProjectAccepted RecordedRunInput
  | ProjectHistorySelected
  | ProjectProviderBound
  | ProjectRuntime RunEventEnvelope
  | ProjectToolResult "str option" str str bool
  | ProjectResult RunResult
  | ProjectInterrupted

text \<open>The parameters of the store: the libraries it calls and the display rows.\<close>

record ('u, 'd) store_env =
  se_uuid :: "'u uuid_crate"
  se_crates :: crates
  se_creation_json :: "CreationRequest \<Rightarrow> str"
  se_creation_decode :: "str \<Rightarrow> CreationRequest option"
  se_rename_json :: "str \<Rightarrow> str \<Rightarrow> str"
  se_command_json :: "str \<Rightarrow> str \<Rightarrow> Mutation \<Rightarrow> str"
  se_display_empty :: 'd
  se_display_apply :: "str \<Rightarrow> u64 \<Rightarrow> ProjectorInput \<Rightarrow> 'd \<Rightarrow> StorageError + 'd"

definition dto_hash :: "('u, 'd) store_env \<Rightarrow> str \<Rightarrow> str" where
  "dto_hash se value = sha256 (se_crates se) value"

text \<open>\<open>CreationProvenance::new\<close> with the fresh ids and the clock it reads.\<close>

definition CreationProvenance_new ::
    "('u, 'd) store_env \<Rightarrow> CreateSession \<Rightarrow> str \<Rightarrow> str \<Rightarrow> StorageError + i64 \<Rightarrow> StorageError + CreationProvenance" where
  "CreationProvenance_new se input session event now =
     (let request_json = se_creation_json se (CreateSession_request input) in
      and_then (CommitReceipt_single (cs_operation_id input) session 1) (\<lambda>receipt.
      and_then now (\<lambda>created.
      Ok \<lparr>pv_operation_id = cs_operation_id input, pv_method = ''create_session'', pv_request_json = request_json,
          pv_payload_hash = dto_hash se request_json, pv_session_id = session, pv_creation_event_id = event,
          pv_created_at_ms = created, pv_receipt = receipt\<rparr>)))"

definition CreationProvenance_request ::
    "('u, 'd) store_env \<Rightarrow> CreationProvenance \<Rightarrow> StorageError + CreateSession" where
  "CreationProvenance_request se self =
     and_then (ok_or integrity (se_creation_decode se (pv_request_json self))) (\<lambda>request.
     and_then (CommitReceipt_single (pv_operation_id self) (pv_session_id self) 1) (\<lambda>expected.
     and_then (reject_if (pv_method self \<noteq> ''create_session'' \<or> cq_method request \<noteq> pv_method self
        \<or> se_creation_json se request \<noteq> pv_request_json self \<or> dto_hash se (pv_request_json self) \<noteq> pv_payload_hash self
        \<or> pv_receipt self \<noteq> expected \<or> pv_created_at_ms self < 0) integrity) (\<lambda>_.
     map_err (\<lambda>_. integrity) (CreateSession_new (pv_operation_id self) (cq_title request) (cq_workspace request)))))"

section \<open>Stored events\<close>

record CreatedPayload =
  cp_title :: str
  cp_workspace :: "str option"
  cp_creation_provenance :: CreationProvenance

record AcceptedPayload =
  ap_run_id :: str
  ap_input :: RecordedRunInput
  ap_owner_instance_id :: str

record HistorySelectedPayload =
  hp_run_id :: str
  hp_selection :: StoredHistorySelection

record ToolResultPayload =
  tp_request_id :: "str option"
  tp_call_id :: str
  tp_output :: str
  tp_is_error :: bool

datatype InterruptionReason = ProcessRestart

record InterruptedPayload =
  ip_run_id :: str
  ip_reason :: InterruptionReason

datatype StoredEventPayload =
    SessionCreated CreatedPayload
  | SessionRenamed str
  | RunAccepted AcceptedPayload
  | RunHistorySelected HistorySelectedPayload
  | RunProviderBound RecordedProviderBinding
  | RuntimeObserved RunEventEnvelope
  | ToolResultRecorded ToolResultPayload
  | RunResultRecorded RunResult
  | RunInterrupted InterruptedPayload

fun stored_event_type :: "StoredEventPayload \<Rightarrow> str" where
  "stored_event_type (SessionCreated _) = ''session.created''"
| "stored_event_type (SessionRenamed _) = ''session.renamed''"
| "stored_event_type (RunAccepted _) = ''run.accepted''"
| "stored_event_type (RunHistorySelected _) = ''run.history.selected''"
| "stored_event_type (RunProviderBound _) = ''run.provider.bound''"
| "stored_event_type (RuntimeObserved _) = ''runtime.observed''"
| "stored_event_type (ToolResultRecorded _) = ''tool.result.recorded''"
| "stored_event_type (RunResultRecorded _) = ''run.result.recorded''"
| "stored_event_type (RunInterrupted _) = ''run.interrupted''"

record StoredEvent =
  sv_schema_version :: nat
  sv_application_session_id :: str
  sv_sequence :: u64
  sv_event_id :: str
  sv_created_at_ms :: i64
  sv_event_version :: nat
  sv_run_id :: "str option"
  sv_payload :: StoredEventPayload

record EventRow =
  ev_sequence :: i64
  ev_event_id :: str
  ev_event_type :: str
  ev_event_version :: i64
  ev_created_at_ms :: i64
  ev_run_id :: "str option"
  ev_source_event_id :: "str option"
  ev_source_sequence :: "i64 option"
  ev_payload_json :: StoredEventPayload

text \<open>\<open>dto::decode\<close> at each payload type: the deserializers with checks of their own.\<close>

definition decode_created :: "('u, 'd) store_env \<Rightarrow> CreatedPayload \<Rightarrow> StorageError + CreatedPayload" where
  "decode_created se payload =
     (let provenance = cp_creation_provenance payload; parse = storage_id_from_str (se_uuid se) in
      map_err (\<lambda>_. integrity)
       (and_then (map_err (\<lambda>_. invalid) (parse (pv_operation_id provenance))) (\<lambda>_.
        and_then (map_err (\<lambda>_. invalid) (parse (pv_session_id provenance))) (\<lambda>_.
        and_then (map_err (\<lambda>_. invalid) (parse (pv_creation_event_id provenance))) (\<lambda>_.
        and_then (CommitReceipt_try_from (pv_receipt provenance)) (\<lambda>_. Ok payload))))))"

definition decode_accepted :: "('u, 'd) store_env \<Rightarrow> AcceptedPayload \<Rightarrow> StorageError + AcceptedPayload" where
  "decode_accepted se payload =
     map_err (\<lambda>_. integrity)
       (and_then (parse_run_id (se_uuid se) (ap_run_id payload)) (\<lambda>_.
        and_then (RecordedRunInput_try_from (se_crates se) (ap_input payload)) (\<lambda>input.
        and_then (parse_run_id (se_uuid se) (ap_owner_instance_id payload)) (\<lambda>_.
        Ok (payload\<lparr>ap_input := input\<rparr>)))))"

definition decode_selected :: "('u, 'd) store_env \<Rightarrow> HistorySelectedPayload \<Rightarrow> StorageError + HistorySelectedPayload" where
  "decode_selected se payload =
     map_err (\<lambda>_. integrity)
       (and_then (parse_run_id (se_uuid se) (hp_run_id payload)) (\<lambda>_.
        and_then (StoredHistorySelection_try_from (se_crates se) (hp_selection payload)) (\<lambda>selection.
        Ok (payload\<lparr>hp_selection := selection\<rparr>))))"

definition decode_binding :: "('u, 'd) store_env \<Rightarrow> RecordedProviderBinding \<Rightarrow> StorageError + RecordedProviderBinding" where
  "decode_binding se payload =
     map_err (\<lambda>_. integrity)
       (and_then (parse_run_id (se_uuid se) (bind_run_id payload)) (\<lambda>_.
        and_then (map_err (\<lambda>_. invalid) (ReplayIdentity_try_from (bind_identity payload))) (\<lambda>identity.
        RecordedProviderBinding_new (se_crates se) (bind_run_id payload) (bind_provider_session_id payload)
          (bind_requested_model payload) identity)))"

definition decode_interrupted :: "('u, 'd) store_env \<Rightarrow> InterruptedPayload \<Rightarrow> StorageError + InterruptedPayload" where
  "decode_interrupted se payload =
     map_err (\<lambda>_. integrity)
       (and_then (parse_run_id (se_uuid se) (ip_run_id payload)) (\<lambda>_. Ok payload))"

text \<open>The payload part of \<open>StoredEvent::try_from\<close>: the event type selects the payload type the JSON must have.\<close>

definition StoredEvent_payload ::
    "('u, 'd) store_env \<Rightarrow> str \<Rightarrow> u64 \<Rightarrow> str \<Rightarrow> i64 \<Rightarrow> str option \<Rightarrow> str \<Rightarrow> StoredEventPayload \<Rightarrow>
     StorageError + StoredEventPayload" where
  "StoredEvent_payload se session sequence event_id created run kind json =
     (if kind \<noteq> stored_event_type json then Err integrity
      else case json of
        SessionCreated payload \<Rightarrow>
          and_then (decode_created se payload) (\<lambda>payload.
          let provenance = cp_creation_provenance payload in
          and_then (CreationProvenance_request se provenance) (\<lambda>original.
          and_then (reject_if (sequence \<noteq> 1 \<or> run \<noteq> None \<or> pv_session_id provenance \<noteq> session
             \<or> pv_creation_event_id provenance \<noteq> event_id \<or> pv_created_at_ms provenance \<noteq> created
             \<or> cs_title original \<noteq> cp_title payload \<or> cs_workspace original \<noteq> cp_workspace payload) integrity) (\<lambda>_.
          Ok (SessionCreated payload))))
      | SessionRenamed title \<Rightarrow>
          and_then (reject_if (sequence = 1 \<or> run \<noteq> None) integrity) (\<lambda>_. Ok (SessionRenamed title))
      | RunAccepted payload \<Rightarrow>
          and_then (decode_accepted se payload) (\<lambda>payload.
          and_then (reject_if (run \<noteq> Some (ap_run_id payload)) integrity) (\<lambda>_. Ok (RunAccepted payload)))
      | RunHistorySelected payload \<Rightarrow>
          and_then (decode_selected se payload) (\<lambda>payload.
          and_then (reject_if (run \<noteq> Some (hp_run_id payload)
             \<or> checked_add_u64 (sel_through_sequence (hp_selection payload)) 2 \<noteq> Some sequence) integrity) (\<lambda>_.
          Ok (RunHistorySelected payload)))
      | RunProviderBound payload \<Rightarrow>
          and_then (decode_binding se payload) (\<lambda>payload.
          and_then (reject_if (run \<noteq> Some (bind_run_id payload)) integrity) (\<lambda>_. Ok (RunProviderBound payload)))
      | RuntimeObserved event \<Rightarrow>
          and_then (map_err (\<lambda>_. integrity) (validate_runtime (se_uuid se) event)) (\<lambda>_.
          and_then (reject_if (run \<noteq> Some (re_run_id event)) integrity) (\<lambda>_. Ok (RuntimeObserved event)))
      | ToolResultRecorded payload \<Rightarrow>
          and_then (reject_if (run = None) integrity) (\<lambda>_. Ok (ToolResultRecorded payload))
      | RunResultRecorded result \<Rightarrow>
          and_then (reject_if (run \<noteq> Some (result_run_id result)) integrity) (\<lambda>_. Ok (RunResultRecorded result))
      | RunInterrupted payload \<Rightarrow>
          and_then (decode_interrupted se payload) (\<lambda>payload.
          and_then (reject_if (run \<noteq> Some (ip_run_id payload)) integrity) (\<lambda>_. Ok (RunInterrupted payload))))"

definition StoredEvent_try_from ::
    "('u, 'd) store_env \<Rightarrow> str \<Rightarrow> u64 \<Rightarrow> str \<Rightarrow> i64 \<Rightarrow> nat \<Rightarrow> str option \<Rightarrow> str \<Rightarrow> StoredEventPayload \<Rightarrow>
     StorageError + StoredEvent" where
  "StoredEvent_try_from se session sequence event_id created version run kind json =
     and_then (reject_if (version \<noteq> 1 \<or> sequence = 0 \<or> sequence > i64_max \<or> created < 0
        \<or> (sequence = 1) \<noteq> (kind = ''session.created'')) integrity) (\<lambda>_.
     and_then (StoredEvent_payload se session sequence event_id created run kind json) (\<lambda>payload.
     Ok \<lparr>sv_schema_version = 1, sv_application_session_id = session, sv_sequence = sequence, sv_event_id = event_id,
         sv_created_at_ms = created, sv_event_version = version, sv_run_id = run, sv_payload = payload\<rparr>))"

text \<open>\<open>u32::try_from(i64)\<close> of the version column.\<close>

definition u32_try_from_i64 :: "i64 \<Rightarrow> nat option" where
  "u32_try_from_i64 i = (if 0 \<le> i \<and> i < 2 ^ 32 then Some (nat i) else None)"

definition source_columns :: "StoredEventPayload \<Rightarrow> str option \<times> i64 option" where
  "source_columns payload =
     (case payload of
        RuntimeObserved runtime \<Rightarrow> (Some (re_event_id runtime), Some (sint (re_sequence runtime)))
      | _ \<Rightarrow> (None, None))"

definition decode :: "('u, 'd) store_env \<Rightarrow> str \<Rightarrow> EventRow \<Rightarrow> StorageError + StoredEvent" where
  "decode se session row =
     and_then (ok_or integrity (u64_try_from_i64 (ev_sequence row))) (\<lambda>sequence.
     and_then (map_err (\<lambda>_. integrity) (storage_id_from_str (se_uuid se) (ev_event_id row))) (\<lambda>event_id.
     and_then (ok_or integrity (u32_try_from_i64 (ev_event_version row))) (\<lambda>version.
     and_then (map_transpose (\<lambda>s. map_err (\<lambda>_. integrity) (parse_run_id (se_uuid se) s)) (ev_run_id row)) (\<lambda>run.
     and_then (StoredEvent_try_from se session sequence event_id (ev_created_at_ms row) version run (ev_event_type row)
        (ev_payload_json row)) (\<lambda>event.
     and_then (reject_if ((ev_source_event_id row, ev_source_sequence row) \<noteq> source_columns (sv_payload event)) integrity) (\<lambda>_.
     Ok event))))))"

definition terminal_outcome :: "StoredEvent \<Rightarrow> (RunOutcome \<times> str option) option" where
  "terminal_outcome event =
     (case sv_payload event of
        RuntimeObserved runtime \<Rightarrow>
          (case re_event runtime of RunFinished outcome _ \<Rightarrow> Some (outcome, re_session_id runtime) | _ \<Rightarrow> None)
      | RunResultRecorded result \<Rightarrow> Some (result_outcome result, result_session_id result)
      | _ \<Rightarrow> None)"

section \<open>Tables\<close>

record ManifestRow =
  mf_session_id :: str
  mf_schema_version :: i64
  mf_format_version :: i64
  mf_title :: str
  mf_workspace_json :: "str option"
  mf_created_at_ms :: i64
  mf_updated_at_ms :: i64
  mf_head_sequence :: i64
  mf_creation_provenance_json :: CreationProvenance

record CommandRow =
  cm_operation_id :: str
  cm_method :: str
  cm_payload_hash :: str
  cm_first_sequence :: i64
  cm_last_sequence :: i64
  cm_receipt_json :: CommitReceipt

record RunRow =
  rn_run_id :: str
  rn_accepted_sequence :: i64
  rn_state :: str
  rn_last_runtime_sequence :: i64
  rn_owner_instance_id :: str
  rn_provider_session_id :: "str option"
  rn_terminal_sequence :: "i64 option"
  rn_terminal_json :: "StoredEventPayload option"
  rn_result_sequence :: "i64 option"

record ToolRow =
  tr_run_id :: str
  tr_call_id :: str
  tr_tool_name :: str
  tr_request_id :: "str option"
  tr_started_sequence :: i64
  tr_finished_sequence :: "i64 option"
  tr_result_sequence :: "i64 option"
  tr_is_error :: "i64 option"
  tr_output :: "str option"

record ProjectionRow =
  pj_format_version :: i64
  pj_applied_sequence :: i64
  pj_metadata_sequence :: i64

record 'd tables =
  tb_user_version :: i64
  tb_manifest :: "ManifestRow list"
  tb_events :: "EventRow list"
  tb_commands :: "CommandRow list"
  tb_runs :: "RunRow list"
  tb_tools :: "ToolRow list"
  tb_projection :: "ProjectionRow list"
  tb_display :: 'd

text \<open>The constraints of the schema: \<open>CHECK\<close>, \<open>PRIMARY KEY\<close>, \<open>UNIQUE\<close>, the partial unique indexes (a null does not
  count) and the foreign keys.\<close>

definition EVENT_TYPES :: "str list" where
  "EVENT_TYPES = [''session.created'', ''session.renamed'', ''run.accepted'', ''runtime.observed'',
     ''tool.result.recorded'', ''run.result.recorded'', ''run.interrupted'', ''run.history.selected'',
     ''run.provider.bound'']"

definition RUN_STATES :: "str list" where
  "RUN_STATES = [''accepted'', ''running'', ''completed'', ''failed'', ''cancelled_locally'', ''interrupted'']"

definition unfinished :: "RunRow \<Rightarrow> bool" where
  "unfinished row \<longleftrightarrow> rn_state row = ''accepted'' \<or> rn_state row = ''running''"

definition manifest_schema :: "ManifestRow list \<Rightarrow> bool" where
  "manifest_schema rows \<longleftrightarrow>
     length rows \<le> 1 \<and>
     list_all (\<lambda>r. mf_schema_version r > 0 \<and> mf_format_version r = 1 \<and> mf_head_sequence r \<ge> 0) rows"

definition events_schema :: "EventRow list \<Rightarrow> bool" where
  "events_schema rows \<longleftrightarrow>
     distinct (map ev_sequence rows) \<and> distinct (map ev_event_id rows) \<and>
     list_all (\<lambda>r. ev_sequence r > 0 \<and> ev_event_type r \<in> set EVENT_TYPES \<and> ev_event_version r = 1 \<and>
       (if ev_event_type r = ''runtime.observed''
        then ev_source_event_id r \<noteq> None \<and> (\<exists>n \<in> set_option (ev_source_sequence r). n > 0)
        else ev_source_event_id r = None \<and> ev_source_sequence r = None)) rows \<and>
     distinct (List.map_filter ev_source_event_id rows) \<and>
     distinct (List.map_filter (\<lambda>r. case (ev_run_id r, ev_source_sequence r) of
         (Some run, Some n) \<Rightarrow> Some (run, n) | _ \<Rightarrow> None) rows)"

definition commands_schema :: "i64 list \<Rightarrow> CommandRow list \<Rightarrow> bool" where
  "commands_schema sequences rows \<longleftrightarrow>
     distinct (map cm_operation_id rows) \<and>
     list_all (\<lambda>r. length (cm_payload_hash r) = 32 \<and> cm_first_sequence r \<in> set sequences \<and>
       cm_last_sequence r \<in> set sequences \<and> cm_last_sequence r \<ge> cm_first_sequence r) rows"

definition optional_reference :: "'a list \<Rightarrow> 'a option \<Rightarrow> bool" where
  "optional_reference keys value = (case value of None \<Rightarrow> True | Some k \<Rightarrow> k \<in> set keys)"

definition runs_schema :: "i64 list \<Rightarrow> RunRow list \<Rightarrow> bool" where
  "runs_schema sequences rows \<longleftrightarrow>
     distinct (map rn_run_id rows) \<and> distinct (map rn_accepted_sequence rows) \<and> length (filter unfinished rows) \<le> 1 \<and>
     list_all (\<lambda>r. rn_accepted_sequence r \<in> set sequences \<and> rn_state r \<in> set RUN_STATES \<and>
       rn_last_runtime_sequence r \<ge> 0 \<and> optional_reference sequences (rn_terminal_sequence r) \<and>
       optional_reference sequences (rn_result_sequence r)) rows"

definition tools_schema :: "i64 list \<Rightarrow> str list \<Rightarrow> ToolRow list \<Rightarrow> bool" where
  "tools_schema sequences runs rows \<longleftrightarrow>
     distinct (map (\<lambda>r. (tr_run_id r, tr_call_id r)) rows) \<and>
     list_all (\<lambda>r. tr_run_id r \<in> set runs \<and> tr_started_sequence r \<in> set sequences \<and>
       optional_reference sequences (tr_finished_sequence r) \<and> optional_reference sequences (tr_result_sequence r) \<and>
       optional_reference [0, 1] (tr_is_error r) \<and> (tr_result_sequence r = None) = (tr_output r = None)) rows"

definition projection_schema :: "ProjectionRow list \<Rightarrow> bool" where
  "projection_schema rows \<longleftrightarrow>
     length rows \<le> 1 \<and>
     list_all (\<lambda>r. pj_format_version r = 1 \<and> pj_applied_sequence r \<ge> 1 \<and> pj_metadata_sequence r \<ge> 1) rows"

definition schema_ok :: "'d tables \<Rightarrow> bool" where
  "schema_ok t \<longleftrightarrow>
     manifest_schema (tb_manifest t) \<and> events_schema (tb_events t) \<and>
     commands_schema (map ev_sequence (tb_events t)) (tb_commands t) \<and>
     runs_schema (map ev_sequence (tb_events t)) (tb_runs t) \<and>
     tools_schema (map ev_sequence (tb_events t)) (map rn_run_id (tb_runs t)) (tb_tools t) \<and>
     projection_schema (tb_projection t)"

text \<open>One statement that writes, and \<open>BEGIN IMMEDIATE\<close> to \<open>database::finish_transaction\<close>.\<close>

type_synonym ('d, 'a) sql = "('d tables, StorageError, 'a) prog"

definition execute :: "('d tables \<Rightarrow> 'd tables) \<Rightarrow> ('d, unit) sql" where
  "execute f = (\<lambda>t. if schema_ok (f t) then (Ok (), f t) else (Err integrity, t))"

definition query :: "('d tables \<Rightarrow> StorageError + 'a) \<Rightarrow> ('d, 'a) sql" where
  "query f = (\<lambda>t. (f t, t))"

definition transact :: "('d, 'a) sql \<Rightarrow> ('d, 'a) sql" where
  "transact body = (\<lambda>t. case body t of
     (Inl e, _) \<Rightarrow> (Err (not_committed e), t)
   | (Inr a, t') \<Rightarrow> (Ok a, t'))"

section \<open>Reading history\<close>

definition event_row :: "'d tables \<Rightarrow> i64 \<Rightarrow> EventRow option" where
  "event_row t sequence = List.find (\<lambda>r. ev_sequence r = sequence) (tb_events t)"

definition history_event :: "('u, 'd) store_env \<Rightarrow> str \<Rightarrow> 'd tables \<Rightarrow> u64 \<Rightarrow> StorageError + StoredEvent" where
  "history_event se session t sequence =
     and_then (ok_or integrity (i64_try_from_u64 sequence)) (\<lambda>sequence.
     and_then (ok_or integrity (event_row t sequence)) (\<lambda>row.
     decode se session row))"

definition positive :: "i64 \<Rightarrow> StorageError + u64" where
  "positive value = (if value \<le> 0 then Err integrity else Ok (of_int value))"

definition page_limit :: "u64 \<Rightarrow> StorageError + i64" where
  "page_limit page_size =
     and_then (reject_if (page_size = 0) invalid) (\<lambda>_.
     ok_or invalid (Option.bind (checked_add_u64 page_size 1) i64_try_from_u64))"

record HistoryPage =
  pg_through_sequence :: u64
  pg_next_after :: u64
  pg_has_more :: bool
  pg_records :: "StoredEvent list"

fun page_rows ::
    "('u, 'd) store_env \<Rightarrow> str \<Rightarrow> u64 \<Rightarrow> EventRow list \<Rightarrow> StorageError + u64 \<times> StoredEvent list" where
  "page_rows se session next [] = Ok (next, [])"
| "page_rows se session next (row # rows) =
     and_then (decode se session row) (\<lambda>record.
     and_then (ok_or integrity (checked_add_u64 next 1)) (\<lambda>expected.
     and_then (reject_if (sv_sequence record \<noteq> expected) integrity) (\<lambda>_.
     and_then (page_rows se session (sv_sequence record) rows) (\<lambda>(next, records).
     Ok (next, record # records)))))"

definition page ::
    "('u, 'd) store_env \<Rightarrow> str \<Rightarrow> 'd tables \<Rightarrow> u64 \<Rightarrow> u64 option \<Rightarrow> i64 \<Rightarrow> StorageError + HistoryPage" where
  "page se session t after through limit =
     and_then (ok_or (StorageError_new NotFound) (case tb_manifest t of [] \<Rightarrow> None | r # _ \<Rightarrow> Some (mf_head_sequence r))) (\<lambda>head.
     let through = (case through of None \<Rightarrow> of_int head | Some s \<Rightarrow> s) in
     and_then (reject_if (head < 1 \<or> through > of_int head \<or> after > through) invalid) (\<lambda>_.
     let rows = take (nat limit) (sort_key ev_sequence
           (filter (\<lambda>r. ev_sequence r > sint after \<and> ev_sequence r \<le> sint through) (tb_events t)));
         has_more = (length rows = nat limit)
     in
     and_then (page_rows se session after (take (nat (limit - 1)) rows)) (\<lambda>(next_after, records).
     and_then (reject_if (\<not> has_more \<and> next_after \<noteq> through) integrity) (\<lambda>_.
     Ok \<lparr>pg_through_sequence = through, pg_next_after = next_after, pg_has_more = has_more,
         pg_records = records\<rparr>))))"

definition history_page ::
    "('u, 'd) store_env \<Rightarrow> str \<Rightarrow> 'd tables \<Rightarrow> u64 \<Rightarrow> u64 option \<Rightarrow> u64 \<Rightarrow> StorageError + HistoryPage" where
  "history_page se session t after through page_size =
     and_then (page_limit page_size) (\<lambda>limit.
     and_then (reject_if (after > i64_max \<or> (case through of None \<Rightarrow> False | Some s \<Rightarrow> s > i64_max)) invalid) (\<lambda>_.
     page se session t after through limit))"

section \<open>The projection cursor\<close>

text \<open>\<open>projector::apply\<close>: the cursor over the events already displayed, and the row updates of one event.\<close>

definition update_projection :: "(ProjectionRow \<Rightarrow> ProjectionRow) \<Rightarrow> 'd tables \<Rightarrow> 'd tables" where
  "update_projection f t = t\<lparr>tb_projection := map f (tb_projection t)\<rparr>"

definition projector_apply ::
    "('u, 'd) store_env \<Rightarrow> u64 \<Rightarrow> str option \<Rightarrow> ProjectorInput \<Rightarrow> ('d, unit) sql" where
  "projector_apply se sequence run input =
     then_do (from_result (ok_or integrity (i64_try_from_u64 sequence))) (\<lambda>number.
     then_do (read tb_projection) (\<lambda>head.
     if input = ProjectCreated then
       then_do (fail_if (sequence \<noteq> 1 \<or> run \<noteq> None \<or> head \<noteq> []) integrity) (\<lambda>_.
       execute (\<lambda>t. t\<lparr>tb_projection :=
         tb_projection t @ [\<lparr>pj_format_version = 1, pj_applied_sequence = 1, pj_metadata_sequence = 1\<rparr>]\<rparr>))
     else
       then_do (from_result (ok_or integrity (case head of [] \<Rightarrow> None | row # _ \<Rightarrow> Some row))) (\<lambda>row.
       then_do (from_result (ok_or integrity (u64_try_from_i64 (pj_applied_sequence row)))) (\<lambda>applied.
       then_do (from_result (ok_or integrity (u64_try_from_i64 (pj_metadata_sequence row)))) (\<lambda>metadata.
       then_do (fail_if (pj_format_version row \<noteq> 1 \<or> checked_add_u64 applied 1 \<noteq> Some sequence \<or> metadata = 0
          \<or> metadata > applied) integrity) (\<lambda>_.
       then_do (if input = ProjectRenamed then
            then_do (fail_if (run \<noteq> None) integrity) (\<lambda>_.
            execute (update_projection (\<lambda>r. r\<lparr>pj_metadata_sequence := number\<rparr>)))
          else
            then_do (from_result (ok_or integrity run)) (\<lambda>run.
            then_do (query (\<lambda>t. se_display_apply se run sequence input (tb_display t))) (\<lambda>display.
            execute (\<lambda>t. t\<lparr>tb_display := display\<rparr>)))) (\<lambda>_.
       execute (update_projection (\<lambda>r. r\<lparr>pj_applied_sequence := number\<rparr>))))))))) "

section \<open>The manifest\<close>

record SessionManifest =
  sm_session_id :: str
  sm_title :: str
  sm_workspace :: "str option"
  sm_created_at_ms :: i64
  sm_updated_at_ms :: i64
  sm_head_sequence :: u64

definition schema_version :: "'d tables \<Rightarrow> StorageError + i64" where
  "schema_version t =
     (if 1 \<le> tb_user_version t \<and> tb_user_version t \<le> 3 then Ok (tb_user_version t)
      else Err (StorageError_new UnsupportedVersion))"

definition max_sequence :: "'d tables \<Rightarrow> i64 option" where
  "max_sequence t = (if tb_events t = [] then None else Some (Max (set (map ev_sequence (tb_events t)))))"

text \<open>\<open>LATEST_METADATA_EVENT\<close> and the check \<open>projection\<close> of the display cursor.\<close>

definition latest_metadata_event :: "'d tables \<Rightarrow> i64 \<Rightarrow> EventRow option" where
  "latest_metadata_event t head =
     (case rev (sort_key ev_sequence (filter (\<lambda>r. ev_run_id r = None \<and> ev_sequence r \<le> head) (tb_events t))) of
        [] \<Rightarrow> None | r # _ \<Rightarrow> Some r)"

definition projection :: "'d tables \<Rightarrow> i64 \<Rightarrow> StorageError + unit" where
  "projection t head =
     (case tb_projection t of
        [row] \<Rightarrow>
          and_then (reject_if (pj_format_version row \<noteq> 1 \<or> pj_applied_sequence row \<noteq> head \<or> pj_metadata_sequence row < 1
             \<or> pj_metadata_sequence row > head) integrity) (\<lambda>_.
          and_then (ok_or integrity (latest_metadata_event t head)) (\<lambda>event.
          reject_if (ev_sequence event \<noteq> pj_metadata_sequence row
             \<or> (pj_metadata_sequence row = 1 \<and> ev_event_type event \<noteq> ''session.created'')
             \<or> (pj_metadata_sequence row > 1 \<and> ev_event_type event \<noteq> ''session.renamed'')
             \<or> ev_run_id event \<noteq> None) integrity))
      | _ \<Rightarrow> Err integrity)"

text \<open>The first event must be the creation the provenance names.\<close>

definition creation_matches :: "CreationProvenance \<Rightarrow> CreateSession \<Rightarrow> EventRow \<Rightarrow> CreatedPayload \<Rightarrow> bool" where
  "creation_matches provenance input event payload \<longleftrightarrow>
     ev_event_id event = pv_creation_event_id provenance \<and> ev_event_type event = ''session.created'' \<and>
     ev_event_version event = 1 \<and> ev_created_at_ms event = pv_created_at_ms provenance \<and>
     ev_run_id event = None \<and> ev_source_event_id event = None \<and> ev_source_sequence event = None \<and>
     cp_creation_provenance payload = provenance \<and> cp_title payload = cs_title input \<and>
     cp_workspace payload = cs_workspace input"

definition validate_manifest ::
    "('u, 'd) store_env \<Rightarrow> str \<Rightarrow> CreationProvenance option \<Rightarrow> 'd tables \<Rightarrow> StorageError + SessionManifest" where
  "validate_manifest se session expected t =
     and_then (schema_version t) (\<lambda>version.
     (case tb_manifest t of
        [row] \<Rightarrow>
          let head = mf_head_sequence row; provenance = mf_creation_provenance_json row;
              manifest = \<lparr>sm_session_id = session, sm_title = mf_title row, sm_workspace = mf_workspace_json row,
                sm_created_at_ms = mf_created_at_ms row, sm_updated_at_ms = mf_updated_at_ms row,
                sm_head_sequence = of_int head\<rparr>
          in
          and_then (reject_if (mf_schema_version row \<noteq> version \<or> mf_format_version row \<noteq> 1
             \<or> mf_session_id row \<noteq> session) integrity) (\<lambda>_.
          and_then (reject_if (head < 1) integrity) (\<lambda>_.
          and_then (reject_if (max_sequence t \<noteq> Some head) integrity) (\<lambda>_.
          and_then (CreationProvenance_request se provenance) (\<lambda>input.
          and_then (map_err (\<lambda>_. integrity) (validate_workspace (mf_workspace_json row))) (\<lambda>_.
          and_then (reject_if (pv_session_id provenance \<noteq> session \<or> sm_created_at_ms manifest \<noteq> pv_created_at_ms provenance
             \<or> sm_workspace manifest \<noteq> cs_workspace input \<or> sm_updated_at_ms manifest < 0
             \<or> (case expected of None \<Rightarrow> False | Some e \<Rightarrow> e \<noteq> provenance)) integrity) (\<lambda>_.
          and_then (ok_or integrity (event_row t 1)) (\<lambda>first.
          and_then (case ev_payload_json first of SessionCreated payload \<Rightarrow> Ok payload | _ \<Rightarrow> Err integrity) (\<lambda>payload.
          and_then (reject_if (\<not> creation_matches provenance input first payload) integrity) (\<lambda>_.
          and_then (ok_or (StorageError_new NotFound) (event_row t head)) (\<lambda>latest.
          and_then (reject_if (ev_created_at_ms latest \<noteq> sm_updated_at_ms manifest \<or> ev_event_version latest \<noteq> 1)
             integrity) (\<lambda>_.
          and_then (reject_if (head = 1 \<and> sm_title manifest \<noteq> cs_title input) integrity) (\<lambda>_.
          and_then (if ev_event_type latest = ''session.renamed'' then
               (case ev_payload_json latest of
                  SessionRenamed title \<Rightarrow> reject_if (title \<noteq> sm_title manifest) integrity
                | _ \<Rightarrow> Err integrity)
             else Ok ()) (\<lambda>_.
          and_then (if version = 3 then projection t head else Ok ()) (\<lambda>_.
          Ok manifest))))))))))))))
      | _ \<Rightarrow> Err integrity))"

section \<open>Commands\<close>

record Command =
  cd_method :: str
  cd_payload_hash :: str
  cd_receipt :: CommitReceipt

definition command :: "str \<Rightarrow> 'd tables \<Rightarrow> str \<Rightarrow> StorageError + Command option" where
  "command session t operation =
     (case List.find (\<lambda>r. cm_operation_id r = operation) (tb_commands t) of
        None \<Rightarrow> Ok None
      | Some row \<Rightarrow>
          and_then (map_err (\<lambda>_. integrity) (CommitReceipt_try_from (cm_receipt_json row))) (\<lambda>receipt.
          and_then (ok_or (StorageError_new NotFound)
             (case tb_manifest t of [] \<Rightarrow> None | r # _ \<Rightarrow> Some (mf_head_sequence r))) (\<lambda>head.
          and_then (reject_if (rc_operation_id receipt \<noteq> operation \<or> rc_session_id receipt \<noteq> session
             \<or> cm_first_sequence row \<le> 1 \<or> rc_first_sequence receipt \<noteq> of_int (cm_first_sequence row)
             \<or> rc_last_sequence receipt \<noteq> of_int (cm_last_sequence row) \<or> cm_last_sequence row > head) integrity) (\<lambda>_.
          and_then (reject_if (length (cm_payload_hash row) \<noteq> 32) integrity) (\<lambda>_.
          Ok (Some \<lparr>cd_method = cm_method row, cd_payload_hash = cm_payload_hash row, cd_receipt = receipt\<rparr>))))))"

definition next_sequence :: "u64 \<Rightarrow> StorageError + i64" where
  "next_sequence head = ok_or invalid (Option.bind (checked_add_u64 head 1) i64_try_from_u64)"

definition insert_event_row :: "EventRow \<Rightarrow> ('d, unit) sql" where
  "insert_event_row row = execute (\<lambda>t. t\<lparr>tb_events := tb_events t @ [row]\<rparr>)"

definition insert_command :: "CommandRow \<Rightarrow> ('d, unit) sql" where
  "insert_command row = execute (\<lambda>t. t\<lparr>tb_commands := tb_commands t @ [row]\<rparr>)"

definition update_manifest :: "(ManifestRow \<Rightarrow> ManifestRow) \<Rightarrow> ('d, unit) sql" where
  "update_manifest f = execute (\<lambda>t. t\<lparr>tb_manifest := map f (tb_manifest t)\<rparr>)"

text \<open>The clock and the fresh event id of the transaction are arguments: \<open>now\<close> is what \<open>dto::now_ms\<close> answers.\<close>

definition rename_transaction ::
    "('u, 'd) store_env \<Rightarrow> CreationProvenance \<Rightarrow> StorageError + i64 \<Rightarrow> str \<Rightarrow> str \<Rightarrow> str \<Rightarrow>
     ('d, CommitReceipt \<times> bool) sql" where
  "rename_transaction se provenance now fresh operation title = transact (
     let session = pv_session_id provenance; payload_hash = dto_hash se (se_rename_json se session title) in
     then_do (query (\<lambda>t. command session t operation)) (\<lambda>known.
     (case known of
        Some cmd \<Rightarrow>
          then_do (fail_if (cd_method cmd \<noteq> ''rename'' \<or> cd_payload_hash cmd \<noteq> payload_hash)
             (StorageError_new CommandConflict)) (\<lambda>_.
          then_do (fail_if (rc_run_id (cd_receipt cmd) \<noteq> None
             \<or> rc_first_sequence (cd_receipt cmd) \<noteq> rc_last_sequence (cd_receipt cmd)) integrity) (\<lambda>_.
          ret (cd_receipt cmd, True)))
      | None \<Rightarrow>
          then_do (query (validate_manifest se session (Some provenance))) (\<lambda>manifest.
          then_do (from_result (next_sequence (sm_head_sequence manifest))) (\<lambda>sequence.
          then_do (from_result (CommitReceipt_single operation session sequence)) (\<lambda>receipt.
          then_do (from_result now) (\<lambda>timestamp.
          then_do (insert_event_row \<lparr>ev_sequence = sequence, ev_event_id = fresh, ev_event_type = ''session.renamed'',
             ev_event_version = 1, ev_created_at_ms = timestamp, ev_run_id = None, ev_source_event_id = None,
             ev_source_sequence = None, ev_payload_json = SessionRenamed title\<rparr>) (\<lambda>_.
          then_do (update_manifest (\<lambda>r. r\<lparr>mf_title := title, mf_updated_at_ms := timestamp, mf_head_sequence := sequence\<rparr>)) (\<lambda>_.
          then_do (projector_apply se (of_int sequence) None ProjectRenamed) (\<lambda>_.
          then_do (insert_command \<lparr>cm_operation_id = operation, cm_method = ''rename'', cm_payload_hash = payload_hash,
             cm_first_sequence = sequence, cm_last_sequence = sequence, cm_receipt_json = receipt\<rparr>) (\<lambda>_.
          ret (receipt, False))))))))))))"

section \<open>Creation\<close>

definition empty_tables :: "('u, 'd) store_env \<Rightarrow> 'd tables" where
  "empty_tables se =
     \<lparr>tb_user_version = 3, tb_manifest = [], tb_events = [], tb_commands = [], tb_runs = [], tb_tools = [],
      tb_projection = [], tb_display = se_display_empty se\<rparr>"

text \<open>\<open>initialize\<close> of an empty file: the tables are created, then filled.\<close>

definition initialize ::
    "('u, 'd) store_env \<Rightarrow> CreationProvenance \<Rightarrow> StorageError + SessionManifest \<times> 'd tables" where
  "initialize se provenance =
     (case transact (
        then_do (from_result (CreationProvenance_request se provenance)) (\<lambda>input.
        then_do (execute (\<lambda>t. t\<lparr>tb_manifest := tb_manifest t @ [\<lparr>mf_session_id = pv_session_id provenance,
           mf_schema_version = 3, mf_format_version = 1, mf_title = cs_title input, mf_workspace_json = cs_workspace input,
           mf_created_at_ms = pv_created_at_ms provenance, mf_updated_at_ms = pv_created_at_ms provenance,
           mf_head_sequence = 1, mf_creation_provenance_json = provenance\<rparr>]\<rparr>)) (\<lambda>_.
        then_do (insert_event_row \<lparr>ev_sequence = 1, ev_event_id = pv_creation_event_id provenance,
           ev_event_type = ''session.created'', ev_event_version = 1, ev_created_at_ms = pv_created_at_ms provenance,
           ev_run_id = None, ev_source_event_id = None, ev_source_sequence = None,
           ev_payload_json = SessionCreated \<lparr>cp_title = cs_title input, cp_workspace = cs_workspace input,
             cp_creation_provenance = provenance\<rparr>\<rparr>) (\<lambda>_.
        then_do (projector_apply se 1 None ProjectCreated) (\<lambda>_.
        query (validate_manifest se (pv_session_id provenance) (Some provenance))))))) (empty_tables se) of
        (Inl e, _) \<Rightarrow> Err e
      | (Inr manifest, t) \<Rightarrow> Ok (manifest, t))"

end
