(* ===== verification/Run_Store.thy ===== *)
theory Run_Store
  imports Session_Tables
begin

text \<open>
  The run store of one session database: \<open>src/storage/run_store.rs\<close>, its reads of replay metadata
  (\<open>src/storage/run_store/replay.rs\<close>), its repair check (\<open>src/storage/run_store/repair.rs\<close>) and the interruption of
  a run whose owner is gone (\<open>src/storage/interruption.rs\<close>).

  A read is a function of the tables with a result; a write is a program on the tables.  \<open>mutate\<close> is the one
  transaction that accepts a run or appends to it.
\<close>

section \<open>Runs\<close>

datatype RecordedRunState =
  StateAccepted | StateRunning | StateCompleted | StateFailed | StateCancelledLocally | StateInterrupted

record RecordedRun =
  rec_run_id :: str
  rec_accepted_sequence :: u64
  rec_input :: RecordedRunInput
  rec_state :: RecordedRunState
  rec_last_runtime_sequence :: u64
  rec_owner_instance_id :: str
  rec_provider_session_id :: "str option"
  rec_terminal :: "StoredEvent option"
  rec_result_sequence :: "u64 option"
  rec_result :: "RunResult option"

definition active :: "RecordedRunState \<Rightarrow> bool" where
  "active state \<longleftrightarrow> state = StateAccepted \<or> state = StateRunning"

fun outcome_state :: "RunOutcome \<Rightarrow> RecordedRunState" where
  "outcome_state RunCompleted = StateCompleted"
| "outcome_state (RunFailed _) = StateFailed"
| "outcome_state CancelledLocally = StateCancelledLocally"

fun state_name :: "RecordedRunState \<Rightarrow> str" where
  "state_name StateAccepted = ''accepted''"
| "state_name StateRunning = ''running''"
| "state_name StateCompleted = ''completed''"
| "state_name StateFailed = ''failed''"
| "state_name StateCancelledLocally = ''cancelled_locally''"
| "state_name StateInterrupted = ''interrupted''"

text \<open>The derived deserializer of \<open>RecordedRunState\<close> on the text of the column.\<close>

definition state_from_name :: "str \<Rightarrow> StorageError + RecordedRunState" where
  "state_from_name name =
     ok_or integrity (List.find (\<lambda>s. state_name s = name)
       [StateAccepted, StateRunning, StateCompleted, StateFailed, StateCancelledLocally, StateInterrupted])"

definition run_terminal ::
    "('u, 'd) store_env \<Rightarrow> str \<Rightarrow> 'd tables \<Rightarrow> RunRow \<Rightarrow> u64 \<Rightarrow> RecordedRunState \<Rightarrow> u64 \<Rightarrow> StorageError + StoredEvent" where
  "run_terminal se session t row accepted state sequence =
     and_then (history_event se session t sequence) (\<lambda>event.
     and_then (reject_if (sequence \<le> accepted \<or> sv_run_id event \<noteq> Some (rn_run_id row)) integrity) (\<lambda>_.
     and_then (if state = StateInterrupted
        then reject_if (\<not> (case sv_payload event of RunInterrupted _ \<Rightarrow> True | _ \<Rightarrow> False)) integrity
        else and_then (ok_or integrity (terminal_outcome event)) (\<lambda>(outcome, provider).
             reject_if (outcome_state outcome \<noteq> state \<or> provider \<noteq> rn_provider_session_id row) integrity)) (\<lambda>_.
     and_then (reject_if (rn_terminal_json row \<noteq> Some (sv_payload event)) integrity) (\<lambda>_.
     Ok event))))"

definition run_result ::
    "('u, 'd) store_env \<Rightarrow> str \<Rightarrow> 'd tables \<Rightarrow> RunRow \<Rightarrow> StoredEvent option \<Rightarrow> u64 \<Rightarrow> StorageError + RunResult" where
  "run_result se session t row terminal sequence =
     and_then (history_event se session t sequence) (\<lambda>event.
     and_then (case sv_payload event of RunResultRecorded result \<Rightarrow> Ok result | _ \<Rightarrow> Err integrity) (\<lambda>result.
     and_then (ok_or integrity terminal) (\<lambda>terminal.
     and_then (ok_or integrity (terminal_outcome terminal)) (\<lambda>(outcome, provider).
     and_then (reject_if (sv_run_id event \<noteq> Some (rn_run_id row) \<or> result_outcome result \<noteq> outcome
        \<or> result_session_id result \<noteq> provider \<or> sequence < sv_sequence terminal) integrity) (\<lambda>_.
     Ok result)))))"

definition run_of_row :: "('u, 'd) store_env \<Rightarrow> str \<Rightarrow> 'd tables \<Rightarrow> RunRow \<Rightarrow> StorageError + RecordedRun" where
  "run_of_row se session t row =
     and_then (positive (rn_accepted_sequence row)) (\<lambda>accepted_sequence.
     and_then (history_event se session t accepted_sequence) (\<lambda>event.
     and_then (case sv_payload event of RunAccepted accepted \<Rightarrow> Ok accepted | _ \<Rightarrow> Err integrity) (\<lambda>accepted.
     and_then (reject_if (ap_run_id accepted \<noteq> rn_run_id row
        \<or> ap_owner_instance_id accepted \<noteq> rn_owner_instance_id row) integrity) (\<lambda>_.
     and_then (state_from_name (rn_state row)) (\<lambda>state.
     and_then (reject_if (rn_last_runtime_sequence row < 0) integrity) (\<lambda>_.
     and_then (map_transpose positive (rn_terminal_sequence row)) (\<lambda>terminal_sequence.
     and_then (reject_if ((terminal_sequence \<noteq> None) \<noteq> (rn_terminal_json row \<noteq> None)
        \<or> active state = (terminal_sequence \<noteq> None)) integrity) (\<lambda>_.
     and_then (map_transpose (run_terminal se session t row accepted_sequence state) terminal_sequence) (\<lambda>terminal.
     and_then (map_transpose positive (rn_result_sequence row)) (\<lambda>result_sequence.
     and_then (map_transpose (run_result se session t row terminal) result_sequence) (\<lambda>result.
     Ok \<lparr>rec_run_id = rn_run_id row, rec_accepted_sequence = accepted_sequence, rec_input = ap_input accepted,
         rec_state = state, rec_last_runtime_sequence = of_int (rn_last_runtime_sequence row),
         rec_owner_instance_id = ap_owner_instance_id accepted, rec_provider_session_id = rn_provider_session_id row,
         rec_terminal = terminal, rec_result_sequence = result_sequence, rec_result = result\<rparr>)))))))))))"

definition run_row :: "'d tables \<Rightarrow> str \<Rightarrow> RunRow option" where
  "run_row t run = List.find (\<lambda>r. rn_run_id r = run) (tb_runs t)"

definition run_record :: "('u, 'd) store_env \<Rightarrow> str \<Rightarrow> 'd tables \<Rightarrow> str \<Rightarrow> StorageError + RecordedRun option" where
  "run_record se session t run = map_transpose (run_of_row se session t) (run_row t run)"

section \<open>Tool results\<close>

record RecordedToolResult =
  rt_run_id :: str
  rt_call_id :: str
  rt_tool_name :: str
  rt_request_id :: "str option"
  rt_started_sequence :: u64
  rt_finished_sequence :: "u64 option"
  rt_result_sequence :: "u64 option"
  rt_is_error :: "bool option"
  rt_output :: "str option"

definition flag_from_i64 :: "i64 option \<Rightarrow> StorageError + bool option" where
  "flag_from_i64 value =
     (case value of None \<Rightarrow> Ok None
      | Some n \<Rightarrow> if n = 0 then Ok (Some False) else if n = 1 then Ok (Some True) else Err integrity)"

text \<open>What each of the three events a row refers to must say.\<close>

definition started_matches :: "RecordedToolResult \<Rightarrow> StoredEvent \<Rightarrow> bool" where
  "started_matches recorded event =
     (case sv_payload event of
        RuntimeObserved envelope \<Rightarrow>
          (case re_event envelope of
             ToolEvent (ToolExecutionStarted call name) \<Rightarrow>
               sv_run_id event = Some (rt_run_id recorded) \<and> re_request_id envelope = rt_request_id recorded \<and>
               call = rt_call_id recorded \<and> name = rt_tool_name recorded
           | _ \<Rightarrow> False)
      | _ \<Rightarrow> False)"

definition finished_matches :: "RecordedToolResult \<Rightarrow> u64 \<Rightarrow> StoredEvent \<Rightarrow> bool" where
  "finished_matches recorded sequence event =
     (case sv_payload event of
        RuntimeObserved envelope \<Rightarrow>
          (case re_event envelope of
             ToolEvent (ToolExecutionFinished call name is_error) \<Rightarrow>
               sequence > rt_started_sequence recorded \<and> sv_run_id event = Some (rt_run_id recorded) \<and>
               re_request_id envelope = rt_request_id recorded \<and> call = rt_call_id recorded \<and>
               name = rt_tool_name recorded \<and> Some is_error = rt_is_error recorded
           | _ \<Rightarrow> False)
      | _ \<Rightarrow> False)"

definition result_matches :: "RecordedToolResult \<Rightarrow> u64 \<Rightarrow> StoredEvent \<Rightarrow> bool" where
  "result_matches recorded sequence event =
     (case sv_payload event of
        ToolResultRecorded payload \<Rightarrow>
          sequence > rt_started_sequence recorded \<and> sv_run_id event = Some (rt_run_id recorded) \<and>
          tp_call_id payload = rt_call_id recorded \<and> tp_request_id payload = rt_request_id recorded \<and>
          Some (tp_output payload) = rt_output recorded \<and> Some (tp_is_error payload) = rt_is_error recorded
      | _ \<Rightarrow> False)"

definition tool_of_row :: "('u, 'd) store_env \<Rightarrow> str \<Rightarrow> 'd tables \<Rightarrow> ToolRow \<Rightarrow> StorageError + RecordedToolResult" where
  "tool_of_row se session t row =
     and_then (positive (tr_started_sequence row)) (\<lambda>started.
     and_then (map_transpose positive (tr_finished_sequence row)) (\<lambda>finished.
     and_then (map_transpose positive (tr_result_sequence row)) (\<lambda>result.
     and_then (flag_from_i64 (tr_is_error row)) (\<lambda>is_error.
     let recorded = \<lparr>rt_run_id = tr_run_id row, rt_call_id = tr_call_id row, rt_tool_name = tr_tool_name row,
       rt_request_id = tr_request_id row, rt_started_sequence = started, rt_finished_sequence = finished,
       rt_result_sequence = result, rt_is_error = is_error, rt_output = tr_output row\<rparr>
     in
     and_then (reject_if ((result \<noteq> None) \<noteq> (tr_output row \<noteq> None)
        \<or> (result \<noteq> None \<or> finished \<noteq> None) \<noteq> (is_error \<noteq> None)) integrity) (\<lambda>_.
     and_then (history_event se session t started) (\<lambda>event.
     and_then (reject_if (\<not> started_matches recorded event) integrity) (\<lambda>_.
     and_then (case finished of None \<Rightarrow> Ok ()
        | Some sequence \<Rightarrow> and_then (history_event se session t sequence) (\<lambda>event.
            reject_if (\<not> finished_matches recorded sequence event) integrity)) (\<lambda>_.
     and_then (case result of None \<Rightarrow> Ok ()
        | Some sequence \<Rightarrow> and_then (history_event se session t sequence) (\<lambda>event.
            reject_if (\<not> result_matches recorded sequence event) integrity)) (\<lambda>_.
     Ok recorded)))))))))"

definition tool_row :: "'d tables \<Rightarrow> str \<Rightarrow> str \<Rightarrow> ToolRow option" where
  "tool_row t run call = List.find (\<lambda>r. tr_run_id r = run \<and> tr_call_id r = call) (tb_tools t)"

definition stored_tool_result ::
    "('u, 'd) store_env \<Rightarrow> str \<Rightarrow> 'd tables \<Rightarrow> str \<Rightarrow> str \<Rightarrow> StorageError + RecordedToolResult option" where
  "stored_tool_result se session t run call = map_transpose (tool_of_row se session t) (tool_row t run call)"

section \<open>Correlation\<close>

record Correlation =
  co_session :: "str option"
  co_turn :: "(str \<times> u64) option"
  co_request :: "str option"
  co_provider_sequence :: "u64 option"

definition Correlation_default :: Correlation where
  "Correlation_default = \<lparr>co_session = None, co_turn = None, co_request = None, co_provider_sequence = None\<rparr>"

text \<open>The tag the derived serializer writes as \<open>$.type\<close>.\<close>

fun runtime_type :: "RunEvent \<Rightarrow> str" where
  "runtime_type RunStarted = ''run_started''"
| "runtime_type (TurnStarted _) = ''turn_started''"
| "runtime_type (ProviderEventReceived _) = ''provider_event''"
| "runtime_type (ToolEvent _) = ''tool_event''"
| "runtime_type (TurnFinished _ _ _ _) = ''turn_finished''"
| "runtime_type (RunFinished _ _) = ''run_finished''"

fun payload_type :: "StoredEventPayload \<Rightarrow> str option" where
  "payload_type (RuntimeObserved envelope) = Some (runtime_type (re_event envelope))"
| "payload_type _ = None"

fun payload_turn :: "StoredEventPayload \<Rightarrow> str option" where
  "payload_turn (RuntimeObserved envelope) = re_turn_id envelope"
| "payload_turn _ = None"

definition runtime_row :: "str \<Rightarrow> str option \<Rightarrow> EventRow \<Rightarrow> bool" where
  "runtime_row run kind r \<longleftrightarrow>
     ev_run_id r = Some run \<and> ev_event_type r = ''runtime.observed'' \<and>
     (kind = None \<or> payload_type (ev_payload_json r) = kind)"

definition latest_runtime ::
    "('u, 'd) store_env \<Rightarrow> str \<Rightarrow> 'd tables \<Rightarrow> str \<Rightarrow> str option \<Rightarrow> StorageError + RunEventEnvelope option" where
  "latest_runtime se session t run kind =
     (case rev (sort_key ev_sequence (filter (runtime_row run kind) (tb_events t))) of
        [] \<Rightarrow> Ok None
      | row # _ \<Rightarrow>
          and_then (decode se session row) (\<lambda>stored.
          case sv_payload stored of RuntimeObserved envelope \<Rightarrow> Ok (Some envelope) | _ \<Rightarrow> Err integrity))"

definition Correlation_load ::
    "('u, 'd) store_env \<Rightarrow> str \<Rightarrow> 'd tables \<Rightarrow> RecordedRun \<Rightarrow> StorageError + Correlation" where
  "Correlation_load se session t run =
     (let state = Correlation_default\<lparr>co_session := rec_provider_session_id run\<rparr> in
      if rec_last_runtime_sequence run = 0 then Ok state
      else
        and_then (latest_runtime se session t (rec_run_id run) None) (\<lambda>found.
        and_then (ok_or integrity found) (\<lambda>latest.
        and_then (reject_if (re_sequence latest \<noteq> rec_last_runtime_sequence run) integrity) (\<lambda>_.
        let state = state\<lparr>co_request := re_request_id latest\<rparr> in
        and_then (case re_event latest of
           RunStarted \<Rightarrow> Ok state
         | TurnFinished _ _ _ _ \<Rightarrow> Ok state
         | RunFinished _ _ \<Rightarrow> Ok state
         | _ \<Rightarrow>
             and_then (latest_runtime se session t (rec_run_id run) (Some ''turn_started'')) (\<lambda>found.
             and_then (ok_or integrity found) (\<lambda>started.
             and_then (case re_event started of TurnStarted number \<Rightarrow> Ok number | _ \<Rightarrow> Err integrity) (\<lambda>number.
             and_then (reject_if (re_turn_id latest \<noteq> re_turn_id started) integrity) (\<lambda>_.
             and_then (ok_or integrity (re_turn_id started)) (\<lambda>turn.
             Ok (state\<lparr>co_turn := Some (turn, number)\<rparr>))))))) (\<lambda>state.
        and_then (latest_runtime se session t (rec_run_id run) (Some ''provider_event'')) (\<lambda>found.
        case found of
          None \<Rightarrow> Ok state
        | Some provider \<Rightarrow>
            (case re_event provider of
               ProviderEventReceived nested \<Rightarrow> Ok (state\<lparr>co_provider_sequence := Some (env_sequence nested)\<rparr>)
             | _ \<Rightarrow> Err integrity)))))))"

text \<open>The part of \<open>observe\<close> common to the events inside a turn.\<close>

definition observe_in_turn :: "Correlation \<Rightarrow> RecordedRun \<Rightarrow> RunEventEnvelope \<Rightarrow> StorageError + Correlation" where
  "observe_in_turn self run event =
     and_then (ok_or transition (co_turn self)) (\<lambda>(turn, number).
     and_then (reject_if (re_turn_id event \<noteq> Some turn \<or> (co_request self \<noteq> None \<and> co_request self \<noteq> re_request_id event))
        transition) (\<lambda>_.
     let self = self\<lparr>co_request := re_request_id event\<rparr> in
     case re_event event of
       ProviderEventReceived provider \<Rightarrow>
         and_then (reject_if (env_provider provider \<noteq> req_provider_id (in_prepared_request (rec_input run))
            \<or> (case co_provider_sequence self of None \<Rightarrow> False | Some previous \<Rightarrow> env_sequence provider \<le> previous))
            transition) (\<lambda>_.
         Ok (self\<lparr>co_provider_sequence := Some (env_sequence provider)\<rparr>))
     | TurnFinished finished _ _ _ \<Rightarrow>
         and_then (reject_if (finished \<noteq> number) transition) (\<lambda>_. Ok (self\<lparr>co_turn := None\<rparr>))
     | _ \<Rightarrow> Ok self))"

definition Correlation_observe ::
    "'d tables \<Rightarrow> Correlation \<Rightarrow> RecordedRun \<Rightarrow> RunEventEnvelope \<Rightarrow> i64 \<Rightarrow> StorageError + Correlation" where
  "Correlation_observe t self run event before =
     and_then (reject_if (re_run_id event \<noteq> rec_run_id run) invalid) (\<lambda>_.
     and_then (reject_if (re_sequence event \<le> rec_last_runtime_sequence run
        \<or> list_ex (\<lambda>r. ev_source_event_id r = Some (re_event_id event) \<and> ev_sequence r < before) (tb_events t))
        (StorageError_new CommandConflict)) (\<lambda>_.
     and_then (reject_if (if re_event event = RunStarted then rec_state run \<noteq> StateAccepted
        else rec_state run \<noteq> StateRunning) transition) (\<lambda>_.
     and_then (reject_if (co_session self \<noteq> None \<and> co_session self \<noteq> re_session_id event) transition) (\<lambda>_.
     and_then (case re_event event of
        RunStarted \<Rightarrow> Ok self
      | TurnStarted number \<Rightarrow>
          and_then (reject_if (co_turn self \<noteq> None
             \<or> list_ex (\<lambda>r. ev_run_id r = Some (rec_run_id run) \<and> ev_sequence r < before
                  \<and> ev_event_type r = ''runtime.observed'' \<and> payload_type (ev_payload_json r) = Some ''turn_started''
                  \<and> re_turn_id event \<noteq> None \<and> payload_turn (ev_payload_json r) = re_turn_id event) (tb_events t))
             transition) (\<lambda>_.
          and_then (ok_or transition (re_turn_id event)) (\<lambda>turn.
          Ok (self\<lparr>co_turn := Some (turn, number), co_request := None\<rparr>)))
      | RunFinished _ _ \<Rightarrow>
          and_then (reject_if (co_turn self \<noteq> None \<or> co_request self \<noteq> re_request_id event) transition) (\<lambda>_. Ok self)
      | _ \<Rightarrow> observe_in_turn self run event) (\<lambda>self.
     Ok (self\<lparr>co_session := re_session_id event\<rparr>))))))"

section \<open>Commands on a run\<close>

fun Mutation_method :: "Mutation \<Rightarrow> str" where
  "Mutation_method (Accept _) = ''accept_run''"
| "Mutation_method (AcceptHistory _ _) = ''accept_history_run''"
| "Mutation_method (Append _) = ''append_run_records''"

definition sequence_range :: "u64 \<Rightarrow> nat \<Rightarrow> StorageError + i64 \<times> i64" where
  "sequence_range head n =
     and_then (reject_if (n = 0) invalid) (\<lambda>_.
     and_then (next_sequence head) (\<lambda>first.
     and_then (reject_if (n \<ge> 2 ^ 63 \<or> first + (int n - 1) \<ge> 2 ^ 63) invalid) (\<lambda>_.
     Ok (first, first + (int n - 1)))))"

definition command_hash :: "('u, 'd) store_env \<Rightarrow> str \<Rightarrow> str \<Rightarrow> Mutation \<Rightarrow> str" where
  "command_hash se session run mutation = dto_hash se (se_command_json se session run mutation)"

section \<open>Replay metadata\<close>

definition no_activity :: "RunSummary \<Rightarrow> bool" where
  "no_activity s \<longleftrightarrow>
     turns_started s = 0 \<and> turns_finished s = 0 \<and> model_requests_attempted s = 0 \<and> model_requests_admitted s = 0 \<and>
     new_tool_dispatches s = 0 \<and> tool_results_prepared s = 0 \<and> reused_results s = 0 \<and>
     last_request_id s = None \<and> last_upstream_outcome s = None"

definition validate_unbound_runtime :: "RunEventEnvelope \<Rightarrow> StorageError + unit" where
  "validate_unbound_runtime event =
     (case re_event event of
        RunStarted \<Rightarrow> Ok ()
      | RunFinished _ summary \<Rightarrow>
          if no_activity summary \<and> re_request_id event = None then Ok () else Err transition
      | _ \<Rightarrow> Err transition)"

definition validate_unbound_result :: "RunResult \<Rightarrow> StorageError + unit" where
  "validate_unbound_result result =
     reject_if (\<not> no_activity (result_summary result) \<or> result_last_response result \<noteq> None) transition"

definition run_events :: "'d tables \<Rightarrow> str \<Rightarrow> (EventRow \<Rightarrow> bool) \<Rightarrow> EventRow list" where
  "run_events t run P = sort_key ev_sequence (filter (\<lambda>r. ev_run_id r = Some run \<and> P r) (tb_events t))"

definition metadata_event ::
    "('u, 'd) store_env \<Rightarrow> str \<Rightarrow> 'd tables \<Rightarrow> str \<Rightarrow> str \<Rightarrow> StorageError + StoredEvent option" where
  "metadata_event se session t run kind =
     (let rows = take 2 (run_events t run (\<lambda>r. ev_event_type r = kind)) in
      and_then (reject_if (length rows > 1) integrity) (\<lambda>_.
      map_transpose (decode se session) (case rows of [] \<Rightarrow> None | row # _ \<Rightarrow> Some row)))"

definition history_selection ::
    "('u, 'd) store_env \<Rightarrow> str \<Rightarrow> 'd tables \<Rightarrow> str \<Rightarrow> StorageError + StoredHistorySelection option" where
  "history_selection se session t run_id =
     and_then (metadata_event se session t run_id ''run.history.selected'') (\<lambda>found.
     case found of
       None \<Rightarrow> Ok None
     | Some event \<Rightarrow>
         and_then (case sv_payload event of RunHistorySelected payload \<Rightarrow> Ok payload | _ \<Rightarrow> Err integrity) (\<lambda>payload.
         and_then (run_record se session t run_id) (\<lambda>found.
         and_then (ok_or integrity found) (\<lambda>run.
         let selection = hp_selection payload in
         and_then (reject_if (sv_sequence event \<noteq> rec_accepted_sequence run + 1
            \<or> sel_through_sequence selection \<noteq> rec_accepted_sequence run - 1
            \<or> \<not> selection_matches_input selection (rec_input run)) integrity) (\<lambda>_.
         let rows = take 2 (filter (\<lambda>r. cm_first_sequence r \<le> sint (sv_sequence event)
               \<and> cm_last_sequence r \<ge> sint (rec_accepted_sequence run)) (tb_commands t))
         in
         and_then (case rows of [row] \<Rightarrow> Ok row | _ \<Rightarrow> Err integrity) (\<lambda>row.
         and_then (map_err (\<lambda>_. integrity) (storage_id_from_str (se_uuid se) (cm_operation_id row))) (\<lambda>operation.
         and_then (command session t operation) (\<lambda>found.
         and_then (ok_or integrity found) (\<lambda>cmd.
         let mutation = AcceptHistory (rec_input run) selection in
         and_then (reject_if (cd_method cmd \<noteq> Mutation_method mutation \<or> rc_run_id (cd_receipt cmd) \<noteq> Some run_id
            \<or> rc_first_sequence (cd_receipt cmd) \<noteq> rec_accepted_sequence run
            \<or> rc_last_sequence (cd_receipt cmd) \<noteq> sv_sequence event
            \<or> cd_payload_hash cmd \<noteq> command_hash se session run_id mutation) integrity) (\<lambda>_.
         Ok (Some selection)))))))))))"

definition validate_binding ::
    "('u, 'd) store_env \<Rightarrow> str \<Rightarrow> 'd tables \<Rightarrow> RecordedRun \<Rightarrow> RecordedProviderBinding \<Rightarrow> u64 \<Rightarrow> StorageError + unit" where
  "validate_binding se session t run binding sequence =
     and_then (reject_if (bind_run_id binding \<noteq> rec_run_id run \<or> \<not> binding_matches_input binding (rec_input run))
        transition) (\<lambda>_.
     and_then (history_selection se session t (rec_run_id run)) (\<lambda>selection.
     and_then (reject_if (selection = None) transition) (\<lambda>_.
     let rows = take 2 (run_events t (rec_run_id run) (\<lambda>r. ev_sequence r > sint (rec_accepted_sequence run + 1)
           \<and> ev_sequence r < sint sequence))
     in
     and_then (case rows of [row] \<Rightarrow> Ok row | _ \<Rightarrow> Err transition) (\<lambda>row.
     and_then (decode se session row) (\<lambda>started.
     reject_if (\<not> (case sv_payload started of RuntimeObserved e \<Rightarrow> re_event e = RunStarted | _ \<Rightarrow> False))
       transition)))))"

definition provider_binding ::
    "('u, 'd) store_env \<Rightarrow> str \<Rightarrow> 'd tables \<Rightarrow> str \<Rightarrow> StorageError + RecordedProviderBinding option" where
  "provider_binding se session t run_id =
     and_then (metadata_event se session t run_id ''run.provider.bound'') (\<lambda>found.
     case found of
       None \<Rightarrow> Ok None
     | Some event \<Rightarrow>
         and_then (case sv_payload event of RunProviderBound binding \<Rightarrow> Ok binding | _ \<Rightarrow> Err integrity) (\<lambda>binding.
         and_then (run_record se session t run_id) (\<lambda>found.
         and_then (ok_or integrity found) (\<lambda>run.
         and_then (map_err (\<lambda>e. if error_kind e = InvalidTransition then integrity else e)
            (validate_binding se session t run binding (sv_sequence event))) (\<lambda>_.
         and_then (reject_if (rec_provider_session_id run \<noteq> Some (bind_provider_session_id binding)) integrity) (\<lambda>_.
         Ok (Some binding)))))))"

section \<open>Appending to a run\<close>

definition insert_event ::
    "i64 \<Rightarrow> str \<Rightarrow> i64 \<Rightarrow> str \<Rightarrow> StoredEventPayload \<Rightarrow> RunEventEnvelope option \<Rightarrow> ('d, unit) sql" where
  "insert_event sequence fresh timestamp run json source =
     insert_event_row \<lparr>ev_sequence = sequence, ev_event_id = fresh, ev_event_type = stored_event_type json,
       ev_event_version = 1, ev_created_at_ms = timestamp, ev_run_id = Some run,
       ev_source_event_id = map_option re_event_id source,
       ev_source_sequence = map_option (sint \<circ> re_sequence) source, ev_payload_json = json\<rparr>"

definition update_run :: "str \<Rightarrow> (RunRow \<Rightarrow> RunRow) \<Rightarrow> ('d, unit) sql" where
  "update_run run f = execute (\<lambda>t. t\<lparr>tb_runs := map (\<lambda>r. if rn_run_id r = run then f r else r) (tb_runs t)\<rparr>)"

definition update_tool :: "str \<Rightarrow> str \<Rightarrow> (ToolRow \<Rightarrow> ToolRow) \<Rightarrow> ('d, unit) sql" where
  "update_tool run call f =
     execute (\<lambda>t. t\<lparr>tb_tools := map (\<lambda>r. if tr_run_id r = run \<and> tr_call_id r = call then f r else r) (tb_tools t)\<rparr>)"

definition require_outputs :: "str \<Rightarrow> RunOutcome \<Rightarrow> ('d, unit) sql" where
  "require_outputs run outcome =
     query (\<lambda>t. reject_if (outcome = RunCompleted \<and>
       list_ex (\<lambda>r. tr_run_id r = run \<and> tr_result_sequence r = None) (tb_tools t)) transition)"

definition terminalize :: "RecordedRun \<Rightarrow> i64 \<Rightarrow> RunOutcome \<Rightarrow> StoredEventPayload \<Rightarrow> ('d, RecordedRun) sql" where
  "terminalize run sequence outcome json =
     then_do (update_run (rec_run_id run) (\<lambda>r. r\<lparr>rn_terminal_sequence := Some sequence, rn_terminal_json := Some json\<rparr>)) (\<lambda>_.
     ret (run\<lparr>rec_state := outcome_state outcome\<rparr>))"

definition flag_to_i64 :: "bool \<Rightarrow> i64" where
  "flag_to_i64 b = (if b then 1 else 0)"

text \<open>The three tool events: a call starts once, finishes once in the turn it started in, and is reused only after
  its result is recorded.\<close>

definition tool_started :: "('u, 'd) store_env \<Rightarrow> str \<Rightarrow> RecordedRun \<Rightarrow> i64 \<Rightarrow> str \<Rightarrow> str \<Rightarrow> str \<Rightarrow> ('d, unit) sql" where
  "tool_started se session run sequence request call name =
     then_do (query (\<lambda>t. stored_tool_result se session t (rec_run_id run) call)) (\<lambda>saved.
     then_do (fail_if (saved \<noteq> None) transition) (\<lambda>_.
     execute (\<lambda>t. t\<lparr>tb_tools := tb_tools t @ [\<lparr>tr_run_id = rec_run_id run, tr_call_id = call, tr_tool_name = name,
       tr_request_id = Some request, tr_started_sequence = sequence, tr_finished_sequence = None,
       tr_result_sequence = None, tr_is_error = None, tr_output = None\<rparr>]\<rparr>)))"

definition tool_finished ::
    "('u, 'd) store_env \<Rightarrow> str \<Rightarrow> RecordedRun \<Rightarrow> i64 \<Rightarrow> RunEventEnvelope \<Rightarrow> str \<Rightarrow> str \<Rightarrow> str \<Rightarrow> bool \<Rightarrow> ('d, unit) sql" where
  "tool_finished se session run sequence envelope request call name is_error =
     then_do (query (\<lambda>t. stored_tool_result se session t (rec_run_id run) call)) (\<lambda>saved.
     then_do (from_result (ok_or transition saved)) (\<lambda>saved.
     then_do (fail_if (rt_tool_name saved \<noteq> name \<or> rt_request_id saved \<noteq> Some request \<or> rt_finished_sequence saved \<noteq> None
        \<or> (case rt_is_error saved of None \<Rightarrow> False | Some observed \<Rightarrow> observed \<noteq> is_error)) transition) (\<lambda>_.
     then_do (query (\<lambda>t. history_event se session t (rt_started_sequence saved))) (\<lambda>started.
     then_do (from_result (case sv_payload started of RuntimeObserved e \<Rightarrow> Ok e | _ \<Rightarrow> Err integrity)) (\<lambda>started.
     then_do (fail_if (re_turn_id started \<noteq> re_turn_id envelope) transition) (\<lambda>_.
     update_tool (rec_run_id run) call
       (\<lambda>r. r\<lparr>tr_finished_sequence := Some sequence, tr_is_error := Some (flag_to_i64 is_error)\<rparr>)))))))"

definition tool_reused :: "('u, 'd) store_env \<Rightarrow> str \<Rightarrow> RecordedRun \<Rightarrow> str \<Rightarrow> str \<Rightarrow> ('d, unit) sql" where
  "tool_reused se session run call name =
     then_do (query (\<lambda>t. stored_tool_result se session t (rec_run_id run) call)) (\<lambda>saved.
     then_do (from_result (ok_or transition saved)) (\<lambda>saved.
     fail_if (rt_tool_name saved \<noteq> name \<or> rt_request_id saved = None \<or> rt_result_sequence saved = None) transition))"

definition record_tool_event ::
    "('u, 'd) store_env \<Rightarrow> str \<Rightarrow> RecordedRun \<Rightarrow> i64 \<Rightarrow> RunEventEnvelope \<Rightarrow> ToolExecutionEvent \<Rightarrow> ('d, unit) sql" where
  "record_tool_event se session run sequence envelope tool =
     then_do (from_result (ok_or transition (re_request_id envelope))) (\<lambda>request.
     case tool of
       ToolExecutionStarted call name \<Rightarrow> tool_started se session run sequence request call name
     | ToolExecutionFinished call name is_error \<Rightarrow>
         tool_finished se session run sequence envelope request call name is_error
     | ToolResultReused call name \<Rightarrow> tool_reused se session run call name)"

text \<open>The payload an append record is stored as, with the checks of a provider binding.\<close>

fun record_payload :: "AppendRunRecord \<Rightarrow> StoredEventPayload" where
  "record_payload (AppendProviderBinding binding) = RunProviderBound binding"
| "record_payload (AppendRuntime event) = RuntimeObserved event"
| "record_payload (AppendToolResult request call output is_error) =
     ToolResultRecorded \<lparr>tp_request_id = request, tp_call_id = call, tp_output = output, tp_is_error = is_error\<rparr>"
| "record_payload (AppendResult result) = RunResultRecorded result"

fun record_source :: "AppendRunRecord \<Rightarrow> RunEventEnvelope option" where
  "record_source (AppendRuntime event) = Some event"
| "record_source _ = None"

definition check_binding ::
    "('u, 'd) store_env \<Rightarrow> str \<Rightarrow> RecordedRun \<Rightarrow> i64 \<Rightarrow> AppendRunRecord \<Rightarrow> ('d, unit) sql" where
  "check_binding se session run sequence record =
     (case record of
        AppendProviderBinding binding \<Rightarrow>
          then_do (fail_if (rec_state run \<noteq> StateRunning) transition) (\<lambda>_.
          query (\<lambda>t. validate_binding se session t run binding (of_int sequence)))
      | _ \<Rightarrow> ret ())"

text \<open>What each record does to the run and to the tool results once its event is inserted.\<close>

definition append_runtime ::
    "('u, 'd) store_env \<Rightarrow> str \<Rightarrow> RecordedRun \<Rightarrow> i64 \<Rightarrow> RunEventEnvelope \<Rightarrow> ('d, RecordedRun) sql" where
  "append_runtime se session run sequence event =
     then_do (case re_event event of
        RunStarted \<Rightarrow> ret (run\<lparr>rec_state := StateRunning\<rparr>)
      | RunFinished outcome _ \<Rightarrow>
          then_do (require_outputs (rec_run_id run) outcome) (\<lambda>_.
          terminalize run sequence outcome (RuntimeObserved event))
      | ToolEvent tool \<Rightarrow> then_do (record_tool_event se session run sequence event tool) (\<lambda>_. ret run)
      | _ \<Rightarrow> ret run) (\<lambda>run.
     ret (run\<lparr>rec_last_runtime_sequence := re_sequence event, rec_provider_session_id := re_session_id event\<rparr>))"

definition append_tool_result ::
    "('u, 'd) store_env \<Rightarrow> str \<Rightarrow> RecordedRun \<Rightarrow> i64 \<Rightarrow> str option \<Rightarrow> str \<Rightarrow> str \<Rightarrow> bool \<Rightarrow> ('d, RecordedRun) sql" where
  "append_tool_result se session run sequence request call out is_error =
     then_do (fail_if (rec_state run \<noteq> StateRunning) transition) (\<lambda>_.
     then_do (query (\<lambda>t. stored_tool_result se session t (rec_run_id run) call)) (\<lambda>saved.
     then_do (from_result (ok_or transition saved)) (\<lambda>saved.
     then_do (fail_if (rt_request_id saved \<noteq> request \<or> rt_result_sequence saved \<noteq> None
        \<or> (case rt_is_error saved of None \<Rightarrow> False | Some observed \<Rightarrow> observed \<noteq> is_error)) transition) (\<lambda>_.
     then_do (update_tool (rec_run_id run) call (\<lambda>r. r\<lparr>tr_result_sequence := Some sequence, tr_output := Some out,
        tr_is_error := Some (flag_to_i64 is_error)\<rparr>)) (\<lambda>_.
     ret run)))))"

definition append_result ::
    "('u, 'd) store_env \<Rightarrow> str \<Rightarrow> RecordedRun \<Rightarrow> i64 \<Rightarrow> RunResult \<Rightarrow> ('d, RecordedRun) sql" where
  "append_result se session run sequence result =
     then_do (fail_if (result_run_id result \<noteq> rec_run_id run \<or> rec_result_sequence run \<noteq> None) transition) (\<lambda>_.
     then_do (if active (rec_state run) then
          then_do (fail_if (result_events_complete result \<or> (rec_provider_session_id run \<noteq> None
             \<and> rec_provider_session_id run \<noteq> result_session_id result)) transition) (\<lambda>_.
          then_do (require_outputs (rec_run_id run) (result_outcome result)) (\<lambda>_.
          then_do (terminalize run sequence (result_outcome result) (RunResultRecorded result)) (\<lambda>run.
          ret (run\<lparr>rec_provider_session_id := result_session_id result\<rparr>))))
        else
          then_do (from_result (ok_or integrity (map_option sv_sequence (rec_terminal run)))) (\<lambda>at.
          then_do (query (\<lambda>t. history_event se session t at)) (\<lambda>terminal.
          then_do (from_result (ok_or transition (terminal_outcome terminal))) (\<lambda>(outcome, provider).
          then_do (fail_if (outcome \<noteq> result_outcome result \<or> provider \<noteq> result_session_id result) transition) (\<lambda>_.
          ret run))))) (\<lambda>run.
     ret (run\<lparr>rec_result_sequence := Some (of_int sequence)\<rparr>)))"

definition record_effect ::
    "('u, 'd) store_env \<Rightarrow> str \<Rightarrow> RecordedRun \<Rightarrow> i64 \<Rightarrow> AppendRunRecord \<Rightarrow> ('d, RecordedRun) sql" where
  "record_effect se session run sequence record =
     (case record of
        AppendProviderBinding binding \<Rightarrow>
          ret (run\<lparr>rec_provider_session_id := Some (bind_provider_session_id binding)\<rparr>)
      | AppendRuntime event \<Rightarrow> append_runtime se session run sequence event
      | AppendToolResult request call out is_error \<Rightarrow> append_tool_result se session run sequence request call out is_error
      | AppendResult result \<Rightarrow> append_result se session run sequence result)"

text \<open>\<open>projector::Event::record\<close>.\<close>

definition projector_record :: "str \<Rightarrow> AppendRunRecord \<Rightarrow> StorageError + ProjectorInput" where
  "projector_record run record =
     (case record of
        AppendProviderBinding binding \<Rightarrow>
          and_then (reject_if (bind_run_id binding \<noteq> run) integrity) (\<lambda>_. Ok ProjectProviderBound)
      | AppendRuntime event \<Rightarrow> Ok (ProjectRuntime event)
      | AppendToolResult request call output is_error \<Rightarrow> Ok (ProjectToolResult request call output is_error)
      | AppendResult result \<Rightarrow> Ok (ProjectResult result))"

definition append_record ::
    "('u, 'd) store_env \<Rightarrow> str \<Rightarrow> RecordedRun \<Rightarrow> i64 \<Rightarrow> str \<Rightarrow> i64 \<Rightarrow> AppendRunRecord \<Rightarrow> ('d, RecordedRun) sql" where
  "append_record se session run sequence fresh timestamp record =
     then_do (check_binding se session run sequence record) (\<lambda>_.
     then_do (fail_if (rec_state run = StateInterrupted
        \<or> (\<not> active (rec_state run) \<and> \<not> (case record of AppendResult _ \<Rightarrow> True | _ \<Rightarrow> False))) transition) (\<lambda>_.
     then_do (insert_event sequence fresh timestamp (rec_run_id run) (record_payload record) (record_source record)) (\<lambda>_.
     then_do (record_effect se session run sequence record) (\<lambda>run.
     then_do (update_run (rec_run_id run) (\<lambda>r. r\<lparr>rn_state := state_name (rec_state run),
        rn_last_runtime_sequence := sint (rec_last_runtime_sequence run),
        rn_provider_session_id := rec_provider_session_id run,
        rn_result_sequence := map_option sint (rec_result_sequence run)\<rparr>)) (\<lambda>_.
     then_do (if \<not> active (rec_state run) \<and> rec_terminal run = None then
          then_do (query (\<lambda>t. history_event se session t (of_int sequence))) (\<lambda>terminal.
          ret (run\<lparr>rec_terminal := Some terminal\<rparr>))
        else ret run) (\<lambda>run.
     then_do (from_result (projector_record (rec_run_id run) record)) (\<lambda>input.
     then_do (projector_apply se (of_int sequence) (Some (rec_run_id run)) input) (\<lambda>_.
     ret run))))))))"

section \<open>The transaction\<close>

definition check_unbound :: "AppendRunRecord \<Rightarrow> StorageError + unit" where
  "check_unbound record =
     (case record of
        AppendRuntime event \<Rightarrow> validate_unbound_runtime event
      | AppendResult result \<Rightarrow> validate_unbound_result result
      | AppendToolResult _ _ _ _ \<Rightarrow> Err transition
      | AppendProviderBinding _ \<Rightarrow> Ok ())"

text \<open>The state of the loop over a batch: the run, the correlation, and whether a provider is still to be bound.\<close>

type_synonym batch_state = "RecordedRun \<times> Correlation \<times> bool"

definition append_step ::
    "('u, 'd) store_env \<Rightarrow> str \<Rightarrow> i64 \<Rightarrow> str \<Rightarrow> i64 \<Rightarrow> AppendRunRecord \<Rightarrow> batch_state \<Rightarrow> ('d, batch_state) sql" where
  "append_step se session sequence fresh timestamp record = (\<lambda>(run, correlation, unbound).
     then_do (from_result (if unbound then check_unbound record else Ok ())) (\<lambda>_.
     then_do (case record of
        AppendRuntime event \<Rightarrow> query (\<lambda>t. Correlation_observe t correlation run event sequence)
      | _ \<Rightarrow> ret correlation) (\<lambda>correlation.
     then_do (append_record se session run sequence fresh timestamp record) (\<lambda>run.
     case record of
       AppendProviderBinding binding \<Rightarrow>
         ret (run, correlation\<lparr>co_session := Some (bind_provider_session_id binding)\<rparr>, False)
     | _ \<Rightarrow> ret (run, correlation, unbound)))))"

fun append_records ::
    "('u, 'd) store_env \<Rightarrow> str \<Rightarrow> i64 \<Rightarrow> (i64 \<Rightarrow> str) \<Rightarrow> i64 \<Rightarrow> AppendRunRecord list \<Rightarrow> batch_state \<Rightarrow> ('d, batch_state) sql" where
  "append_records se session sequence fresh timestamp [] state = ret state"
| "append_records se session sequence fresh timestamp (record # records) state =
     then_do (append_step se session sequence (fresh sequence) timestamp record state) (\<lambda>state.
     append_records se session (sequence + 1) fresh timestamp records state)"

definition load_batch :: "('u, 'd) store_env \<Rightarrow> str \<Rightarrow> str \<Rightarrow> 'd tables \<Rightarrow> StorageError + batch_state" where
  "load_batch se session run_id t =
     and_then (run_record se session t run_id) (\<lambda>found.
     and_then (ok_or transition found) (\<lambda>run.
     and_then (Correlation_load se session t run) (\<lambda>correlation.
     and_then (history_selection se session t run_id) (\<lambda>selection.
     and_then (if selection \<noteq> None then map_ok (\<lambda>b. b = None) (provider_binding se session t run_id) else Ok False) (\<lambda>unbound.
     Ok (run, correlation, unbound))))))"

definition accept_run ::
    "('u, 'd) store_env \<Rightarrow> str \<Rightarrow> i64 \<Rightarrow> str \<Rightarrow> i64 \<Rightarrow> str \<Rightarrow> RecordedRunInput \<Rightarrow> ('d, unit) sql" where
  "accept_run se owner first fresh timestamp run_id input =
     then_do (query (\<lambda>t. reject_if (run_row t run_id \<noteq> None) transition)) (\<lambda>_.
     then_do (query (\<lambda>t. reject_if (list_ex unfinished (tb_runs t)) (StorageError_new ActiveRunExists))) (\<lambda>_.
     then_do (insert_event first fresh timestamp run_id
        (RunAccepted \<lparr>ap_run_id = run_id, ap_input = input, ap_owner_instance_id = owner\<rparr>) None) (\<lambda>_.
     then_do (execute (\<lambda>t. t\<lparr>tb_runs := tb_runs t @ [\<lparr>rn_run_id = run_id, rn_accepted_sequence = first,
        rn_state = ''accepted'', rn_last_runtime_sequence = 0, rn_owner_instance_id = owner,
        rn_provider_session_id = None, rn_terminal_sequence = None, rn_terminal_json = None,
        rn_result_sequence = None\<rparr>]\<rparr>)) (\<lambda>_.
     projector_apply se (of_int first) (Some run_id) (ProjectAccepted input)))))"

definition select_history ::
    "('u, 'd) store_env \<Rightarrow> i64 \<Rightarrow> str \<Rightarrow> i64 \<Rightarrow> str \<Rightarrow> StoredHistorySelection \<Rightarrow> ('d, unit) sql" where
  "select_history se final fresh timestamp run_id selection =
     then_do (insert_event final fresh timestamp run_id
        (RunHistorySelected \<lparr>hp_run_id = run_id, hp_selection = selection\<rparr>) None) (\<lambda>_.
     projector_apply se (of_int final) (Some run_id) ProjectHistorySelected)"

text \<open>The checks of a new command before any row is written.\<close>

definition mutation_checks ::
    "('u, 'd) store_env \<Rightarrow> str \<Rightarrow> str \<Rightarrow> SessionManifest \<Rightarrow> Mutation \<Rightarrow> 'd tables \<Rightarrow> StorageError + unit" where
  "mutation_checks se session run_id manifest mutation t =
     (case mutation of
        Accept input \<Rightarrow> Ok ()
      | AcceptHistory input selection \<Rightarrow>
          and_then (reject_if (sm_head_sequence manifest \<noteq> sel_through_sequence selection)
             (StorageError_new StaleHistory)) (\<lambda>_.
          reject_if (\<not> selection_matches_input selection input) invalid)
      | Append records \<Rightarrow>
          and_then (collect_results (validate_admission (se_uuid se)) records) (\<lambda>_.
          and_then (run_record se session t run_id) (\<lambda>found.
          and_then (ok_or transition found) (\<lambda>run.
          map_ok (\<lambda>_. ()) (collect_results (\<lambda>record. validate_provider_admission (se_uuid se) record
             (req_provider_id (in_prepared_request (rec_input run)))) records)))))"

fun mutation_count :: "Mutation \<Rightarrow> nat" where
  "mutation_count (Accept _) = 1"
| "mutation_count (AcceptHistory _ _) = 2"
| "mutation_count (Append records) = length records"

definition mutation_effect ::
    "('u, 'd) store_env \<Rightarrow> str \<Rightarrow> str \<Rightarrow> str \<Rightarrow> i64 \<Rightarrow> i64 \<Rightarrow> (i64 \<Rightarrow> str) \<Rightarrow> i64 \<Rightarrow> Mutation \<Rightarrow> ('d, unit) sql" where
  "mutation_effect se session owner run_id first final fresh timestamp mutation =
     (case mutation of
        Accept input \<Rightarrow> accept_run se owner first (fresh first) timestamp run_id input
      | AcceptHistory input selection \<Rightarrow>
          then_do (accept_run se owner first (fresh first) timestamp run_id input) (\<lambda>_.
          select_history se final (fresh final) timestamp run_id selection)
      | Append records \<Rightarrow>
          then_do (query (load_batch se session run_id)) (\<lambda>state.
          then_do (append_records se session first fresh timestamp records state) (\<lambda>_.
          ret ())))"

text \<open>A command already recorded answers its receipt; \<open>Some\<close> is the early return of \<open>mutate\<close>.\<close>

definition repeated_command ::
    "('u, 'd) store_env \<Rightarrow> str \<Rightarrow> str \<Rightarrow> str \<Rightarrow> Mutation \<Rightarrow> 'd tables \<Rightarrow> StorageError + CommitReceipt option" where
  "repeated_command se session operation run_id mutation t =
     and_then (command session t operation) (\<lambda>known.
     case known of
       None \<Rightarrow> Ok None
     | Some cmd \<Rightarrow>
         and_then (reject_if (cd_method cmd \<noteq> Mutation_method mutation
            \<or> cd_payload_hash cmd \<noteq> command_hash se session run_id mutation) (StorageError_new CommandConflict)) (\<lambda>_.
         and_then (reject_if (rc_run_id (cd_receipt cmd) \<noteq> Some run_id) integrity) (\<lambda>_.
         and_then (case mutation of
            AcceptHistory _ selection \<Rightarrow>
              and_then (history_selection se session t run_id) (\<lambda>stored.
              reject_if (stored \<noteq> Some selection) integrity)
          | _ \<Rightarrow> Ok ()) (\<lambda>_.
         Ok (Some (cd_receipt cmd))))))"

text \<open>\<open>now\<close> is what \<open>dto::now_ms\<close> answers, \<open>fresh\<close> gives the new event id of the row at a sequence.\<close>

definition new_command ::
    "('u, 'd) store_env \<Rightarrow> CreationProvenance \<Rightarrow> str \<Rightarrow> StorageError + i64 \<Rightarrow> (i64 \<Rightarrow> str) \<Rightarrow> str \<Rightarrow> str \<Rightarrow> Mutation \<Rightarrow>
     ('d, CommitReceipt) sql" where
  "new_command se provenance owner now fresh operation run_id mutation =
     (let session = pv_session_id provenance in
      then_do (query (validate_manifest se session (Some provenance))) (\<lambda>manifest.
      then_do (query (mutation_checks se session run_id manifest mutation)) (\<lambda>_.
      then_do (from_result (sequence_range (sm_head_sequence manifest) (mutation_count mutation))) (\<lambda>(first, final).
      then_do (from_result now) (\<lambda>timestamp.
      then_do (mutation_effect se session owner run_id first final fresh timestamp mutation) (\<lambda>_.
      then_do (from_result (CommitReceipt_run_batch operation session run_id first final)) (\<lambda>receipt.
      then_do (update_manifest (\<lambda>r. r\<lparr>mf_head_sequence := final, mf_updated_at_ms := timestamp\<rparr>)) (\<lambda>_.
      then_do (insert_command \<lparr>cm_operation_id = operation, cm_method = Mutation_method mutation,
         cm_payload_hash = command_hash se session run_id mutation, cm_first_sequence = first, cm_last_sequence = final,
         cm_receipt_json = receipt\<rparr>) (\<lambda>_.
      ret receipt)))))))))"

definition mutate ::
    "('u, 'd) store_env \<Rightarrow> CreationProvenance \<Rightarrow> str \<Rightarrow> StorageError + i64 \<Rightarrow> (i64 \<Rightarrow> str) \<Rightarrow> str \<Rightarrow> str \<Rightarrow> Mutation \<Rightarrow>
     ('d, CommitReceipt \<times> bool) sql" where
  "mutate se provenance owner now fresh operation run_id mutation = transact (
     then_do (query (repeated_command se (pv_session_id provenance) operation run_id mutation)) (\<lambda>known.
     case known of
       Some receipt \<Rightarrow> ret (receipt, True)
     | None \<Rightarrow>
         then_do (new_command se provenance owner now fresh operation run_id mutation) (\<lambda>receipt.
         ret (receipt, False))))"

section \<open>Interruption\<close>

text \<open>\<open>interruption::reconcile\<close>: an unfinished run of another process instance is interrupted.\<close>

definition reconcile ::
    "('u, 'd) store_env \<Rightarrow> CreationProvenance \<Rightarrow> str \<Rightarrow> StorageError + i64 \<Rightarrow> str \<Rightarrow> ('d, unit) sql" where
  "reconcile se provenance owner now fresh = transact (
     let session = pv_session_id provenance in
     then_do (query (validate_manifest se session (Some provenance))) (\<lambda>manifest.
     then_do (read (\<lambda>t. List.find (\<lambda>r. unfinished r \<and> rn_owner_instance_id r \<noteq> owner) (tb_runs t))) (\<lambda>found.
     case found of
       None \<Rightarrow> ret ()
     | Some row \<Rightarrow>
         then_do (from_result (map_err (\<lambda>_. integrity) (parse_run_id (se_uuid se) (rn_run_id row)))) (\<lambda>run_id.
         then_do (query (\<lambda>t. run_record se session t run_id)) (\<lambda>found.
         then_do (from_result (ok_or integrity found)) (\<lambda>_.
         then_do (from_result (next_sequence (sm_head_sequence manifest))) (\<lambda>sequence.
         then_do (from_result now) (\<lambda>timestamp.
         let payload = RunInterrupted \<lparr>ip_run_id = run_id, ip_reason = ProcessRestart\<rparr> in
         then_do (insert_event sequence fresh timestamp run_id payload None) (\<lambda>_.
         then_do (update_run run_id (\<lambda>r. r\<lparr>rn_state := ''interrupted'', rn_terminal_sequence := Some sequence,
            rn_terminal_json := Some payload\<rparr>)) (\<lambda>_.
         then_do (update_manifest (\<lambda>r. r\<lparr>mf_head_sequence := sequence, mf_updated_at_ms := timestamp\<rparr>)) (\<lambda>_.
         projector_apply se (of_int sequence) (Some run_id) ProjectInterrupted)))))))))))"

end
