(* ===== verification/Store_Rows.thy ===== *)
theory Store_Rows
  imports Run_Store
begin

text \<open>
  How the rows of a session database read back.  The readers of \<open>src/storage/run_store.rs\<close> re-derive every row from the
  event log and answer \<open>storage.integrity\<close> when they disagree.  This theory states when a row reads (\<open>run_of_row_Ok\<close>,
  \<open>tool_of_row_Ok\<close>), that reading survives appends to the log, and what each kind of update of a row reads as.
\<close>

section \<open>Appending to the log\<close>

definition extends :: "'d tables \<Rightarrow> 'd tables \<Rightarrow> bool" where
  "extends t t' \<longleftrightarrow> (\<exists>rows. tb_events t' = tb_events t @ rows)"

interpretation ext: step_relation extends
  by unfold_locales (auto simp: extends_def)

lemma find_append_Some: "List.find P xs = Some x \<Longrightarrow> List.find P (xs @ ys) = Some x"
  by (induction xs) auto

lemma event_row_extends: "event_row t i = Some r \<Longrightarrow> extends t t' \<Longrightarrow> event_row t' i = Some r"
  by (auto simp: event_row_def extends_def find_append_Some)

lemma history_event_extends [ok_mono]:
  "extends t t' \<Longrightarrow> ok_le (history_event se session t i) (history_event se session t' i)"
  by (auto simp: ok_le_def history_event_def wi_results dest: event_row_extends)

lemma run_terminal_extends [ok_mono]:
  "extends t t' \<Longrightarrow> ok_le (run_terminal se session t row accepted state i) (run_terminal se session t' row accepted state i)"
  unfolding run_terminal_def by (intro ok_mono)

lemma run_result_extends [ok_mono]:
  "extends t t' \<Longrightarrow> ok_le (run_result se session t row terminal i) (run_result se session t' row terminal i)"
  unfolding run_result_def by (intro ok_mono)

lemma run_of_row_extends [ok_mono]:
  "extends t t' \<Longrightarrow> ok_le (run_of_row se session t row) (run_of_row se session t' row)"
  unfolding run_of_row_def by (intro ok_mono)

lemma tool_of_row_extends [ok_mono]:
  "extends t t' \<Longrightarrow> ok_le (tool_of_row se session t row) (tool_of_row se session t' row)"
  unfolding tool_of_row_def Let_def by (intro ok_mono)


lemma state_from_name [simp]: "state_from_name (state_name st) = Ok st"
  by (cases st) (auto simp: state_from_name_def)

lemma positive_Ok [wi_results]: "positive i = Ok w \<longleftrightarrow> 0 < i \<and> w = of_int i"
  by (auto simp: positive_def)

lemma active_states [simp]:
  "active StateAccepted" "active StateRunning" "\<not> active StateInterrupted" "\<not> active (outcome_state o')"
  by (auto simp: active_def) (cases o'; simp)+

definition accepted_as :: "('u, 'd) store_env \<Rightarrow> str \<Rightarrow> 'd tables \<Rightarrow> RunRow \<Rightarrow> u64 \<Rightarrow> AcceptedPayload \<Rightarrow> bool" where
  "accepted_as se session t row i accepted \<longleftrightarrow>
     positive (rn_accepted_sequence row) = Ok i \<and>
     (\<exists>event. history_event se session t i = Ok event \<and> sv_payload event = RunAccepted accepted) \<and>
     ap_run_id accepted = rn_run_id row \<and> ap_owner_instance_id accepted = rn_owner_instance_id row"

lemma accepted_payload_Ok:
  "(case p of RunAccepted accepted \<Rightarrow> Ok accepted | _ \<Rightarrow> Err e) = Ok a \<longleftrightarrow> p = RunAccepted a"
  by (cases p) auto

definition terminal_reads :: "('u, 'd) store_env \<Rightarrow> str \<Rightarrow> 'd tables \<Rightarrow> RunRow \<Rightarrow> RecordedRun \<Rightarrow> bool" where
  "terminal_reads se session t row r =
     (case rn_terminal_sequence row of
        None \<Rightarrow> active (rec_state r) \<and> rn_terminal_json row = None \<and> rec_terminal r = None
      | Some n \<Rightarrow> \<not> active (rec_state r) \<and> 0 < n \<and>
          (\<exists>e. rec_terminal r = Some e \<and> run_terminal se session t row (rec_accepted_sequence r) (rec_state r) (of_int n) = Ok e))"

definition result_reads :: "('u, 'd) store_env \<Rightarrow> str \<Rightarrow> 'd tables \<Rightarrow> RunRow \<Rightarrow> RecordedRun \<Rightarrow> bool" where
  "result_reads se session t row r =
     (case rn_result_sequence row of
        None \<Rightarrow> rec_result_sequence r = None \<and> rec_result r = None
      | Some n \<Rightarrow> 0 < n \<and> rec_result_sequence r = Some (of_int n) \<and>
          (\<exists>x. rec_result r = Some x \<and> run_result se session t row (rec_terminal r) (of_int n) = Ok x))"

lemma map_transpose_positive:
  "map_transpose positive x = Ok y \<longleftrightarrow>
     (case x of None \<Rightarrow> y = None | Some n \<Rightarrow> 0 < n \<and> y = Some (of_int n))"
  by (cases x) (auto simp: wi_results)

lemma run_terminal_json: "run_terminal se session t row i st n = Ok e \<Longrightarrow> rn_terminal_json row = Some (sv_payload e)"
  by (auto simp: run_terminal_def wi_results)

lemma run_of_row_Ok:
  "run_of_row se session t row = Ok r \<longleftrightarrow>
     (\<exists>a. accepted_as se session t row (rec_accepted_sequence r) a \<and> rec_run_id r = rn_run_id row \<and>
        rec_input r = ap_input a \<and> rec_owner_instance_id r = ap_owner_instance_id a) \<and>
     state_from_name (rn_state row) = Ok (rec_state r) \<and> 0 \<le> rn_last_runtime_sequence row \<and>
     rec_last_runtime_sequence r = of_int (rn_last_runtime_sequence row) \<and>
     rec_provider_session_id r = rn_provider_session_id row \<and>
     terminal_reads se session t row r \<and> result_reads se session t row r"
proof (cases "rn_terminal_sequence row"; cases "rn_result_sequence row")
qed (cases r; auto simp: run_of_row_def accepted_as_def wi_results accepted_payload_Ok terminal_reads_def result_reads_def
      map_transpose_positive dest: run_terminal_json)+

section \<open>The event log\<close>

abbreviation log_length :: "'d tables \<Rightarrow> i64" where
  "log_length t \<equiv> int (length (tb_events t))"

definition log_ok :: "('u, 'd) store_env \<Rightarrow> str \<Rightarrow> 'd tables \<Rightarrow> bool" where
  "log_ok se session t \<longleftrightarrow>
     map ev_sequence (tb_events t) = [1..log_length t] \<and> log_length t < 2 ^ 63 \<and>
     (\<forall>row \<in> set (tb_events t). \<exists>e. decode se session row = Ok e)"

lemma find_nth_unique:
  "i < length xs \<Longrightarrow> f (xs ! i) = k \<Longrightarrow> (\<And>j. j < i \<Longrightarrow> f (xs ! j) \<noteq> k) \<Longrightarrow> List.find (\<lambda>x. f x = k) xs = Some (xs ! i)"
proof (induction xs arbitrary: i)
  case (Cons x xs)
  show ?case
  proof (cases i)
    case 0
    then show ?thesis using Cons.prems by simp
  next
    case (Suc j)
    have "f x \<noteq> k" using Cons.prems(3) [of 0] Suc by simp
    moreover have "List.find (\<lambda>x. f x = k) xs = Some (xs ! j)"
    proof (rule Cons.IH)
      show "f (xs ! m) \<noteq> k" if "m < j" for m using Cons.prems(3) [of "Suc m"] Suc that by simp
    qed (use Cons.prems Suc in auto)
    ultimately show ?thesis using Suc by simp
  qed
qed simp

lemma log_nth: "map ev_sequence rows = [1..int (length rows)] \<Longrightarrow> j < length rows \<Longrightarrow> ev_sequence (rows ! j) = int j + 1"
proof -
  assume rows: "map ev_sequence rows = [1..int (length rows)]" and j: "j < length rows"
  have "ev_sequence (rows ! j) = map ev_sequence rows ! j" using j by simp
  also have "\<dots> = 1 + int j" unfolding rows using j by (intro nth_upto) simp
  finally show ?thesis by simp
qed

lemma event_row_log:
  assumes "map ev_sequence (tb_events t) = [1..log_length t]" "1 \<le> i" "i \<le> log_length t"
  shows "event_row t i = Some (tb_events t ! nat (i - 1))"
proof -
  have n: "nat (i - 1) < length (tb_events t)" using assms(2,3) by linarith
  have seq: "ev_sequence (tb_events t ! j) = int j + 1" if "j < length (tb_events t)" for j
    using log_nth [OF assms(1) that] .
  show ?thesis unfolding event_row_def
  proof (rule find_nth_unique [OF n])
    show "ev_sequence (tb_events t ! nat (i - 1)) = i" using seq [OF n] assms(2) by simp
    show "ev_sequence (tb_events t ! j) \<noteq> i" if "j < nat (i - 1)" for j
      using seq [of j] n that by linarith
  qed
qed

lemma event_row_log_iff:
  assumes "map ev_sequence (tb_events t) = [1..log_length t]"
  shows "event_row t i = Some r \<longleftrightarrow> 1 \<le> i \<and> i \<le> log_length t \<and> r = tb_events t ! nat (i - 1)"
proof -
  have "i \<in> set (map ev_sequence (tb_events t))" if "event_row t i = Some r"
    using that by (auto simp: event_row_def find_Some_iff)
  then show ?thesis using event_row_log [OF assms] by (auto simp: assms)
qed

lemma log_ok_event:
  assumes "log_ok se session t" "1 \<le> i" "i \<le> log_length t"
  obtains e where "history_event se session t (of_int i) = Ok e" "decode se session (tb_events t ! nat (i - 1)) = Ok e"
proof -
  have s: "i64_try_from_u64 (of_int i) = Some i"
    using assms by (intro u64_i64_round_trip u64_try_from_i64_nonneg) (auto simp: log_ok_def)
  have r: "event_row t i = Some (tb_events t ! nat (i - 1))" using assms by (intro event_row_log) (auto simp: log_ok_def)
  have "tb_events t ! nat (i - 1) \<in> set (tb_events t)" using assms by (intro nth_mem) linarith
  with assms(1) obtain e where "decode se session (tb_events t ! nat (i - 1)) = Ok e" by (auto simp: log_ok_def)
  then show ?thesis using that s r by (simp add: history_event_def)
qed

text \<open>The row \<open>insert_event\<close> writes.\<close>

definition new_event :: "i64 \<Rightarrow> str \<Rightarrow> i64 \<Rightarrow> str \<Rightarrow> StoredEventPayload \<Rightarrow> EventRow" where
  "new_event sequence fresh timestamp run json =
     \<lparr>ev_sequence = sequence, ev_event_id = fresh, ev_event_type = stored_event_type json, ev_event_version = 1,
      ev_created_at_ms = timestamp, ev_run_id = Some run, ev_source_event_id = fst (source_columns json),
      ev_source_sequence = snd (source_columns json), ev_payload_json = json\<rparr>"

definition payload_ok :: "('u, 'd) store_env \<Rightarrow> i64 \<Rightarrow> str \<Rightarrow> StoredEventPayload \<Rightarrow> bool" where
  "payload_ok se sequence run payload =
     (case payload of
        SessionCreated _ \<Rightarrow> False
      | SessionRenamed _ \<Rightarrow> False
      | RunAccepted p \<Rightarrow> decode_accepted se p = Ok p \<and> ap_run_id p = run
      | RunHistorySelected p \<Rightarrow> decode_selected se p = Ok p \<and> hp_run_id p = run \<and>
          checked_add_u64 (sel_through_sequence (hp_selection p)) 2 = Some (of_int sequence)
      | RunProviderBound b \<Rightarrow> decode_binding se b = Ok b \<and> bind_run_id b = run
      | RuntimeObserved e \<Rightarrow> validate_runtime (se_uuid se) e = Ok () \<and> re_run_id e = run
      | ToolResultRecorded _ \<Rightarrow> True
      | RunResultRecorded result \<Rightarrow> result_run_id result = run
      | RunInterrupted p \<Rightarrow> ip_run_id p = run)"

definition stored_event :: "str \<Rightarrow> i64 \<Rightarrow> str \<Rightarrow> i64 \<Rightarrow> str \<Rightarrow> StoredEventPayload \<Rightarrow> StoredEvent" where
  "stored_event session sequence fresh timestamp run payload =
     \<lparr>sv_schema_version = 1, sv_application_session_id = session, sv_sequence = of_int sequence, sv_event_id = fresh,
      sv_created_at_ms = timestamp, sv_event_version = 1, sv_run_id = Some run, sv_payload = payload\<rparr>"

lemma parse_run_id_same: "parse_run_id uu x = Ok y \<Longrightarrow> y = x"
  by (auto simp: parse_run_id_def wi_results dest: storage_id_from_str_Ok)

lemma decode_new_event:
  assumes "1 < sequence" "sequence < 2 ^ 63" "storage_id_from_str (se_uuid se) fresh = Ok fresh" "0 \<le> timestamp"
    and "parse_run_id (se_uuid se) run = Ok run" "payload_ok se sequence run payload"
  shows "decode se session (new_event sequence fresh timestamp run payload) = Ok (stored_event session sequence fresh timestamp run payload)"
proof -
  have u: "u64_try_from_i64 sequence = Some (of_int sequence)" using assms by (intro u64_try_from_i64_nonneg) auto
  have small: "(of_int sequence :: u64) \<le> i64_max" using assms by (intro of_i64_small) auto
  have nz: "(of_int sequence :: u64) \<noteq> of_int 0" and none: "(of_int sequence :: u64) \<noteq> of_int 1"
    using assms(1,2) by (simp_all only: of_i64_eq)
  have "StoredEvent_payload se session (of_int sequence) fresh timestamp (Some run) (stored_event_type payload) payload = Ok payload"
    using assms(5,6)
    by (cases payload) (auto simp: StoredEvent_payload_def payload_ok_def reject_if_def decode_interrupted_def)
  moreover have "stored_event_type payload \<noteq> ''session.created''" using assms(6) by (cases payload) (auto simp: payload_ok_def)
  ultimately show ?thesis using u small nz none assms(3-5)
    by (simp add: decode_def new_event_def StoredEvent_try_from_def stored_event_def reject_if_def u32_try_from_i64_def)
qed

lemma insert_event_eq:
  "map_option re_event_id source = fst (source_columns json) \<Longrightarrow> map_option (sint \<circ> re_sequence) source = snd (source_columns json) \<Longrightarrow>
     insert_event sequence fresh timestamp run json source =
       execute (\<lambda>t. t\<lparr>tb_events := tb_events t @ [new_event sequence fresh timestamp run json]\<rparr>)"
  by (simp add: insert_event_def insert_event_row_def new_event_def)

section \<open>Rows of a run\<close>

lemma accepted_as_extends:
  "accepted_as se session t row i a \<Longrightarrow> extends t t' \<Longrightarrow> accepted_as se session t' row i a"
  unfolding accepted_as_def using ok_leD [OF history_event_extends, of t t'] by blast

lemma accepted_as_update [simp]:
  "accepted_as se session t (row\<lparr>rn_state := a\<rparr>) i x = accepted_as se session t row i x"
  "accepted_as se session t (row\<lparr>rn_last_runtime_sequence := l\<rparr>) i x = accepted_as se session t row i x"
  "accepted_as se session t (row\<lparr>rn_provider_session_id := p\<rparr>) i x = accepted_as se session t row i x"
  "accepted_as se session t (row\<lparr>rn_terminal_sequence := n\<rparr>) i x = accepted_as se session t row i x"
  "accepted_as se session t (row\<lparr>rn_terminal_json := j\<rparr>) i x = accepted_as se session t row i x"
  "accepted_as se session t (row\<lparr>rn_result_sequence := n\<rparr>) i x = accepted_as se session t row i x"
  by (simp_all add: accepted_as_def)

lemma sint_nonneg: "w \<le> i64_max \<Longrightarrow> 0 \<le> sint (w :: u64)"
  using sint_i64_range [of w] by simp

lemma run_of_row_OkE:
  assumes "run_of_row se session t row = Ok r"
  obtains a where "accepted_as se session t row (rec_accepted_sequence r) a" "rec_run_id r = rn_run_id row"
    "rec_input r = ap_input a" "rec_owner_instance_id r = ap_owner_instance_id a"
    "state_from_name (rn_state row) = Ok (rec_state r)" "0 \<le> rn_last_runtime_sequence row"
    "rec_last_runtime_sequence r = of_int (rn_last_runtime_sequence row)"
    "rec_provider_session_id r = rn_provider_session_id row"
    "terminal_reads se session t row r" "result_reads se session t row r"
  using assms unfolding run_of_row_Ok by blast

lemma run_of_row_OkI:
  assumes "accepted_as se session t row (rec_accepted_sequence r) a" "rec_run_id r = rn_run_id row"
    "rec_input r = ap_input a" "rec_owner_instance_id r = ap_owner_instance_id a"
    "state_from_name (rn_state row) = Ok (rec_state r)" "0 \<le> rn_last_runtime_sequence row"
    "rec_last_runtime_sequence r = of_int (rn_last_runtime_sequence row)"
    "rec_provider_session_id r = rn_provider_session_id row"
    "terminal_reads se session t row r" "result_reads se session t row r"
  shows "run_of_row se session t row = Ok r"
  using assms unfolding run_of_row_Ok by blast

lemma active_reads:
  assumes "run_of_row se session t row = Ok r" "active (rec_state r)"
  shows "rn_terminal_sequence row = None" "rn_terminal_json row = None" "rec_terminal r = None"
    "rn_result_sequence row = None" "rec_result_sequence r = None" "rec_result r = None"
proof -
  have none: "run_result se session t row None i \<noteq> Ok x" for i x
    by (auto simp: run_result_def wi_results)
  from assms(1) have t: "terminal_reads se session t row r" "result_reads se session t row r" by (auto elim: run_of_row_OkE)
  from t(1) assms(2) show n: "rn_terminal_sequence row = None" "rn_terminal_json row = None" "rec_terminal r = None"
    by (auto simp: terminal_reads_def split: option.splits)
  from t(2) n(3) show "rn_result_sequence row = None" "rec_result_sequence r = None" "rec_result r = None"
    by (auto simp: result_reads_def none split: option.splits)
qed

lemma row_stays_active:
  assumes r: "run_of_row se session t row = Ok r" "active (rec_state r)" and x: "extends t t'"
    and "active st" "latest \<le> i64_max"
  shows "run_of_row se session t' (row\<lparr>rn_state := state_name st, rn_last_runtime_sequence := sint latest,
      rn_provider_session_id := p, rn_result_sequence := None\<rparr>) =
    Ok (r\<lparr>rec_state := st, rec_last_runtime_sequence := latest, rec_provider_session_id := p\<rparr>)"
proof -
  from r(1) obtain a where a: "accepted_as se session t row (rec_accepted_sequence r) a" "rec_run_id r = rn_run_id row"
    "rec_input r = ap_input a" "rec_owner_instance_id r = ap_owner_instance_id a" by (rule run_of_row_OkE)
  show ?thesis
    by (rule run_of_row_OkI [where a = a])
      (use a assms accepted_as_extends [OF a(1) x] active_reads [OF r] in
        \<open>simp_all add: terminal_reads_def result_reads_def sint_nonneg\<close>)
qed

lemma row_terminated:
  assumes r: "run_of_row se session t row = Ok r" "active (rec_state r)" and x: "extends t t'" and "latest \<le> i64_max"
    and "history_event se session t' (of_int n) = Ok e" "0 < n" "rec_accepted_sequence r < of_int n"
    and "sv_run_id e = Some (rn_run_id row)" "terminal_outcome e = Some (outcome, p)"
  shows "run_of_row se session t' (row\<lparr>rn_state := state_name (outcome_state outcome), rn_last_runtime_sequence := sint latest,
      rn_provider_session_id := p, rn_terminal_sequence := Some n, rn_terminal_json := Some (sv_payload e),
      rn_result_sequence := None\<rparr>) =
    Ok (r\<lparr>rec_state := outcome_state outcome, rec_last_runtime_sequence := latest, rec_provider_session_id := p,
      rec_terminal := Some e\<rparr>)"
proof -
  have "outcome_state outcome \<noteq> StateInterrupted" by (cases outcome) auto
  moreover from r(1) obtain a where a: "accepted_as se session t row (rec_accepted_sequence r) a" "rec_run_id r = rn_run_id row"
    "rec_input r = ap_input a" "rec_owner_instance_id r = ap_owner_instance_id a" by (rule run_of_row_OkE)
  ultimately show ?thesis
    by (intro run_of_row_OkI [where a = a])
      (use a assms accepted_as_extends [OF a(1) x] active_reads [OF r] in
        \<open>simp_all add: terminal_reads_def result_reads_def sint_nonneg run_terminal_def reject_if_def linorder_not_le\<close>)
qed

lemma row_resulted:
  assumes r: "run_of_row se session t row = Ok r" and x: "extends t t'" and e: "rec_terminal r = Some e" "rec_result_sequence r = None"
    and "history_event se session t' (of_int n) = Ok y" "0 < n" "sv_sequence e \<le> of_int n"
    and "sv_run_id y = Some (rn_run_id row)" "sv_payload y = RunResultRecorded result"
    and "terminal_outcome e = Some (result_outcome result, result_session_id result)"
  shows "run_of_row se session t' (row\<lparr>rn_result_sequence := Some n\<rparr>) =
    Ok (r\<lparr>rec_result_sequence := Some (of_int n), rec_result := Some result\<rparr>)"
proof -
  have same: "run_terminal se session t' (row\<lparr>rn_result_sequence := Some n\<rparr>) i st k = run_terminal se session t' row i st k" for i st k
    by (simp add: run_terminal_def cong: if_cong)
  from r obtain a where a: "accepted_as se session t row (rec_accepted_sequence r) a" "rec_run_id r = rn_run_id row"
    "rec_input r = ap_input a" "rec_owner_instance_id r = ap_owner_instance_id a"
    "state_from_name (rn_state row) = Ok (rec_state r)" "0 \<le> rn_last_runtime_sequence row"
    "rec_last_runtime_sequence r = of_int (rn_last_runtime_sequence row)"
    "rec_provider_session_id r = rn_provider_session_id row"
    "terminal_reads se session t row r" by (rule run_of_row_OkE)
  have "terminal_reads se session t' (row\<lparr>rn_result_sequence := Some n\<rparr>) (r\<lparr>rec_result_sequence := Some (of_int n), rec_result := Some result\<rparr>)"
    using a(9) e(1) ok_leD [OF run_terminal_extends [OF x]]
    by (auto simp: terminal_reads_def same split: option.splits)
  then show ?thesis
    by (intro run_of_row_OkI [where a = a])
      (use a assms accepted_as_extends [OF a(1) x] in
        \<open>simp_all add: result_reads_def run_result_def reject_if_def linorder_not_less\<close>)
qed

lemma row_unchanged:
  assumes "run_of_row se session t row = Ok r" "rn_last_runtime_sequence row < 2 ^ 63"
  shows "rn_state row = state_name (rec_state r)" "rn_last_runtime_sequence row = sint (rec_last_runtime_sequence r)"
    "rn_provider_session_id row = rec_provider_session_id r" "rec_last_runtime_sequence r \<le> i64_max"
proof -
  from assms(1) have a: "state_from_name (rn_state row) = Ok (rec_state r)" "0 \<le> rn_last_runtime_sequence row"
    "rec_last_runtime_sequence r = of_int (rn_last_runtime_sequence row)"
    "rec_provider_session_id r = rn_provider_session_id row" by (auto elim: run_of_row_OkE)
  from a(1) show "rn_state row = state_name (rec_state r)"
    by (auto simp: state_from_name_def wi_results split: if_splits)
  show "rn_provider_session_id row = rec_provider_session_id r" using a(4) by simp
  show "rn_last_runtime_sequence row = sint (rec_last_runtime_sequence r)" unfolding a(3) using a(2) assms(2) by (simp add: sint_of_i64)
  show "rec_last_runtime_sequence r \<le> i64_max" unfolding a(3) using a(2) assms(2) by (rule of_i64_small)
qed

lemma row_interrupted:
  assumes r: "run_of_row se session t row = Ok r" "active (rec_state r)" and x: "extends t t'"
    and "history_event se session t' (of_int n) = Ok e" "0 < n" "rec_accepted_sequence r < of_int n"
    and "sv_run_id e = Some (rn_run_id row)" "sv_payload e = RunInterrupted p"
  shows "run_of_row se session t' (row\<lparr>rn_state := ''interrupted'', rn_terminal_sequence := Some n,
      rn_terminal_json := Some (sv_payload e)\<rparr>) = Ok (r\<lparr>rec_state := StateInterrupted, rec_terminal := Some e\<rparr>)"
proof -
  have name: "state_from_name ''interrupted'' = Ok StateInterrupted" by (simp add: state_from_name_def)
  from r(1) obtain a where a: "accepted_as se session t row (rec_accepted_sequence r) a" "rec_run_id r = rn_run_id row"
    "rec_input r = ap_input a" "rec_owner_instance_id r = ap_owner_instance_id a" "0 \<le> rn_last_runtime_sequence row"
    "rec_last_runtime_sequence r = of_int (rn_last_runtime_sequence row)"
    "rec_provider_session_id r = rn_provider_session_id row" by (rule run_of_row_OkE)
  then show ?thesis
    by (intro run_of_row_OkI [where a = a])
      (use a assms accepted_as_extends [OF a(1) x] active_reads [OF r] name in
        \<open>simp_all add: terminal_reads_def result_reads_def run_terminal_def reject_if_def linorder_not_le\<close>)
qed

section \<open>Statements\<close>

lemma execute_Ok: "execute f t = (Ok u, t') \<longleftrightarrow> schema_ok (f t) \<and> t' = f t"
  by (auto simp: execute_def)

lemma query_Ok: "query f t = (Ok a, t') \<longleftrightarrow> f t = Ok a \<and> t' = t"
  by (auto simp: query_def)

lemma transact_Ok: "transact m t = (Ok a, t') \<longleftrightarrow> m t = (Ok a, t')"
  by (auto simp: transact_def split: prod.splits sum.splits)

lemma transact_Err: "transact m t = (Err e, t') \<Longrightarrow> t' = t"
  by (auto simp: transact_def split: prod.splits sum.splits)

lemmas sql_Ok = prog_Ok execute_Ok query_Ok

text \<open>What the projector leaves alone.\<close>

definition same_records :: "'d tables \<Rightarrow> 'd tables \<Rightarrow> bool" where
  "same_records t t' \<longleftrightarrow>
     tb_user_version t' = tb_user_version t \<and> tb_manifest t' = tb_manifest t \<and> tb_events t' = tb_events t \<and>
     tb_commands t' = tb_commands t \<and> tb_runs t' = tb_runs t \<and> tb_tools t' = tb_tools t"

interpretation display: step_relation same_records
  by unfold_locales (auto simp: same_records_def)

lemma display_execute:
  "(\<And>t. same_records t (f t)) \<Longrightarrow> display.kept (execute f)"
  by (rule display.keptI) (auto simp: execute_def same_records_def split: if_splits)

lemma display_query: "display.kept (query f)"
  by (rule display.keptI) (auto simp: query_def same_records_def)

lemma display_projector: "display.kept (projector_apply se sequence run input)"
  unfolding projector_apply_def
  by (intro display.kept_rules display_execute display_query)
    (simp_all add: same_records_def update_projection_def)

section \<open>Rows of a tool result\<close>

definition tool_fields :: "ToolRow \<Rightarrow> RecordedToolResult \<Rightarrow> bool" where
  "tool_fields row r \<longleftrightarrow>
     rt_run_id r = tr_run_id row \<and> rt_call_id r = tr_call_id row \<and> rt_tool_name r = tr_tool_name row \<and>
     rt_request_id r = tr_request_id row \<and> rt_output r = tr_output row \<and>
     0 < tr_started_sequence row \<and> rt_started_sequence r = of_int (tr_started_sequence row) \<and>
     map_transpose positive (tr_finished_sequence row) = Ok (rt_finished_sequence r) \<and>
     map_transpose positive (tr_result_sequence row) = Ok (rt_result_sequence r) \<and>
     flag_from_i64 (tr_is_error row) = Ok (rt_is_error r) \<and>
     (rt_result_sequence r \<noteq> None) = (rt_output r \<noteq> None) \<and>
     (rt_result_sequence r \<noteq> None \<or> rt_finished_sequence r \<noteq> None) = (rt_is_error r \<noteq> None)"

definition tool_events :: "('u, 'd) store_env \<Rightarrow> str \<Rightarrow> 'd tables \<Rightarrow> RecordedToolResult \<Rightarrow> bool" where
  "tool_events se session t r \<longleftrightarrow>
     (\<exists>e. history_event se session t (rt_started_sequence r) = Ok e \<and> started_matches r e) \<and>
     (\<forall>n. rt_finished_sequence r = Some n \<longrightarrow> (\<exists>e. history_event se session t n = Ok e \<and> finished_matches r n e)) \<and>
     (\<forall>n. rt_result_sequence r = Some n \<longrightarrow> (\<exists>e. history_event se session t n = Ok e \<and> result_matches r n e))"

lemma tool_of_row_Ok:
  "tool_of_row se session t row = Ok r \<longleftrightarrow> tool_fields row r \<and> tool_events se session t r"
  unfolding tool_of_row_def Let_def tool_fields_def tool_events_def
  by (cases r) (auto simp: wi_results split: option.splits)

lemma tool_events_extends: "tool_events se session t r \<Longrightarrow> extends t t' \<Longrightarrow> tool_events se session t' r"
  unfolding tool_events_def using ok_leD [OF history_event_extends, of t t'] by blast

text \<open>Which fields of a record the three checks read.\<close>

lemma started_matches_cong:
  "rt_run_id r = rt_run_id r' \<Longrightarrow> rt_request_id r = rt_request_id r' \<Longrightarrow> rt_call_id r = rt_call_id r' \<Longrightarrow>
     rt_tool_name r = rt_tool_name r' \<Longrightarrow> started_matches r = started_matches r'"
  by (simp add: fun_eq_iff started_matches_def split: StoredEventPayload.split RunEvent.split ToolExecutionEvent.split)

lemma finished_matches_cong:
  "rt_run_id r = rt_run_id r' \<Longrightarrow> rt_request_id r = rt_request_id r' \<Longrightarrow> rt_call_id r = rt_call_id r' \<Longrightarrow>
     rt_tool_name r = rt_tool_name r' \<Longrightarrow> rt_started_sequence r = rt_started_sequence r' \<Longrightarrow>
     rt_is_error r = rt_is_error r' \<Longrightarrow> finished_matches r = finished_matches r'"
  by (simp add: fun_eq_iff finished_matches_def split: StoredEventPayload.split RunEvent.split ToolExecutionEvent.split)

lemma result_matches_cong:
  "rt_run_id r = rt_run_id r' \<Longrightarrow> rt_request_id r = rt_request_id r' \<Longrightarrow> rt_call_id r = rt_call_id r' \<Longrightarrow>
     rt_output r = rt_output r' \<Longrightarrow> rt_started_sequence r = rt_started_sequence r' \<Longrightarrow>
     rt_is_error r = rt_is_error r' \<Longrightarrow> result_matches r = result_matches r'"
  by (simp add: fun_eq_iff result_matches_def split: StoredEventPayload.split)

lemma flag_round_trip [simp]: "flag_from_i64 (Some (flag_to_i64 b)) = Ok (Some b)"
  by (simp add: flag_from_i64_def flag_to_i64_def)

lemma row_tool_finished:
  assumes r: "tool_of_row se session t row = Ok r" and x: "extends t t'"
    and "rt_finished_sequence r = None" "rt_is_error r = None \<or> rt_is_error r = Some b"
    and "history_event se session t' (of_int n) = Ok e" "0 < n"
    and m: "finished_matches (r\<lparr>rt_is_error := Some b\<rparr>) (of_int n) e"
  shows "tool_of_row se session t' (row\<lparr>tr_finished_sequence := Some n, tr_is_error := Some (flag_to_i64 b)\<rparr>) =
    Ok (r\<lparr>rt_finished_sequence := Some (of_int n), rt_is_error := Some b\<rparr>)"
proof -
  let ?r = "r\<lparr>rt_finished_sequence := Some (of_int n), rt_is_error := Some b\<rparr>"
  from r have f: "tool_fields row r" and ev: "tool_events se session t' r"
    using tool_events_extends [OF _ x] by (auto simp: tool_of_row_Ok)
  have "result_matches ?r = result_matches r" if "rt_result_sequence r \<noteq> None"
    using that f assms(4) by (intro result_matches_cong) (auto simp: tool_fields_def)
  moreover have "started_matches ?r = started_matches r" by (rule started_matches_cong) simp_all
  moreover have "finished_matches ?r (of_int n) e"
    using m by (rule back_subst [where P = "\<lambda>f. f (of_int n) e"]) (rule finished_matches_cong; simp)
  ultimately have "tool_events se session t' ?r"
    using ev assms(5) by (auto simp: tool_events_def)
  moreover have "tool_fields (row\<lparr>tr_finished_sequence := Some n, tr_is_error := Some (flag_to_i64 b)\<rparr>) ?r"
    using f assms(6) by (auto simp: tool_fields_def positive_def)
  ultimately show ?thesis by (simp add: tool_of_row_Ok)
qed

lemma row_tool_result:
  assumes r: "tool_of_row se session t row = Ok r" and x: "extends t t'"
    and "rt_result_sequence r = None" "rt_is_error r = None \<or> rt_is_error r = Some b"
    and "history_event se session t' (of_int n) = Ok e" "0 < n"
    and m: "result_matches (r\<lparr>rt_is_error := Some b, rt_output := Some out\<rparr>) (of_int n) e"
  shows "tool_of_row se session t' (row\<lparr>tr_result_sequence := Some n, tr_output := Some out, tr_is_error := Some (flag_to_i64 b)\<rparr>) =
    Ok (r\<lparr>rt_result_sequence := Some (of_int n), rt_output := Some out, rt_is_error := Some b\<rparr>)"
proof -
  let ?r = "r\<lparr>rt_result_sequence := Some (of_int n), rt_output := Some out, rt_is_error := Some b\<rparr>"
  from r have f: "tool_fields row r" and ev: "tool_events se session t' r"
    using tool_events_extends [OF _ x] by (auto simp: tool_of_row_Ok)
  have "finished_matches ?r = finished_matches r" if "rt_finished_sequence r \<noteq> None"
    using that f assms(4) by (intro finished_matches_cong) (auto simp: tool_fields_def)
  moreover have "started_matches ?r = started_matches r" by (rule started_matches_cong) simp_all
  moreover have "result_matches ?r (of_int n) e"
    using m by (rule back_subst [where P = "\<lambda>f. f (of_int n) e"]) (rule result_matches_cong; simp)
  ultimately have "tool_events se session t' ?r"
    using ev assms(5) by (auto simp: tool_events_def)
  moreover have "tool_fields (row\<lparr>tr_result_sequence := Some n, tr_output := Some out, tr_is_error := Some (flag_to_i64 b)\<rparr>) ?r"
    using f assms(6) by (auto simp: tool_fields_def positive_def)
  ultimately show ?thesis by (simp add: tool_of_row_Ok)
qed

end
