(* ===== verification/Store_Invariant.thy ===== *)
theory Store_Invariant
  imports Store_Rows
begin

text \<open>
  Every row of a session database reads back.  \<open>store_reads\<close> says that the tables satisfy the schema, the event log is
  numbered from 1 and decodes, and no run or tool result answers \<open>storage.integrity\<close>; \<open>tracks\<close> says that the run an append
  holds in memory is the run its row reads as.  Both survive every record appended.
\<close>

section \<open>A store whose rows all read back\<close>

definition runs_read :: "('u, 'd) store_env \<Rightarrow> str \<Rightarrow> 'd tables \<Rightarrow> bool" where
  "runs_read se session t \<longleftrightarrow>
     (\<forall>row \<in> set (tb_runs t). rn_last_runtime_sequence row < 2 ^ 63 \<and> (\<exists>r. run_of_row se session t row = Ok r))"

definition tools_read :: "('u, 'd) store_env \<Rightarrow> str \<Rightarrow> 'd tables \<Rightarrow> bool" where
  "tools_read se session t \<longleftrightarrow> (\<forall>row \<in> set (tb_tools t). \<exists>r. tool_of_row se session t row = Ok r)"

lemma history_event_bounds:
  assumes "log_ok se session t" "history_event se session t w = Ok e"
  shows "sv_sequence e = w" "1 \<le> w" "w \<le> of_int (log_length t)"
proof -
  from assms(2) obtain i row where i: "i64_try_from_u64 w = Some i" "event_row t i = Some row" "decode se session row = Ok e"
    by (auto simp: history_event_def wi_results)
  from assms(1) have log: "map ev_sequence (tb_events t) = [1..log_length t]" "log_length t < 2 ^ 63" by (auto simp: log_ok_def)
  from i(2) have b: "1 \<le> i" "i \<le> log_length t" by (auto simp: event_row_log_iff [OF log(1)])
  from i(1) have u: "u64_try_from_i64 i = Some w" by (rule i64_u64_round_trip)
  then have w: "w = of_int i" by (simp add: u64_try_from_i64_def split: if_splits)
  have "ev_sequence row = i" using i(2) by (auto simp: event_row_def find_Some_iff)
  then show "sv_sequence e = w"
    using i(3) u by (auto simp: decode_def StoredEvent_try_from_def wi_results)
  have "(of_int 1 :: u64) \<le> of_int i" using b log(2) by (subst of_i64_le) auto
  then show "1 \<le> w" by (simp add: w)
  show "w \<le> of_int (log_length t)" unfolding w using b log(2) by (subst of_i64_le) auto
qed

text \<open>The event an append writes, at the next sequence.\<close>

definition appended :: "('u, 'd) store_env \<Rightarrow> str \<Rightarrow> 'd tables \<Rightarrow> StoredEvent \<Rightarrow> 'd tables \<Rightarrow> bool" where
  "appended se session t e t' \<longleftrightarrow>
     log_ok se session t \<and> log_ok se session t' \<and> extends t t' \<and> log_length t' = log_length t + 1 \<and>
     sv_sequence e = of_int (log_length t') \<and> history_event se session t' (of_int (log_length t')) = Ok e"

lemma appended_new:
  assumes "appended se session t e t'" "history_event se session t w = Ok old"
  shows "w < of_int (log_length t')"
proof -
  from assms have w: "w \<le> of_int (log_length t)" by (auto simp: appended_def dest: history_event_bounds)
  have "(of_int (log_length t) :: u64) < of_int (log_length t')"
    using assms(1) by (subst of_i64_less) (auto simp: appended_def log_ok_def)
  with w show ?thesis by simp
qed

lemma appended_row:
  assumes "log_ok se session t" "decode se session row = Ok e" "ev_sequence row = log_length t + 1" "log_length t + 1 < 2 ^ 63"
    and t': "tb_events t' = tb_events t @ [row]"
  shows "appended se session t e t'"
proof -
  have x: "extends t t'" by (auto simp: extends_def t')
  have up: "[1..log_length t + 1] = [1..log_length t] @ [log_length t + 1]" by (subst upto_rec2) auto
  have log: "log_ok se session t'"
    using assms up by (auto simp: log_ok_def add.commute)
  have r: "tb_events t' ! nat (log_length t' - 1) = row" by (simp add: t' nth_append)
  obtain e' where "history_event se session t' (of_int (log_length t')) = Ok e'" "decode se session row = Ok e'"
    by (rule log_ok_event [OF log, of "log_length t'"]) (auto simp: r t')
  then have e: "history_event se session t' (of_int (log_length t')) = Ok e" using assms(2) by simp
  then show ?thesis
    using assms(1) log x history_event_bounds(1) [OF log e] by (auto simp: appended_def t')
qed

lemma find_update:
  assumes "\<And>r. key (f r) = key r"
  shows "List.find (\<lambda>r. key r = k) (map (\<lambda>r. if key r = k then f r else r) rows) = map_option f (List.find (\<lambda>r. key r = k) rows)"
  using assms by (induction rows) auto

lemma find_distinct:
  "distinct (map key rows) \<Longrightarrow> List.find (\<lambda>r. key r = k) rows = Some row \<Longrightarrow> row' \<in> set rows \<Longrightarrow> key row' = k \<Longrightarrow> row' = row"
  by (induction rows) (auto split: if_splits)

lemma update_reads:
  assumes rows: "\<And>row. row \<in> set rows \<Longrightarrow> P row" and "distinct (map key rows)"
    and "List.find (\<lambda>r. key r = k) rows = Some row" "P (f row)"
    and "row' \<in> set (map (\<lambda>r. if key r = k then f r else r) rows)"
  shows "P row'"
  using assms find_distinct [OF assms(2,3)] by auto

lemma tools_read_extends: "tools_read se session t \<Longrightarrow> extends t t' \<Longrightarrow> tb_tools t' = tb_tools t \<Longrightarrow> tools_read se session t'"
  using ok_leD [OF tool_of_row_extends, of t t'] by (fastforce simp: tools_read_def)

lemma tools_read_update:
  assumes r: "tools_read se session t" and d: "distinct (map (\<lambda>r. (tr_run_id r, tr_call_id r)) (tb_tools t))"
    and row: "tool_row t run call = Some row" and x: "extends t t'"
    and t': "tb_tools t' = map (\<lambda>r. if tr_run_id r = run \<and> tr_call_id r = call then f r else r) (tb_tools t)"
    and f: "tool_of_row se session t' (f row) = Ok r'"
  shows "tools_read se session t'"
proof -
  have P: "\<exists>r. tool_of_row se session t' row = Ok r" if "row \<in> set (tb_tools t)" for row
    using r that ok_leD [OF tool_of_row_extends [OF x]] by (fastforce simp: tools_read_def)
  show ?thesis
    unfolding tools_read_def
  proof
    fix row'
    assume "row' \<in> set (tb_tools t')"
    then have "row' \<in> set (map (\<lambda>r. if (tr_run_id r, tr_call_id r) = (run, call) then f r else r) (tb_tools t))"
      by (simp add: t')
    moreover have "List.find (\<lambda>r. (tr_run_id r, tr_call_id r) = (run, call)) (tb_tools t) = Some row"
      using row by (simp add: tool_row_def)
    ultimately show "\<exists>r. tool_of_row se session t' row' = Ok r"
      using update_reads [of "tb_tools t" "\<lambda>row. \<exists>r. tool_of_row se session t' row = Ok r", OF P d] f by blast
  qed
qed

lemma runs_read_update:
  assumes r: "runs_read se session t" and d: "distinct (map rn_run_id (tb_runs t))"
    and row: "run_row t run = Some row" and x: "extends t t'"
    and t': "tb_runs t' = map (\<lambda>r. if rn_run_id r = run then f r else r) (tb_runs t)"
    and f: "run_of_row se session t' (f row) = Ok r'" "rn_last_runtime_sequence (f row) < 2 ^ 63"
  shows "runs_read se session t'"
proof -
  let ?P = "\<lambda>row. rn_last_runtime_sequence row < 2 ^ 63 \<and> (\<exists>r. run_of_row se session t' row = Ok r)"
  have "?P row" if "row \<in> set (tb_runs t)" for row
    using r that ok_leD [OF run_of_row_extends [OF x]] by (fastforce simp: runs_read_def)
  note P = this
  have "List.find (\<lambda>r. rn_run_id r = run) (tb_runs t) = Some row" using row by (simp add: run_row_def)
  moreover have "?P (f row)" using f by blast
  ultimately show ?thesis
    unfolding runs_read_def t' by (intro ballI) (rule update_reads [of "tb_runs t" ?P, OF P d])
qed

section \<open>What an appended record does to the tool results\<close>

lemma runs_distinct: "schema_ok t \<Longrightarrow> distinct (map rn_run_id (tb_runs t))"
  by (simp add: schema_ok_def runs_schema_def)

lemma tools_distinct: "schema_ok t \<Longrightarrow> distinct (map (\<lambda>r. (tr_run_id r, tr_call_id r)) (tb_tools t))"
  by (simp add: schema_ok_def tools_schema_def)

definition only_tools :: "'d tables \<Rightarrow> 'd tables \<Rightarrow> bool" where
  "only_tools t t' \<longleftrightarrow> (\<exists>tools. t' = t\<lparr>tb_tools := tools\<rparr>)"

lemma only_toolsD:
  "only_tools t t' \<Longrightarrow> tb_events t' = tb_events t \<and> tb_runs t' = tb_runs t \<and> tb_manifest t' = tb_manifest t \<and>
     tb_commands t' = tb_commands t \<and> tb_user_version t' = tb_user_version t \<and> tb_projection t' = tb_projection t"
  by (auto simp: only_tools_def)

lemma stored_tool_result_Some:
  "stored_tool_result se session t run call = Ok (Some r) \<longleftrightarrow>
     (\<exists>row. tool_row t run call = Some row \<and> tool_of_row se session t row = Ok r)"
  by (cases "tool_row t run call") (auto simp: stored_tool_result_def wi_results)

lemma started_bound:
  assumes a: "appended se session t e t'" and r: "tools_read se session t" "tb_tools t' = tb_tools t"
    and row: "tool_row t' run call = Some row" "tool_of_row se session t' row = Ok r"
  shows "rt_started_sequence r < of_int (log_length t')" "rt_run_id r = run" "rt_call_id r = call"
proof -
  have mem: "row \<in> set (tb_tools t)" and keys: "tr_run_id row = run" "tr_call_id row = call"
    using row(1) r(2) by (auto simp: tool_row_def find_Some_iff)
  then obtain r0 where r0: "tool_of_row se session t row = Ok r0" using r(1) by (auto simp: tools_read_def)
  have "r0 = r" using ok_leD [OF tool_of_row_extends r0, of t'] a row(2) by (auto simp: appended_def)
  with r0 obtain old where "history_event se session t (rt_started_sequence r) = Ok old"
    by (auto simp: tool_of_row_Ok tool_events_def)
  then show "rt_started_sequence r < of_int (log_length t')" by (rule appended_new [OF a])
  show "rt_run_id r = run" "rt_call_id r = call" using row(2) keys by (auto simp: tool_of_row_Ok tool_fields_def)
qed

lemma flag_clash [simp]:
  "(case x of None \<Rightarrow> False | Some observed \<Rightarrow> observed \<noteq> b) \<longleftrightarrow> \<not> (x = None \<or> x = Some b)"
  by (cases x) auto

lemma appended_event: "appended se session t e t' \<Longrightarrow> history_event se session t' (of_int (log_length t')) = Ok e"
  unfolding appended_def by blast

lemma log_positive: "appended se session t e t' \<Longrightarrow> 0 < log_length t'"
  by (simp add: appended_def)

lemma tools_read_snoc:
  assumes "tools_read se session t" "extends t t'" "tb_tools t' = tb_tools t @ [row]" "tool_of_row se session t row = Ok r"
  shows "tools_read se session t'"
proof -
  have "\<exists>r. tool_of_row se session t row' = Ok r" if "row' \<in> set (tb_tools t')" for row'
    using assms(1,3,4) that by (auto simp: tools_read_def)
  then show ?thesis unfolding tools_read_def using ok_leD [OF tool_of_row_extends [OF assms(2)]] by blast
qed

lemma tool_started_reads:
  assumes a: "appended se session t e t'" and r: "tools_read se session t" "tb_tools t' = tb_tools t"
    and e: "sv_run_id e = Some (rec_run_id run)" "sv_payload e = RuntimeObserved env" "re_request_id env = Some request"
    "re_event env = ToolEvent (ToolExecutionStarted call name)"
    and run: "tool_started se session run (log_length t') request call name t' = (Ok u, t'')"
  shows "only_tools t' t'' \<and> tools_read se session t''"
proof -
  let ?row = "\<lparr>tr_run_id = rec_run_id run, tr_call_id = call, tr_tool_name = name,
       tr_request_id = Some request, tr_started_sequence = log_length t', tr_finished_sequence = None,
       tr_result_sequence = None, tr_is_error = None, tr_output = None\<rparr>"
  let ?r = "\<lparr>rt_run_id = rec_run_id run, rt_call_id = call, rt_tool_name = name,
       rt_request_id = Some request, rt_started_sequence = of_int (log_length t'), rt_finished_sequence = None,
       rt_result_sequence = None, rt_is_error = None, rt_output = None\<rparr>"
  from run have t'': "t'' = t'\<lparr>tb_tools := tb_tools t' @ [?row]\<rparr>" by (auto simp: tool_started_def sql_Ok)
  have "tool_fields ?row ?r" using log_positive [OF a] by (simp add: tool_fields_def flag_from_i64_def)
  moreover have "history_event se session t' (of_int (log_length t')) = Ok e" using a by (rule appended_event)
  then have "tool_events se session t' ?r" using e by (auto simp: tool_events_def started_matches_def)
  ultimately have new: "tool_of_row se session t' ?row = Ok ?r" by (simp add: tool_of_row_Ok)
  have "tools_read se session t'" using a r by (intro tools_read_extends [of _ _ t t']) (auto simp: appended_def)
  then have "tools_read se session t''"
    by (rule tools_read_snoc [OF _ _ _ new]) (simp_all add: t'' extends_def)
  then show ?thesis by (auto simp: only_tools_def t'')
qed

lemma tool_finished_reads:
  assumes a: "appended se session t e t'" and r: "tools_read se session t" "tb_tools t' = tb_tools t" and ok: "schema_ok t'"
    and e: "sv_run_id e = Some (rec_run_id run)" "sv_payload e = RuntimeObserved env" "re_request_id env = Some request"
    "re_event env = ToolEvent (ToolExecutionFinished call name b)"
    and run: "tool_finished se session run (log_length t') env request call name b t' = (Ok u, t'')"
  shows "only_tools t' t'' \<and> tools_read se session t''"
proof -
  from run obtain row saved where row: "tool_row t' (rec_run_id run) call = Some row" "tool_of_row se session t' row = Ok saved"
    and s: "rt_tool_name saved = name" "rt_request_id saved = Some request" "rt_finished_sequence saved = None"
      "rt_is_error saved = None \<or> rt_is_error saved = Some b"
    and t'': "t'' = t'\<lparr>tb_tools := map (\<lambda>r. if tr_run_id r = rec_run_id run \<and> tr_call_id r = call
        then r\<lparr>tr_finished_sequence := Some (log_length t'), tr_is_error := Some (flag_to_i64 b)\<rparr> else r) (tb_tools t')\<rparr>"
    by (auto simp: tool_finished_def update_tool_def sql_Ok wi_results stored_tool_result_Some)
  note b = started_bound [OF a r row]
  have ev: "history_event se session t' (of_int (log_length t')) = Ok e" using a by (rule appended_event)
  have m: "finished_matches (saved\<lparr>rt_is_error := Some b\<rparr>) (of_int (log_length t')) e"
    using e b s by (simp add: finished_matches_def)
  have x: "extends t' t'" "extends t' t''" by (auto simp: t'' extends_def)
  have x2: "history_event se session t'' = history_event se session t'" by (simp add: fun_eq_iff history_event_def event_row_def t'')
  note new = row_tool_finished [OF row(2) x(2) s(3,4) _ log_positive [OF a] m, unfolded x2, OF ev]
  have tr: "tools_read se session t'" using a r by (intro tools_read_extends [of _ _ t t']) (auto simp: appended_def)
  have "tools_read se session t''"
    by (rule tools_read_update [OF tr tools_distinct [OF ok] row(1) x(2),
          where f = "\<lambda>r. r\<lparr>tr_finished_sequence := Some (log_length t'), tr_is_error := Some (flag_to_i64 b)\<rparr>", OF _ new])
      (simp add: t'')
  then show ?thesis by (auto simp: only_tools_def t'')
qed

lemma tool_result_reads:
  assumes a: "appended se session t e t'" and r: "tools_read se session t" "tb_tools t' = tb_tools t" and ok: "schema_ok t'"
    and e: "sv_run_id e = Some (rec_run_id run)"
    "sv_payload e = ToolResultRecorded \<lparr>tp_request_id = request, tp_call_id = call, tp_output = out, tp_is_error = b\<rparr>"
    and run: "append_tool_result se session run (log_length t') request call out b t' = (Ok run', t'')"
  shows "rec_state run = StateRunning \<and> run' = run \<and> only_tools t' t'' \<and> tools_read se session t''"
proof -
  from run obtain row saved where row: "tool_row t' (rec_run_id run) call = Some row" "tool_of_row se session t' row = Ok saved"
    and s: "rt_request_id saved = request" "rt_result_sequence saved = None"
      "rt_is_error saved = None \<or> rt_is_error saved = Some b"
    and out: "rec_state run = StateRunning" "run' = run"
    and t'': "t'' = t'\<lparr>tb_tools := map (\<lambda>r. if tr_run_id r = rec_run_id run \<and> tr_call_id r = call
        then r\<lparr>tr_result_sequence := Some (log_length t'), tr_output := Some out, tr_is_error := Some (flag_to_i64 b)\<rparr> else r) (tb_tools t')\<rparr>"
    by (auto simp: append_tool_result_def update_tool_def sql_Ok wi_results stored_tool_result_Some)
  note b = started_bound [OF a r row]
  have ev: "history_event se session t' (of_int (log_length t')) = Ok e" using a by (rule appended_event)
  have m: "result_matches (saved\<lparr>rt_is_error := Some b, rt_output := Some out\<rparr>) (of_int (log_length t')) e"
    using e b s by (simp add: result_matches_def)
  have x: "extends t' t''" by (auto simp: t'' extends_def)
  have x2: "history_event se session t'' = history_event se session t'" by (simp add: fun_eq_iff history_event_def event_row_def t'')
  note new = row_tool_result [OF row(2) x s(2,3) _ log_positive [OF a] m, unfolded x2, OF ev]
  have tr: "tools_read se session t'" using a r by (intro tools_read_extends [of _ _ t t']) (auto simp: appended_def)
  have "tools_read se session t''"
    by (rule tools_read_update [OF tr tools_distinct [OF ok] row(1) x, where f = "\<lambda>r. r\<lparr>tr_result_sequence := Some (log_length t'),
          tr_output := Some out, tr_is_error := Some (flag_to_i64 b)\<rparr>", OF _ new])
      (simp add: t'')
  then show ?thesis using out by (auto simp: only_tools_def t'')
qed

lemma record_tool_event_reads:
  assumes a: "appended se session t e t'" and r: "tools_read se session t" "tb_tools t' = tb_tools t" and ok: "schema_ok t'"
    and e: "sv_run_id e = Some (rec_run_id run)" "sv_payload e = RuntimeObserved env" "re_event env = ToolEvent tool"
    and run: "record_tool_event se session run (log_length t') env tool t' = (Ok u, t'')"
  shows "only_tools t' t'' \<and> tools_read se session t''"
proof -
  from run obtain request where q: "re_request_id env = Some request" by (auto simp: record_tool_event_def sql_Ok wi_results)
  show ?thesis
  proof (cases tool)
    case (ToolExecutionStarted call name)
    then show ?thesis using run q e by (intro tool_started_reads [OF a r e(1,2) q]) (auto simp: record_tool_event_def sql_Ok)
  next
    case (ToolExecutionFinished call name b)
    then show ?thesis using run q e by (intro tool_finished_reads [OF a r ok e(1,2) q]) (auto simp: record_tool_event_def sql_Ok)
  next
    case (ToolResultReused call name)
    have "tools_read se session t'" using a r by (intro tools_read_extends [of _ _ t t']) (auto simp: appended_def)
    moreover have "t'' = t'" using run ToolResultReused by (auto simp: record_tool_event_def tool_reused_def sql_Ok)
    moreover have "only_tools t' t'" unfolding only_tools_def by (intro exI [of _ "tb_tools t'"]) simp
    ultimately show ?thesis by simp
  qed
qed

section \<open>What an appended record does to its run\<close>

interpretation sch: step_relation "\<lambda>t t'. schema_ok t \<longrightarrow> schema_ok t'"
  by unfold_locales auto

lemma schema_execute: "sch.kept (execute f)"
  by (rule sch.keptI) (auto simp: execute_def split: if_splits)

lemma schema_query: "sch.kept (query f)"
  by (rule sch.keptI) (auto simp: query_def)

lemma schema_projector: "sch.kept (projector_apply se sequence run input)"
  unfolding projector_apply_def by (intro sch.kept_rules schema_execute schema_query)

lemma projector_run_Ok:
  assumes "projector_apply se (of_int n) (Some run) input t = (Ok u, t')" "0 \<le> n" "n < 2 ^ 63"
    and "input \<noteq> ProjectCreated" "input \<noteq> ProjectRenamed"
  shows "tb_projection t' = map (\<lambda>r. r\<lparr>pj_applied_sequence := n\<rparr>) (tb_projection t)"
proof -
  have n: "i64_try_from_u64 (of_int n) = Some n" using assms(2,3) by (intro u64_i64_round_trip u64_try_from_i64_nonneg)
  show ?thesis
    using assms(1) unfolding projector_apply_def n if_not_P [OF assms(4)] if_not_P [OF assms(5)]
    by (auto simp: sql_Ok update_projection_def)
qed

lemma record_input: "projector_record run record = Ok input \<Longrightarrow> input \<noteq> ProjectCreated \<and> input \<noteq> ProjectRenamed"
  by (cases "record") (auto simp: projector_record_def wi_results)

text \<open>The final update of a run's row, and the run an append returns.\<close>

definition settle :: "RecordedRun \<Rightarrow> RunRow \<Rightarrow> RunRow" where
  "settle run r = r\<lparr>rn_state := state_name (rec_state run), rn_last_runtime_sequence := sint (rec_last_runtime_sequence run),
     rn_provider_session_id := rec_provider_session_id run, rn_result_sequence := map_option sint (rec_result_sequence run)\<rparr>"

definition closing :: "StoredEvent \<Rightarrow> RecordedRun \<Rightarrow> RecordedRun" where
  "closing e run = (if \<not> active (rec_state run) \<and> rec_terminal run = None then run\<lparr>rec_terminal := Some e\<rparr> else run)"

text \<open>A run in memory is what its row reads as, except for the result, which an append does not load.\<close>

definition reads_as :: "('u, 'd) store_env \<Rightarrow> str \<Rightarrow> 'd tables \<Rightarrow> RunRow \<Rightarrow> RecordedRun \<Rightarrow> bool" where
  "reads_as se session t row run \<longleftrightarrow>
     rn_last_runtime_sequence row < 2 ^ 63 \<and> (\<exists>r x. run_of_row se session t row = Ok r \<and> run = r\<lparr>rec_result := x\<rparr>)"

lemma sint_small: "w \<le> i64_max \<Longrightarrow> sint (w :: u64) < 2 ^ 63"
  using sint_i64_range [of w] by simp

lemma settle_active:
  assumes r: "reads_as se session t row run" and a: "active (rec_state run)" "active st" "latest \<le> i64_max" and x: "extends t t'"
  shows "reads_as se session t' (settle (run\<lparr>rec_state := st, rec_last_runtime_sequence := latest, rec_provider_session_id := p\<rparr>) row)
     (closing e (run\<lparr>rec_state := st, rec_last_runtime_sequence := latest, rec_provider_session_id := p\<rparr>))"
proof -
  from r obtain r x where read: "run_of_row se session t row = Ok r" and run: "run = r\<lparr>rec_result := x\<rparr>" by (auto simp: reads_as_def)
  have act: "active (rec_state r)" using a(1) by (simp add: run)
  have "run_of_row se session t' (settle (run\<lparr>rec_state := st, rec_last_runtime_sequence := latest, rec_provider_session_id := p\<rparr>) row) =
      Ok (r\<lparr>rec_state := st, rec_last_runtime_sequence := latest, rec_provider_session_id := p\<rparr>)"
    using row_stays_active [OF read act assms(5) a(2,3)] active_reads(5) [OF read act] by (simp add: run settle_def)
  then show ?thesis
    using a(2) sint_small [OF a(3)] unfolding reads_as_def by (auto simp: closing_def run settle_def intro!: exI [of _ x])
qed

lemma settle_terminal:
  assumes r: "reads_as se session t row run" and a: "active (rec_state run)" "latest \<le> i64_max" and x: "appended se session t e t'"
    and e: "sv_run_id e = Some (rn_run_id row)" "terminal_outcome e = Some (outcome, p)"
    and j: "json = sv_payload e"
    and run': "run' = run\<lparr>rec_state := outcome_state outcome, rec_last_runtime_sequence := latest, rec_provider_session_id := p\<rparr>"
  shows "reads_as se session t' (settle run' (row\<lparr>rn_terminal_sequence := Some (log_length t'), rn_terminal_json := Some json\<rparr>))
     (closing e run')"
proof -
  from r obtain r x where read: "run_of_row se session t row = Ok r" and run: "run = r\<lparr>rec_result := x\<rparr>" by (auto simp: reads_as_def)
  have act: "active (rec_state r)" using a(1) by (simp add: run)
  have ext: "extends t t'" using x by (simp add: appended_def)
  obtain old where "history_event se session t (rec_accepted_sequence r) = Ok old"
    using read by (auto elim!: run_of_row_OkE simp: accepted_as_def)
  then have lt: "rec_accepted_sequence r < of_int (log_length t')" by (rule appended_new [OF x])
  note new = row_terminated [OF read act ext a(2) appended_event [OF x] log_positive [OF x] lt e]
  have "run_of_row se session t' (settle run' (row\<lparr>rn_terminal_sequence := Some (log_length t'), rn_terminal_json := Some json\<rparr>)) =
      Ok (r\<lparr>rec_state := outcome_state outcome, rec_last_runtime_sequence := latest, rec_provider_session_id := p,
        rec_terminal := Some e\<rparr>)"
    using new active_reads(5) [OF read act] by (cases row) (simp add: run settle_def run' j)
  then show ?thesis
    using sint_small [OF a(2)] active_reads(3) [OF read act] unfolding reads_as_def
    by (auto simp: closing_def run settle_def run' intro!: exI [of _ x])
qed


lemma appended_sequence: "appended se session t e t' \<Longrightarrow> sv_sequence e = of_int (log_length t')"
  unfolding appended_def by blast

lemma sint_log: "appended se session t e t' \<Longrightarrow> sint (of_int (log_length t') :: u64) = log_length t'"
  by (intro sint_of_i64) (auto simp: appended_def log_ok_def)

lemma settle_result:
  assumes r: "reads_as se session t row run" and x: "appended se session t e t'" and "rec_result_sequence run = None"
    and y: "rec_terminal run = Some y" "terminal_outcome y = Some (result_outcome result, result_session_id result)"
    and e: "sv_run_id e = Some (rn_run_id row)" "sv_payload e = RunResultRecorded result"
    and le: "sv_sequence y \<le> of_int (log_length t')"
    and run': "run' = run\<lparr>rec_result_sequence := Some (of_int (log_length t'))\<rparr>"
  shows "reads_as se session t' (settle run' row) (closing e run')"
proof -
  from r obtain r x where read: "run_of_row se session t row = Ok r" and run: "run = r\<lparr>rec_result := x\<rparr>"
    and small: "rn_last_runtime_sequence row < 2 ^ 63" by (auto simp: reads_as_def)
  have ext: "extends t t'" using x by (simp add: appended_def)
  note same = row_unchanged [OF read small]
  have row: "settle run' row = row\<lparr>rn_result_sequence := Some (log_length t')\<rparr>"
    unfolding run' run settle_def using same sint_log [OF x] by (cases row) (simp del: of_int_of_nat_eq)
  have "run_of_row se session t' (settle run' row) =
      Ok (r\<lparr>rec_result_sequence := Some (of_int (log_length t')), rec_result := Some result\<rparr>)"
    unfolding row
    by (rule row_resulted [OF read ext _ _ appended_event [OF x] log_positive [OF x] le e y(2)]) (use assms(3) y(1) run in simp_all)
  moreover have "closing e run' = run'" using y(1) by (simp add: closing_def run')
  ultimately show ?thesis
    using small unfolding reads_as_def row by (auto simp: run' run intro!: exI [of _ x])
qed

lemma settle_terminal_result:
  assumes r: "reads_as se session t row run" and a: "active (rec_state run)" and x: "appended se session t e t'"
    and e: "sv_run_id e = Some (rn_run_id row)" "sv_payload e = RunResultRecorded result"
    and run': "run' = run\<lparr>rec_state := outcome_state (result_outcome result), rec_provider_session_id := result_session_id result,
      rec_result_sequence := Some (of_int (log_length t'))\<rparr>"
  shows "reads_as se session t' (settle run' (row\<lparr>rn_terminal_sequence := Some (log_length t'), rn_terminal_json := Some (sv_payload e)\<rparr>))
     (closing e run')"
proof -
  from r obtain r x where read: "run_of_row se session t row = Ok r" and run: "run = r\<lparr>rec_result := x\<rparr>"
    and small: "rn_last_runtime_sequence row < 2 ^ 63" by (auto simp: reads_as_def)
  have act: "active (rec_state r)" using a by (simp add: run)
  have ext: "extends t t'" "extends t' t'" using x by (simp_all add: appended_def ext.refl)
  have out: "terminal_outcome e = Some (result_outcome result, result_session_id result)" using e(2) by (simp add: terminal_outcome_def)
  obtain old where "history_event se session t (rec_accepted_sequence r) = Ok old"
    using read by (auto elim!: run_of_row_OkE simp: accepted_as_def)
  then have lt: "rec_accepted_sequence r < of_int (log_length t')" by (rule appended_new [OF x])
  note same = row_unchanged [OF read small]
  note ended = row_terminated [OF read act ext(1) same(4) appended_event [OF x] log_positive [OF x] lt e(1) out]
  have le: "sv_sequence e \<le> of_int (log_length t')" unfolding appended_sequence [OF x] by (rule order_refl)
  note new = row_resulted [OF ended ext(2) _ _ appended_event [OF x] log_positive [OF x] le _ e(2) out]
  have "run_of_row se session t' (settle run' (row\<lparr>rn_terminal_sequence := Some (log_length t'), rn_terminal_json := Some (sv_payload e)\<rparr>)) =
      Ok (r\<lparr>rec_state := outcome_state (result_outcome result), rec_last_runtime_sequence := rec_last_runtime_sequence r,
        rec_provider_session_id := result_session_id result, rec_terminal := Some e,
        rec_result_sequence := Some (of_int (log_length t')), rec_result := Some result\<rparr>)"
    using new active_reads(5) [OF read act] sint_log [OF x] e
    by (cases row) (simp add: run settle_def run' del: of_int_of_nat_eq)
  then show ?thesis
    using sint_small [OF same(4)] active_reads(3) [OF read act] unfolding reads_as_def
    by (auto simp: closing_def run settle_def run' intro!: exI [of _ x])
qed

definition same_log :: "'d tables \<Rightarrow> 'd tables \<Rightarrow> bool" where
  "same_log t t' \<longleftrightarrow> tb_user_version t' = tb_user_version t \<and> tb_manifest t' = tb_manifest t \<and> tb_events t' = tb_events t \<and>
     tb_commands t' = tb_commands t \<and> tb_projection t' = tb_projection t"

text \<open>The outcome of a record's effect: how the row of the run changes, and what it then reads as.\<close>

definition effect_reads ::
    "('u, 'd) store_env \<Rightarrow> str \<Rightarrow> StoredEvent \<Rightarrow> RunRow \<Rightarrow> RecordedRun \<Rightarrow> 'd tables \<Rightarrow> RecordedRun \<Rightarrow> 'd tables \<Rightarrow> bool" where
  "effect_reads se session e row run t run' t' \<longleftrightarrow>
     same_log t t' \<and> tools_read se session t' \<and> rec_run_id run' = rec_run_id run \<and>
     (\<exists>g. (\<forall>r. rn_run_id (g r) = rn_run_id r) \<and> reads_as se session t (settle run' (g row)) (closing e run') \<and>
        tb_runs t' = map (\<lambda>r. if rn_run_id r = rec_run_id run then g r else r) (tb_runs t))"

lemma effect_reads_tools:
  assumes "only_tools t t'" "tools_read se session t'" "rec_run_id run' = rec_run_id run"
    and "reads_as se session t (settle run' row) (closing e run')"
  shows "effect_reads se session e row run t run' t'"
  unfolding effect_reads_def using assms only_toolsD [OF assms(1)] by (auto simp: same_log_def intro!: exI [of _ "\<lambda>r. r"])

lemma only_tools_refl: "only_tools t t"
  unfolding only_tools_def by (intro exI [of _ "tb_tools t"]) simp

text \<open>The two ways the row changes.\<close>

lemma effect_reads_terminal:
  assumes "tb_runs t' = map (\<lambda>r. if rn_run_id r = rec_run_id run
        then r\<lparr>rn_terminal_sequence := Some n, rn_terminal_json := Some json\<rparr> else r) (tb_runs t)"
    and "same_log t t'" "tools_read se session t'" "rec_run_id run' = rec_run_id run"
    and "reads_as se session t (settle run' (row\<lparr>rn_terminal_sequence := Some n, rn_terminal_json := Some json\<rparr>)) (closing e run')"
  shows "effect_reads se session e row run t run' t'"
  unfolding effect_reads_def using assms
  by (auto intro!: exI [of _ "\<lambda>r. r\<lparr>rn_terminal_sequence := Some n, rn_terminal_json := Some json\<rparr>"])

lemma terminalize_Ok:
  "terminalize run n outcome json t = (Ok run', t') \<longleftrightarrow>
     run' = run\<lparr>rec_state := outcome_state outcome\<rparr> \<and> schema_ok t' \<and>
     t' = t\<lparr>tb_runs := map (\<lambda>r. if rn_run_id r = rec_run_id run
        then r\<lparr>rn_terminal_sequence := Some n, rn_terminal_json := Some json\<rparr> else r) (tb_runs t)\<rparr>"
  by (auto simp: terminalize_def update_run_def sql_Ok)

lemma require_outputs_Ok: "require_outputs run outcome t = (Ok u, t') \<Longrightarrow> t' = t"
  by (auto simp: require_outputs_def sql_Ok)

lemma reads_as_small: "reads_as se session t row run \<Longrightarrow> rec_last_runtime_sequence run \<le> i64_max"
  by (auto simp: reads_as_def dest: row_unchanged(4))

lemma appended_tools:
  assumes "appended se session t e t'" "tools_read se session t" "tb_tools t' = tb_tools t" "same_log t' t''" "tb_tools t'' = tb_tools t'"
  shows "tools_read se session t''"
  using assms by (intro tools_read_extends [of _ _ t t'']) (auto simp: appended_def extends_def same_log_def)

lemma append_runtime_reads:
  assumes a: "appended se session t e t'" "tools_read se session t" "tb_tools t' = tb_tools t" "schema_ok t'"
    and r: "reads_as se session t row run" "active (rec_state run)" "rn_run_id row = rec_run_id run"
    and e: "sv_run_id e = Some (rec_run_id run)" "sv_payload e = RuntimeObserved env" "re_sequence env \<le> i64_max"
    and run: "append_runtime se session run (log_length t') env t' = (Ok run', t'')"
  shows "effect_reads se session e row run t' run' t''"
proof -
  have x: "extends t t'" using a(1) by (simp add: appended_def)
  note keep = settle_active [OF r(1,2) _ e(3) x]
  have tools: "tools_read se session t'" by (rule appended_tools [OF a(1-3)]) (simp_all add: same_log_def)
  show ?thesis
  proof (cases "re_event env")
    case RunStarted
    then show ?thesis using run keep [of StateRunning "re_session_id env" e] tools only_tools_refl
      by (intro effect_reads_tools) (auto simp: append_runtime_def sql_Ok)
  next
    case (RunFinished outcome summary)
    then have out: "terminal_outcome e = Some (outcome, re_session_id env)" using e(2) by (simp add: terminal_outcome_def)
    from run RunFinished have run': "run' = run\<lparr>rec_state := outcome_state outcome, rec_last_runtime_sequence := re_sequence env,
        rec_provider_session_id := re_session_id env\<rparr>"
      and t'': "t'' = t'\<lparr>tb_runs := map (\<lambda>r. if rn_run_id r = rec_run_id run
        then r\<lparr>rn_terminal_sequence := Some (log_length t'), rn_terminal_json := Some (RuntimeObserved env)\<rparr> else r) (tb_runs t')\<rparr>"
      by (auto simp: append_runtime_def sql_Ok terminalize_Ok dest!: require_outputs_Ok)
    have "tools_read se session t''" by (rule appended_tools [OF a(1-3)]) (simp_all add: same_log_def t'')
    then show ?thesis
      using settle_terminal [OF r(1,2) e(3) a(1) _ out _ run', of "RuntimeObserved env"] e(1,2) r(3)
      by (intro effect_reads_terminal [of t'']) (auto simp: t'' same_log_def run')
  next
    case (ToolEvent tool)
    from run ToolEvent have run': "run' = run\<lparr>rec_last_runtime_sequence := re_sequence env, rec_provider_session_id := re_session_id env\<rparr>"
      and tool: "record_tool_event se session run (log_length t') env tool t' = (Ok (), t'')"
      by (auto simp: append_runtime_def sql_Ok)
    note record_tool_event_reads [OF a e(1,2) ToolEvent tool]
    then show ?thesis using keep [of "rec_state run" "re_session_id env" e] r(2)
      by (intro effect_reads_tools) (auto simp: run')
  qed (use run keep [of "rec_state run" "re_session_id env" e] r(2) tools only_tools_refl in
        \<open>auto simp: append_runtime_def sql_Ok intro!: effect_reads_tools\<close>)
qed

lemma terminal_event:
  assumes r: "reads_as se session t row run" and log: "log_ok se session t" and y: "rec_terminal run = Some y"
  shows "history_event se session t (sv_sequence y) = Ok y" "\<not> active (rec_state run)"
proof -
  from r obtain r x where read: "run_of_row se session t row = Ok r" and run: "run = r\<lparr>rec_result := x\<rparr>" by (auto simp: reads_as_def)
  have "terminal_reads se session t row r" using read by (auto elim: run_of_row_OkE)
  with y obtain n where n: "run_terminal se session t row (rec_accepted_sequence r) (rec_state r) (of_int n) = Ok y"
    and a: "\<not> active (rec_state r)"
    by (auto simp: run terminal_reads_def split: option.splits)
  show "\<not> active (rec_state run)" using a by (simp add: run)
  from n have "history_event se session t (of_int n) = Ok y" by (auto simp: run_terminal_def wi_results)
  then show "history_event se session t (sv_sequence y) = Ok y" using history_event_bounds(1) [OF log] by metis
qed

lemma append_result_reads:
  assumes a: "appended se session t e t'" "tools_read se session t" "tb_tools t' = tb_tools t" "schema_ok t'"
    and r: "reads_as se session t row run" "rn_run_id row = rec_run_id run"
    and e: "sv_run_id e = Some (rec_run_id run)" "sv_payload e = RunResultRecorded result"
    and run: "append_result se session run (log_length t') result t' = (Ok run', t'')"
  shows "effect_reads se session e row run t' run' t''"
proof (cases "active (rec_state run)")
  case True
  from run True have run': "run' = run\<lparr>rec_state := outcome_state (result_outcome result),
      rec_provider_session_id := result_session_id result, rec_result_sequence := Some (of_int (log_length t'))\<rparr>"
    and t'': "t'' = t'\<lparr>tb_runs := map (\<lambda>r. if rn_run_id r = rec_run_id run
        then r\<lparr>rn_terminal_sequence := Some (log_length t'), rn_terminal_json := Some (sv_payload e)\<rparr> else r) (tb_runs t')\<rparr>"
    by (auto simp: append_result_def sql_Ok terminalize_Ok e(2) dest!: require_outputs_Ok)
  have "tools_read se session t''" by (rule appended_tools [OF a(1-3)]) (simp_all add: same_log_def t'')
  then show ?thesis
    using settle_terminal_result [OF r(1) True a(1) _ e(2) run'] e(1) r(2)
    by (intro effect_reads_terminal [of t'']) (auto simp: t'' same_log_def run')
next
  case False
  from run False obtain y y' where out: "rec_result_sequence run = None" "rec_terminal run = Some y"
      "history_event se session t' (sv_sequence y) = Ok y'"
      "terminal_outcome y' = Some (result_outcome result, result_session_id result)"
    and run': "run' = run\<lparr>rec_result_sequence := Some (of_int (log_length t'))\<rparr>" and t'': "t'' = t'"
    by (auto simp: append_result_def sql_Ok wi_results)
  have log: "log_ok se session t" using a(1) by (simp add: appended_def)
  note y = terminal_event(1) [OF r(1) log out(2)]
  have "y' = y" using ok_leD [OF history_event_extends y, of t'] a(1) out(3) by (auto simp: appended_def)
  then have o: "terminal_outcome y = Some (result_outcome result, result_session_id result)" using out(4) by simp
  have le: "sv_sequence y \<le> of_int (log_length t')" using appended_new [OF a(1) y] by (rule less_imp_le)
  have "reads_as se session t' (settle run' row) (closing e run')"
    by (rule settle_result [OF r(1) a(1) out(1,2) o _ e(2) le run']) (simp add: e(1) r(2))
  moreover have "tools_read se session t'" by (rule appended_tools [OF a(1-3)]) (simp_all add: same_log_def)
  ultimately show ?thesis by (intro effect_reads_tools) (simp_all add: t'' run' only_tools_refl)
qed

lemma record_effect_reads:
  assumes a: "appended se session t e t'" "tools_read se session t" "tb_tools t' = tb_tools t" "schema_ok t'"
    and r: "reads_as se session t row run" "rn_run_id row = rec_run_id run"
    and e: "sv_run_id e = Some (rec_run_id run)" "sv_payload e = record_payload record"
    and small: "\<And>env. record = AppendRuntime env \<Longrightarrow> re_sequence env \<le> i64_max"
    and act: "active (rec_state run) \<or> (\<exists>result. record = AppendResult result)"
    and run: "record_effect se session run (log_length t') record t' = (Ok run', t'')"
  shows "effect_reads se session e row run t' run' t''"
proof (cases "record")
  case (AppendResult result)
  then show ?thesis using append_result_reads [OF a r e(1)] e(2) run by (simp add: record_effect_def)
next
  case (AppendRuntime env)
  then show ?thesis using append_runtime_reads [OF a r(1) _ r(2) e(1)] e(2) run small act by (simp add: record_effect_def)
next
  case (AppendToolResult request call out b)
  then have act': "active (rec_state run)" using act by simp
  have x: "extends t t'" using a(1) by (simp add: appended_def)
  have run2: "append_tool_result se session run (log_length t') request call out b t' = (Ok run', t'')"
    using run AppendToolResult by (simp add: record_effect_def)
  note res = tool_result_reads [OF a e(1) _ run2]
  have res: "run' = run" "only_tools t' t''" "tools_read se session t''" using res e(2) AppendToolResult by simp_all
  have "reads_as se session t' (settle run row) (closing e run)"
    using settle_active [OF r(1) act' act' reads_as_small [OF r(1)] x, of "rec_provider_session_id run" e] by simp
  then show ?thesis using res by (intro effect_reads_tools) simp_all
next
  case (AppendProviderBinding binding)
  then have act': "active (rec_state run)" using act by simp
  have x: "extends t t'" using a(1) by (simp add: appended_def)
  have run': "run' = run\<lparr>rec_provider_session_id := Some (bind_provider_session_id binding)\<rparr>" "t'' = t'"
    using run AppendProviderBinding by (auto simp: record_effect_def sql_Ok)
  have "reads_as se session t' (settle run' row) (closing e run')"
    using settle_active [OF r(1) act' act' reads_as_small [OF r(1)] x, of "Some (bind_provider_session_id binding)" e]
    by (simp add: run')
  moreover have "tools_read se session t'" by (rule appended_tools [OF a(1-3)]) (simp_all add: same_log_def)
  ultimately show ?thesis by (intro effect_reads_tools) (simp_all add: run' only_tools_refl)
qed

section \<open>One appended record\<close>

definition store_reads :: "('u, 'd) store_env \<Rightarrow> str \<Rightarrow> 'd tables \<Rightarrow> bool" where
  "store_reads se session t \<longleftrightarrow>
     schema_ok t \<and> log_ok se session t \<and> 0 < log_length t \<and> runs_read se session t \<and> tools_read se session t"

definition tracks :: "('u, 'd) store_env \<Rightarrow> str \<Rightarrow> 'd tables \<Rightarrow> RecordedRun \<Rightarrow> bool" where
  "tracks se session t run \<longleftrightarrow> (\<exists>row. run_row t (rec_run_id run) = Some row \<and> reads_as se session t row run)"

text \<open>An event that will decode again: its ids parse, its time is not negative, its payload passes the checks of the decoder.\<close>

definition event_ok :: "('u, 'd) store_env \<Rightarrow> i64 \<Rightarrow> str \<Rightarrow> i64 \<Rightarrow> str \<Rightarrow> StoredEventPayload \<Rightarrow> bool" where
  "event_ok se sequence fresh timestamp run payload \<longleftrightarrow>
     sequence < 2 ^ 63 \<and> storage_id_from_str (se_uuid se) fresh = Ok fresh \<and> 0 \<le> timestamp \<and>
     parse_run_id (se_uuid se) run = Ok run \<and> payload_ok se sequence run payload"

lemma insert_event_Ok:
  assumes "insert_event (log_length t + 1) fresh timestamp run payload source t = (Ok u, t')"
    and "store_reads se session t" "event_ok se (log_length t + 1) fresh timestamp run payload"
    and "map_option re_event_id source = fst (source_columns payload)" "map_option (sint \<circ> re_sequence) source = snd (source_columns payload)"
  shows "t' = t\<lparr>tb_events := tb_events t @ [new_event (log_length t + 1) fresh timestamp run payload]\<rparr>" "schema_ok t'"
    "appended se session t (stored_event session (log_length t + 1) fresh timestamp run payload) t'"
proof -
  from assms(1) have t': "t' = t\<lparr>tb_events := tb_events t @ [new_event (log_length t + 1) fresh timestamp run payload]\<rparr> \<and> schema_ok t'"
    unfolding insert_event_eq [OF assms(4,5)] by (auto simp: execute_Ok)
  then show "t' = t\<lparr>tb_events := tb_events t @ [new_event (log_length t + 1) fresh timestamp run payload]\<rparr>" "schema_ok t'"
    by blast+
  show "appended se session t (stored_event session (log_length t + 1) fresh timestamp run payload) t'"
  proof (rule appended_row)
    show "decode se session (new_event (log_length t + 1) fresh timestamp run payload) =
        Ok (stored_event session (log_length t + 1) fresh timestamp run payload)"
      using assms(2,3) by (intro decode_new_event) (auto simp: event_ok_def store_reads_def)
  qed (use assms(2,3) t' in \<open>simp_all add: store_reads_def event_ok_def new_event_def\<close>)
qed

lemma runs_read_settle:
  assumes t: "runs_read se session t" "schema_ok t" "run_row t run = Some row"
    and x: "extends t t'" and f: "\<And>r. rn_run_id (f r) = rn_run_id r" "reads_as se session t' (f row) run'" "rec_run_id run' = run"
    and t': "tb_runs t' = map (\<lambda>r. if rn_run_id r = run then f r else r) (tb_runs t)"
  shows "runs_read se session t'" "tracks se session t' run'"
proof -
  from f(2) obtain r where r: "run_of_row se session t' (f row) = Ok r" "rn_last_runtime_sequence (f row) < 2 ^ 63"
    by (auto simp: reads_as_def)
  show "runs_read se session t'"
    by (rule runs_read_update [where f = f, OF t(1) runs_distinct [OF t(2)] t(3) x t' r])
  have "run_row t' run = Some (f row)"
    using t(3) find_update [of rn_run_id f run "tb_runs t", OF f(1)] by (simp add: run_row_def t')
  then show "tracks se session t' run'" using f(2,3) by (auto simp: tracks_def)
qed

lemma history_event_log: "tb_events t' = tb_events t \<Longrightarrow> history_event se session t' = history_event se session t"
  by (simp add: fun_eq_iff history_event_def event_row_def)

lemma run_of_row_log:
  assumes "tb_events t' = tb_events t"
  shows "run_of_row se session t' = run_of_row se session t"
  unfolding fun_eq_iff run_of_row_def run_terminal_def run_result_def history_event_log [OF assms] by simp

lemma reads_as_log: "tb_events t' = tb_events t \<Longrightarrow> reads_as se session t' = reads_as se session t"
  using run_of_row_log [of t' t se session] by (simp add: fun_eq_iff reads_as_def)

lemma tool_of_row_log:
  assumes "tb_events t' = tb_events t"
  shows "tool_of_row se session t' = tool_of_row se session t"
  unfolding fun_eq_iff tool_of_row_def history_event_log [OF assms] by simp

lemma same_records_reads:
  assumes "same_records t t'" "schema_ok t'" "store_reads se session t"
  shows "store_reads se session t'"
proof -
  from assms(1) have e: "tb_events t' = tb_events t" "tb_runs t' = tb_runs t" "tb_tools t' = tb_tools t" by (simp_all add: same_records_def)
  show ?thesis
    using assms(2,3) unfolding store_reads_def log_ok_def runs_read_def tools_read_def e run_of_row_log [OF e(1)] tool_of_row_log [OF e(1)]
    by blast
qed

lemma same_records_tracks: "same_records t t' \<Longrightarrow> tracks se session t run \<Longrightarrow> tracks se session t' run"
  using reads_as_log [of t' t se session] by (simp add: same_records_def tracks_def run_row_def)

lemma closing_prog_Ok:
  "(if \<not> active (rec_state run) \<and> rec_terminal run = None then
      then_do (query (\<lambda>t. history_event se session t i)) (\<lambda>terminal. ret (run\<lparr>rec_terminal := Some terminal\<rparr>))
    else ret run) t = (Ok run', t') \<longleftrightarrow>
   t' = t \<and> (\<exists>e. run' = closing e run \<and> (\<not> active (rec_state run) \<and> rec_terminal run = None \<longrightarrow> history_event se session t i = Ok e))"
  by (auto simp: closing_def sql_Ok)

lemma append_record_Ok:
  assumes "append_record se session run n fresh timestamp record t = (Ok run'', t'')"
  obtains t1 run' t2 t3 e' where
    "rec_state run \<noteq> StateInterrupted" "active (rec_state run) \<or> (\<exists>result. record = AppendResult result)"
    "insert_event n fresh timestamp (rec_run_id run) (record_payload record) (record_source record) t = (Ok (), t1)"
    "record_effect se session run n record t1 = (Ok run', t2)"
    "schema_ok t3" "t3 = t2\<lparr>tb_runs := map (\<lambda>r. if rn_run_id r = rec_run_id run' then settle run' r else r) (tb_runs t2)\<rparr>"
    "run'' = closing e' run'" "\<not> active (rec_state run') \<and> rec_terminal run' = None \<longrightarrow> history_event se session t3 (of_int n) = Ok e'"
    "same_records t3 t''" "schema_ok t''"
    "0 \<le> n \<and> n < 2 ^ 63 \<longrightarrow> tb_projection t'' = map (\<lambda>r. r\<lparr>pj_applied_sequence := n\<rparr>) (tb_projection t3)"
proof -
  have binding: "check_binding se session run n record t = (Ok u, t') \<Longrightarrow> t' = t" for u t'
    by (cases "record") (auto simp: check_binding_def sql_Ok)
  have is_result: "(case record of AppendResult _ \<Rightarrow> True | _ \<Rightarrow> False) \<longleftrightarrow> (\<exists>result. record = AppendResult result)"
    by (cases "record") auto
  have upd: "(\<lambda>r. r\<lparr>rn_state := state_name (rec_state run'), rn_last_runtime_sequence := sint (rec_last_runtime_sequence run'),
      rn_provider_session_id := rec_provider_session_id run', rn_result_sequence := map_option sint (rec_result_sequence run')\<rparr>) = settle run'"
    for run' by (simp add: fun_eq_iff settle_def)
  from assms obtain t1 run' t2 t3 e' input u1 u2 u3 where *:
    "rec_state run \<noteq> StateInterrupted" "active (rec_state run) \<or> (\<exists>result. record = AppendResult result)"
    "insert_event n fresh timestamp (rec_run_id run) (record_payload record) (record_source record) t = (Ok u1, t1)"
    "record_effect se session run n record t1 = (Ok run', t2)" "update_run (rec_run_id run') (settle run') t2 = (Ok u2, t3)"
    "run'' = closing e' run'" "\<not> active (rec_state run') \<and> rec_terminal run' = None \<longrightarrow> history_event se session t3 (of_int n) = Ok e'"
    "projector_apply se (of_int n) (Some (rec_run_id run'')) input t3 = (Ok u3, t'')" "projector_record (rec_run_id run'') record = Ok input"
    unfolding append_record_def is_result upd prog_Ok closing_prog_Ok
    by - (elim exE conjE, drule binding, simp only: unit_eq de_Morgan_disj de_Morgan_conj not_not, blast)
  have t3: "schema_ok t3" "t3 = t2\<lparr>tb_runs := map (\<lambda>r. if rn_run_id r = rec_run_id run' then settle run' r else r) (tb_runs t2)\<rparr>"
    using *(5) by (auto simp: update_run_def execute_Ok)
  have "same_records t3 t''" "schema_ok t''"
    using display.keptD [OF display_projector *(8)] sch.keptD [OF schema_projector *(8)] t3(1) by auto
  moreover have "tb_projection t'' = map (\<lambda>r. r\<lparr>pj_applied_sequence := n\<rparr>) (tb_projection t3)" if "0 \<le> n" "n < 2 ^ 63"
    using projector_run_Ok [OF *(8) that] record_input [OF *(9)] by blast
  ultimately show ?thesis using that [OF *(1,2) _ *(4) t3 *(6,7)] *(3) by simp
qed

text \<open>What a successful write leaves: the log grew by the given rows, the display has seen the last of them, and the
  manifest and the commands are as before.\<close>

definition grown :: "'d tables \<Rightarrow> EventRow list \<Rightarrow> 'd tables \<Rightarrow> bool" where
  "grown t rows t' \<longleftrightarrow> tb_events t' = tb_events t @ rows \<and> tb_manifest t' = tb_manifest t \<and>
     tb_commands t' = tb_commands t \<and> tb_user_version t' = tb_user_version t \<and>
     tb_projection t' = map (\<lambda>r. r\<lparr>pj_applied_sequence := log_length t'\<rparr>) (tb_projection t)"

lemma grown_trans: "grown t rows t' \<Longrightarrow> grown t' rows' t'' \<Longrightarrow> grown t (rows @ rows') t''"
  by (auto simp: grown_def)

lemma record_columns:
  "map_option re_event_id (record_source record) = fst (source_columns (record_payload record))"
  "map_option (sint \<circ> re_sequence) (record_source record) = snd (source_columns (record_payload record))"
  by (cases "record"; simp add: source_columns_def)+

lemma runtime_small: "payload_ok se n run (RuntimeObserved env) \<Longrightarrow> re_sequence env \<le> i64_max"
  by (auto simp: payload_ok_def validate_runtime_def wi_results linorder_not_less)

lemma append_record_keeps:
  assumes t: "store_reads se session t" "tracks se session t run"
    and e: "event_ok se (log_length t + 1) fresh timestamp (rec_run_id run) (record_payload record)"
    and run: "append_record se session run (log_length t + 1) fresh timestamp record t = (Ok run'', t'')"
  shows "store_reads se session t''" "tracks se session t'' run''" "rec_run_id run'' = rec_run_id run"
    "grown t [new_event (log_length t + 1) fresh timestamp (rec_run_id run) (record_payload record)] t''"
proof -
  let ?e = "stored_event session (log_length t + 1) fresh timestamp (rec_run_id run) (record_payload record)"
  from t(2) obtain row where row: "run_row t (rec_run_id run) = Some row" "reads_as se session t row run" by (auto simp: tracks_def)
  have id: "rn_run_id row = rec_run_id run" using row(1) by (auto simp: run_row_def find_Some_iff)
  obtain t1 run' t2 t3 e' where act: "active (rec_state run) \<or> (\<exists>result. record = AppendResult result)"
    and ins: "insert_event (log_length t + 1) fresh timestamp (rec_run_id run) (record_payload record) (record_source record) t = (Ok (), t1)"
    and eff: "record_effect se session run (log_length t + 1) record t1 = (Ok run', t2)"
    and t3: "schema_ok t3" "t3 = t2\<lparr>tb_runs := map (\<lambda>r. if rn_run_id r = rec_run_id run' then settle run' r else r) (tb_runs t2)\<rparr>"
    and out: "run'' = closing e' run'" "\<not> active (rec_state run') \<and> rec_terminal run' = None \<longrightarrow> history_event se session t3 (of_int (log_length t + 1)) = Ok e'"
      "same_records t3 t''" "schema_ok t''"
      "0 \<le> log_length t + 1 \<and> log_length t + 1 < 2 ^ 63 \<longrightarrow>
        tb_projection t'' = map (\<lambda>r. r\<lparr>pj_applied_sequence := log_length t + 1\<rparr>) (tb_projection t3)"
    by (rule append_record_Ok [OF run])
  note t1 = insert_event_Ok [OF ins t(1) e record_columns]
  have len: "log_length t1 = log_length t + 1" using t1(3) by (simp add: appended_def)
  have fx: "effect_reads se session ?e row run t1 run' t2"
    by (rule record_effect_reads [OF t1(3) _ _ t1(2) row(2) id _ _ _ act eff [folded len]])
      (use t(1) t1(1) e in \<open>auto simp: stored_event_def store_reads_def event_ok_def dest: runtime_small\<close>)
  then obtain g where g: "\<And>r. rn_run_id (g r) = rn_run_id r" "reads_as se session t1 (settle run' (g row)) (closing ?e run')"
      "tb_runs t2 = map (\<lambda>r. if rn_run_id r = rec_run_id run then g r else r) (tb_runs t1)"
    and t2: "same_log t1 t2" "tools_read se session t2" "rec_run_id run' = rec_run_id run" by (auto simp: effect_reads_def)
  have ev: "tb_events t3 = tb_events t1" using t2(1) by (simp add: t3(2) same_log_def)
  have "closing e' run' = closing ?e run'"
    using out(2) appended_event [OF t1(3)] history_event_log [OF ev, of se session] by (auto simp: closing_def len)
  then have read: "reads_as se session t3 (settle run' (g row)) run''"
    using g(2) out(1) by (simp add: reads_as_log [OF ev])
  show id': "rec_run_id run'' = rec_run_id run" using t2(3) by (simp add: out(1) closing_def)
  have ext: "extends t t3" using t1(1) ev by (simp add: extends_def)
  have upd: "tb_runs t3 = map (\<lambda>r. if rn_run_id r = rec_run_id run then settle run' (g r) else r) (tb_runs t)"
    using g(3) by (simp add: t3(2) t2(3) t1(1) o_def g(1) if_distrib cong: if_cong)
  have st: "schema_ok t" "log_ok se session t" "0 < log_length t" "runs_read se session t" using t(1) by (simp_all add: store_reads_def)
  have runs: "runs_read se session t3" "tracks se session t3 run''"
    by (rule runs_read_settle [where f = "\<lambda>r. settle run' (g r)", OF st(4,1) row(1) ext _ read id' upd]; simp add: settle_def g(1))+
  have "tools_read se session t3"
    using t2(2) tool_of_row_log [of t3 t2 se session] by (simp add: tools_read_def t3(2))
  moreover have "log_ok se session t3" using t1(3) by (simp add: appended_def log_ok_def ev)
  ultimately have "store_reads se session t3" using runs(1) t3(1) by (simp add: store_reads_def ev t1(1))
  then show "store_reads se session t''" by (rule same_records_reads [OF out(3,4)])
  show "tracks se session t'' run''" by (rule same_records_tracks [OF out(3) runs(2)])
  show "grown t [new_event (log_length t + 1) fresh timestamp (rec_run_id run) (record_payload record)] t''"
    using out(3) out(5) e t2(1) by (simp add: grown_def same_records_def same_log_def t3(2) t1(1) event_ok_def)
qed

end
