(* ===== verification/Store_Transactions.thy ===== *)
theory Store_Transactions
  imports Store_Invariant
begin

text \<open>
  The transactions of a session database keep it in order.  \<open>store_ok\<close> adds to \<open>store_reads\<close> that the manifest validates (its
  head is the last event, its title and times are those of the log, the display has seen every event) and that every
  recorded command reads.  It holds after creation and after every run mutation, rename and reconciliation,
  successful or rolled back; \<open>reachable\<close> are the tables so obtained.
\<close>

section \<open>A batch of records\<close>

text \<open>Values of the source's checked types: what their constructors guarantee.\<close>

fun record_typed :: "('u, 'd) store_env \<Rightarrow> AppendRunRecord \<Rightarrow> bool" where
  "record_typed se (AppendProviderBinding binding) \<longleftrightarrow> decode_binding se binding = Ok binding"
| "record_typed se _ \<longleftrightarrow> True"

fun mutation_typed :: "('u, 'd) store_env \<Rightarrow> Mutation \<Rightarrow> bool" where
  "mutation_typed se (Accept input) \<longleftrightarrow> RecordedRunInput_try_from (se_crates se) input = Ok input"
| "mutation_typed se (AcceptHistory input selection) \<longleftrightarrow>
     RecordedRunInput_try_from (se_crates se) input = Ok input \<and>
     StoredHistorySelection_try_from (se_crates se) selection = Ok selection"
| "mutation_typed se (Append records) \<longleftrightarrow> list_all (record_typed se) records"

lemma append_step_Ok:
  assumes "append_step se session n fresh timestamp record (run, correlation, unbound) t = (Ok (run', correlation', unbound'), t')"
  shows "append_record se session run n fresh timestamp record t = (Ok run', t')"
    and "unbound \<longrightarrow> check_unbound record = Ok ()"
    and "case record of
        AppendRuntime event \<Rightarrow> Correlation_observe t correlation run event n = Ok correlation' \<and> unbound' = unbound
      | AppendProviderBinding binding \<Rightarrow> correlation' = correlation\<lparr>co_session := Some (bind_provider_session_id binding)\<rparr> \<and> \<not> unbound'
      | _ \<Rightarrow> correlation' = correlation \<and> unbound' = unbound"
  using assms by (cases "record"; auto simp: append_step_def sql_Ok)+

lemma observe_same_run: "Correlation_observe t correlation run event n = Ok c \<Longrightarrow> re_run_id event = rec_run_id run"
  by (auto simp: Correlation_observe_def wi_results)

lemma append_result_same_run: "append_result se session run n result t = (Ok run', t') \<Longrightarrow> result_run_id result = rec_run_id run"
  by (auto simp: append_result_def sql_Ok)

lemma check_binding_same_run:
  "check_binding se session run n (AppendProviderBinding binding) t = (Ok u, t') \<Longrightarrow> bind_run_id binding = rec_run_id run"
  by (auto simp: check_binding_def validate_binding_def sql_Ok wi_results)

lemma append_record_payload:
  assumes run: "append_record se session run n fresh timestamp record t = (Ok run', t')"
    and v: "AppendRunRecord_validate (se_uuid se) record = Ok ()" "record_typed se record"
    and env: "\<And>event. record = AppendRuntime event \<Longrightarrow> re_run_id event = rec_run_id run"
  shows "payload_ok se n (rec_run_id run) (record_payload record)"
proof (cases "record")
  case (AppendProviderBinding binding)
  then obtain u t1 where "check_binding se session run n (AppendProviderBinding binding) t = (Ok u, t1)"
    using run by (auto simp: append_record_def prog_Ok)
  then show ?thesis using v AppendProviderBinding by (simp add: payload_ok_def check_binding_same_run)
next
  case (AppendRuntime event)
  then show ?thesis using v env by (simp add: payload_ok_def AppendRunRecord_validate_def)
next
  case (AppendToolResult request call out b)
  then show ?thesis by (simp add: payload_ok_def)
next
  case (AppendResult result)
  obtain t1 t2 run1 where "record_effect se session run n record t1 = (Ok run1, t2)" by (rule append_record_Ok [OF run])
  then show ?thesis using AppendResult by (simp add: payload_ok_def record_effect_def append_result_same_run)
qed

definition ids_ok :: "('u, 'd) store_env \<Rightarrow> (i64 \<Rightarrow> str) \<Rightarrow> bool" where
  "ids_ok se fresh \<longleftrightarrow> (\<forall>i. storage_id_from_str (se_uuid se) (fresh i) = Ok (fresh i))"

lemma append_step_keeps:
  assumes t: "store_reads se session t" "tracks se session t run"
    and ok: "ids_ok se fresh" "0 \<le> timestamp" "parse_run_id (se_uuid se) (rec_run_id run) = Ok (rec_run_id run)" "log_length t + 1 < 2 ^ 63"
    and v: "AppendRunRecord_validate (se_uuid se) record = Ok ()" "record_typed se record"
    and run: "append_step se session (log_length t + 1) (fresh (log_length t + 1)) timestamp record (run, correlation, unbound) t
      = (Ok (run', correlation', unbound'), t')"
  shows "store_reads se session t'" "tracks se session t' run'" "rec_run_id run' = rec_run_id run"
    "grown t [new_event (log_length t + 1) (fresh (log_length t + 1)) timestamp (rec_run_id run) (record_payload record)] t'"
proof -
  note step = append_step_Ok [OF run]
  have "payload_ok se (log_length t + 1) (rec_run_id run) (record_payload record)"
    using step(3) by (intro append_record_payload [OF step(1) v]) (auto dest: observe_same_run)
  then have e: "event_ok se (log_length t + 1) (fresh (log_length t + 1)) timestamp (rec_run_id run) (record_payload record)"
    using ok by (simp add: event_ok_def ids_ok_def)
  note append_record_keeps [OF t e step(1)]
  then show "store_reads se session t'" "tracks se session t' run'" "rec_run_id run' = rec_run_id run"
    "grown t [new_event (log_length t + 1) (fresh (log_length t + 1)) timestamp (rec_run_id run) (record_payload record)] t'"
    by simp_all
qed

text \<open>The rows a batch appends.\<close>

fun batch_rows :: "i64 \<Rightarrow> (i64 \<Rightarrow> str) \<Rightarrow> i64 \<Rightarrow> str \<Rightarrow> AppendRunRecord list \<Rightarrow> EventRow list" where
  "batch_rows n fresh timestamp run [] = []"
| "batch_rows n fresh timestamp run (record # records) =
     new_event n (fresh n) timestamp run (record_payload record) # batch_rows (n + 1) fresh timestamp run records"

lemma grown_length: "grown t rows t' \<Longrightarrow> log_length t' = log_length t + int (length rows)"
  by (simp add: grown_def)

lemma append_records_keeps:
  assumes "store_reads se session t" "tracks se session t run"
    and "ids_ok se fresh" "0 \<le> timestamp" "parse_run_id (se_uuid se) (rec_run_id run) = Ok (rec_run_id run)"
    and "log_length t + int (length records) < 2 ^ 63"
    and "\<And>record. record \<in> set records \<Longrightarrow> AppendRunRecord_validate (se_uuid se) record = Ok () \<and> record_typed se record"
    and "append_records se session (log_length t + 1) fresh timestamp records (run, correlation, unbound) t
      = (Ok (run', correlation', unbound'), t')"
  shows "store_reads se session t' \<and> tracks se session t' run' \<and> rec_run_id run' = rec_run_id run \<and>
    (if records = [] then t' = t else grown t (batch_rows (log_length t + 1) fresh timestamp (rec_run_id run) records) t')"
  using assms
proof (induction records arbitrary: t run correlation unbound)
  case Nil
  then show ?case by (simp add: prog_Ok)
next
  case (Cons r records)
  obtain run1 c1 u1 t1 where step: "append_step se session (log_length t + 1) (fresh (log_length t + 1)) timestamp r
        (run, correlation, unbound) t = (Ok (run1, c1, u1), t1)"
    and rest: "append_records se session (log_length t + 1 + 1) fresh timestamp records (run1, c1, u1) t1
        = (Ok (run', correlation', unbound'), t')"
    using Cons.prems(8) by (auto simp: prog_Ok)
  have v: "AppendRunRecord_validate (se_uuid se) r = Ok ()" "record_typed se r" "log_length t + 1 < 2 ^ 63"
    using Cons.prems(6,7) by auto
  note first = append_step_keeps [OF Cons.prems(1-5) v(3,1,2) step]
  have len: "log_length t1 = log_length t + 1" using grown_length [OF first(4)] by simp
  have "store_reads se session t' \<and> tracks se session t' run' \<and> rec_run_id run' = rec_run_id run1 \<and>
    (if records = [] then t' = t1 else grown t1 (batch_rows (log_length t1 + 1) fresh timestamp (rec_run_id run1) records) t')"
    by (rule Cons.IH [OF first(1,2) Cons.prems(3,4)])
      (use Cons.prems(5-7) first(3) rest len in \<open>auto simp: first(3)\<close>)
  then show ?case
    using first(3,4) grown_trans [OF first(4)] by (auto simp: len split: if_splits)
qed

section \<open>Accepting and interrupting a run\<close>

lemma find_append_None: "List.find P xs = None \<Longrightarrow> List.find P (xs @ ys) = List.find P ys"
  by (induction xs) (auto split: if_splits)

lemma runs_read_snoc:
  assumes r: "runs_read se session t" and x: "extends t t'" and t': "tb_runs t' = tb_runs t @ [row]"
    and new: "run_of_row se session t' row = Ok r" "rn_last_runtime_sequence row < 2 ^ 63"
  shows "runs_read se session t'"
proof -
  have "\<exists>r. run_of_row se session t' row' = Ok r" if "row' \<in> set (tb_runs t)" for row'
    using that r ok_leD [OF run_of_row_extends [OF x]] by (fastforce simp: runs_read_def)
  then show ?thesis using r new by (auto simp: runs_read_def t')
qed

text \<open>A log extended by one decoded row, with the tool results left alone.\<close>

lemma appended_log: "appended se session t e t' \<Longrightarrow> log_ok se session t' \<and> 0 < log_length t' \<and> extends t t'"
  unfolding appended_def by simp

lemma run_columns:
  "source_columns (RunAccepted a) = (None, None)" "source_columns (RunHistorySelected h) = (None, None)"
  "source_columns (RunInterrupted i) = (None, None)"
  by (simp_all add: source_columns_def)

definition accepted_run :: "str \<Rightarrow> i64 \<Rightarrow> RecordedRunInput \<Rightarrow> str \<Rightarrow> RecordedRun" where
  "accepted_run run n input owner =
     \<lparr>rec_run_id = run, rec_accepted_sequence = of_int n, rec_input = input, rec_state = StateAccepted,
      rec_last_runtime_sequence = 0, rec_owner_instance_id = owner, rec_provider_session_id = None,
      rec_terminal = None, rec_result_sequence = None, rec_result = None\<rparr>"

definition accepted_row :: "str \<Rightarrow> i64 \<Rightarrow> str \<Rightarrow> RunRow" where
  "accepted_row run n owner = \<lparr>rn_run_id = run, rn_accepted_sequence = n, rn_state = ''accepted'', rn_last_runtime_sequence = 0,
     rn_owner_instance_id = owner, rn_provider_session_id = None, rn_terminal_sequence = None, rn_terminal_json = None,
     rn_result_sequence = None\<rparr>"

abbreviation acceptance :: "str \<Rightarrow> RecordedRunInput \<Rightarrow> str \<Rightarrow> StoredEventPayload" where
  "acceptance run input owner \<equiv> RunAccepted \<lparr>ap_run_id = run, ap_input = input, ap_owner_instance_id = owner\<rparr>"

lemma accepted_row_reads:
  assumes "history_event se session t (of_int n) = Ok e" "sv_payload e = acceptance run input owner" "0 < n"
  shows "run_of_row se session t (accepted_row run n owner) = Ok (accepted_run run n input owner)"
proof (rule run_of_row_OkI)
  show "state_from_name (rn_state (accepted_row run n owner)) = Ok (rec_state (accepted_run run n input owner))"
    using state_from_name [of StateAccepted] by (simp add: accepted_row_def accepted_run_def)
qed (use assms in \<open>auto simp: accepted_row_def accepted_run_def accepted_as_def terminal_reads_def result_reads_def positive_def\<close>)

lemma accept_run_Ok:
  assumes "accept_run se owner n fresh timestamp run input t = (Ok u, t')"
  obtains t1 t2 u1 where "run_row t run = None" "\<not> list_ex unfinished (tb_runs t)"
    "insert_event n fresh timestamp run (acceptance run input owner) None t = (Ok u1, t1)"
    "t2 = t1\<lparr>tb_runs := tb_runs t1 @ [accepted_row run n owner]\<rparr>" "schema_ok t2" "same_records t2 t'" "schema_ok t'"
    "0 \<le> n \<and> n < 2 ^ 63 \<longrightarrow> tb_projection t' = map (\<lambda>r. r\<lparr>pj_applied_sequence := n\<rparr>) (tb_projection t2)"
proof -
  from assms obtain t1 t2 u1 u2 where *: "run_row t run = None" "\<not> list_ex unfinished (tb_runs t)"
    "insert_event n fresh timestamp run (acceptance run input owner) None t = (Ok u1, t1)"
    "t2 = t1\<lparr>tb_runs := tb_runs t1 @ [accepted_row run n owner]\<rparr>" "schema_ok t2"
    "projector_apply se (of_int n) (Some run) (ProjectAccepted input) t2 = (Ok u2, t')"
    by (auto simp: accept_run_def sql_Ok wi_results accepted_row_def)
  have "same_records t2 t'" "schema_ok t'"
    using display.keptD [OF display_projector *(6)] sch.keptD [OF schema_projector *(6)] *(5) by auto
  then show ?thesis using that [OF *(1-5)] projector_run_Ok [OF *(6)] by simp
qed

lemma accept_run_keeps:
  assumes t: "store_reads se session t"
    and e: "event_ok se (log_length t + 1) fresh timestamp run (acceptance run input owner)"
    and run: "accept_run se owner (log_length t + 1) fresh timestamp run input t = (Ok u, t')"
  shows "store_reads se session t'" "run_record se session t' run = Ok (Some (accepted_run run (log_length t + 1) input owner))"
    "grown t [new_event (log_length t + 1) fresh timestamp run (acceptance run input owner)] t'"
proof -
  obtain t1 t2 u1 where none: "run_row t run = None"
    and ins: "insert_event (log_length t + 1) fresh timestamp run (acceptance run input owner) None t = (Ok u1, t1)"
    and t2: "t2 = t1\<lparr>tb_runs := tb_runs t1 @ [accepted_row run (log_length t + 1) owner]\<rparr>" "schema_ok t2"
    and t': "same_records t2 t'" "schema_ok t'"
      "0 \<le> log_length t + 1 \<and> log_length t + 1 < 2 ^ 63 \<longrightarrow>
        tb_projection t' = map (\<lambda>r. r\<lparr>pj_applied_sequence := log_length t + 1\<rparr>) (tb_projection t2)"
    by (rule accept_run_Ok [OF run])
  note t1 = insert_event_Ok [OF ins t e, unfolded run_columns, simplified]
  have len: "log_length t1 = log_length t + 1" by (simp add: t1(1))
  have new: "run_of_row se session t2 (accepted_row run (log_length t + 1) owner) = Ok (accepted_run run (log_length t + 1) input owner)"
    using appended_event [OF t1(3)] history_event_log [of t2 t1 se session]
    by (intro accepted_row_reads) (auto simp: t2(1) len stored_event_def)
  have st: "runs_read se session t" "tools_read se session t" "log_ok se session t" using t by (simp_all add: store_reads_def)
  have x: "extends t t2" by (simp add: t2(1) t1(1) extends_def)
  have "runs_read se session t2" by (rule runs_read_snoc [OF st(1) x _ new]) (simp_all add: t2(1) t1(1) accepted_row_def)
  moreover have "tools_read se session t2" by (rule tools_read_extends [OF st(2) x]) (simp add: t2(1) t1(1))
  moreover have "log_ok se session t2" "0 < log_length t2" using appended_log [OF t1(3)] by (simp_all add: log_ok_def t2(1) t1(1))
  ultimately have reads: "store_reads se session t2" using t2(2) by (simp add: store_reads_def)
  show "store_reads se session t'" by (rule same_records_reads [OF t'(1,2) reads])
  have ev: "tb_events t' = tb_events t2" "tb_runs t' = tb_runs t2" using t'(1) by (simp_all add: same_records_def)
  have "run_row t' run = Some (accepted_row run (log_length t + 1) owner)"
    using none by (simp add: run_row_def ev t2(1) t1(1) accepted_row_def find_append_None)
  then show "run_record se session t' run = Ok (Some (accepted_run run (log_length t + 1) input owner))"
    using new by (simp add: run_record_def run_of_row_log [OF ev(1)])
  show "grown t [new_event (log_length t + 1) fresh timestamp run (acceptance run input owner)] t'"
    using t' e by (simp add: grown_def same_records_def t2(1) t1(1) event_ok_def)
qed

lemma store_reads_appended:
  assumes t: "store_reads se session t" and a: "appended se session t e t'"
    and t': "schema_ok t'" "tb_runs t' = tb_runs t" "tb_tools t' = tb_tools t"
  shows "store_reads se session t'"
proof -
  note log = appended_log [OF a]
  have r: "runs_read se session t" "tools_read se session t" using t by (simp_all add: store_reads_def)
  have "runs_read se session t'"
    using r(1) ok_leD [OF run_of_row_extends, of t t'] log by (fastforce simp: runs_read_def t'(2))
  moreover have "tools_read se session t'" using tools_read_extends [OF r(2) _ t'(3)] log by blast
  ultimately show ?thesis using log t'(1) by (simp add: store_reads_def)
qed

lemma extends_record:
  assumes "run_record se session t run = Ok (Some r)" "extends t t'" "tb_runs t' = tb_runs t"
  shows "run_record se session t' run = Ok (Some r)"
  using assms(1,3) ok_leD [OF run_of_row_extends [OF assms(2)]]
  by (cases "run_row t run") (auto simp: run_record_def run_row_def wi_results)

lemma select_history_keeps:
  assumes t: "store_reads se session t"
    and e: "event_ok se (log_length t + 1) fresh timestamp run (RunHistorySelected \<lparr>hp_run_id = run, hp_selection = selection\<rparr>)"
    and run: "select_history se (log_length t + 1) fresh timestamp run selection t = (Ok u, t')"
  shows "store_reads se session t'" "tb_runs t' = tb_runs t"
    "grown t [new_event (log_length t + 1) fresh timestamp run (RunHistorySelected \<lparr>hp_run_id = run, hp_selection = selection\<rparr>)] t'"
proof -
  let ?p = "RunHistorySelected \<lparr>hp_run_id = run, hp_selection = selection\<rparr>"
  from run obtain u1 t1 u2 where ins: "insert_event (log_length t + 1) fresh timestamp run ?p None t = (Ok u1, t1)"
    and p: "projector_apply se (of_int (log_length t + 1)) (Some run) ProjectHistorySelected t1 = (Ok u2, t')"
    by (auto simp: select_history_def prog_Ok)
  note t1 = insert_event_Ok [OF ins t e, unfolded run_columns, simplified]
  have t': "same_records t1 t'" "schema_ok t'"
    using display.keptD [OF display_projector p] sch.keptD [OF schema_projector p] t1(2) by auto
  have "store_reads se session t1" by (rule store_reads_appended [OF t t1(3,2)]) (simp_all add: t1(1))
  then show "store_reads se session t'" by (rule same_records_reads [OF t'])
  show "tb_runs t' = tb_runs t" using t'(1) by (simp add: same_records_def t1(1))
  show "grown t [new_event (log_length t + 1) fresh timestamp run ?p] t'"
    using t'(1) e projector_run_Ok [OF p] by (simp add: grown_def same_records_def t1(1) event_ok_def)
qed

text \<open>The interruption of an unfinished run.\<close>

abbreviation interruption :: "str \<Rightarrow> StoredEventPayload" where
  "interruption run \<equiv> RunInterrupted \<lparr>ip_run_id = run, ip_reason = ProcessRestart\<rparr>"

lemma unfinished_active:
  "run_of_row se session t row = Ok r \<Longrightarrow> unfinished row \<longleftrightarrow> active (rec_state r)"
  by (erule run_of_row_OkE) (auto simp: unfinished_def active_def state_from_name_def wi_results split: if_splits)

lemma interrupt_keeps:
  assumes t: "store_reads se session t" and row: "run_row t run = Some row" "unfinished row"
    and a: "appended se session t (stored_event session (log_length t + 1) fresh timestamp run (interruption run)) t1"
      "tb_runs t1 = tb_runs t" "tb_tools t1 = tb_tools t"
    and t': "t' = t1\<lparr>tb_runs := map (\<lambda>r. if rn_run_id r = run then r\<lparr>rn_state := ''interrupted'',
        rn_terminal_sequence := Some (log_length t + 1), rn_terminal_json := Some (interruption run)\<rparr> else r) (tb_runs t1)\<rparr>" "schema_ok t'"
  shows "store_reads se session t'"
proof -
  let ?e = "stored_event session (log_length t + 1) fresh timestamp run (interruption run)"
  let ?f = "\<lambda>r. r\<lparr>rn_state := ''interrupted'', rn_terminal_sequence := Some (log_length t + 1), rn_terminal_json := Some (interruption run)\<rparr>"
  have st: "schema_ok t" "runs_read se session t" "tools_read se session t" using t by (simp_all add: store_reads_def)
  have id: "rn_run_id row = run" and mem: "row \<in> set (tb_runs t)" using row(1) by (auto simp: run_row_def find_Some_iff)
  with st(2) obtain r where r: "run_of_row se session t row = Ok r" "rn_last_runtime_sequence row < 2 ^ 63" by (auto simp: runs_read_def)
  have act: "active (rec_state r)" using row(2) unfinished_active [OF r(1)] by simp
  have len: "log_length t1 = log_length t + 1" using a(1) by (simp add: appended_def)
  note log = appended_log [OF a(1)]
  have ev: "history_event se session t' (of_int (log_length t + 1)) = Ok ?e"
    using appended_event [OF a(1)] history_event_log [of t' t1 se session] by (simp add: t'(1) len)
  have x: "extends t t'" using log by (simp add: t'(1) extends_def)
  obtain old where "history_event se session t (rec_accepted_sequence r) = Ok old"
    using r(1) by (auto elim!: run_of_row_OkE simp: accepted_as_def)
  then have lt: "rec_accepted_sequence r < of_int (log_length t + 1)" using appended_new [OF a(1)] by (simp only: len)
  have f: "run_of_row se session t' (?f row) = Ok (r\<lparr>rec_state := StateInterrupted, rec_terminal := Some ?e\<rparr>)"
    using row_interrupted [OF r(1) act x ev _ lt] id by (simp add: stored_event_def)
  have "runs_read se session t'"
    by (rule runs_read_update [where f = ?f, OF st(2) runs_distinct [OF st(1)] row(1) x _ f]) (use r(2) in \<open>simp_all add: t'(1) a(2)\<close>)
  moreover have "tools_read se session t'" by (rule tools_read_extends [OF st(3) x]) (simp add: t'(1) a(3))
  moreover have "log_ok se session t'" "0 < log_length t'" using log by (simp_all add: t'(1) log_ok_def)
  ultimately show ?thesis using t'(2) by (simp add: store_reads_def)
qed

section \<open>The manifest\<close>

abbreviation metadata :: "'d tables \<Rightarrow> EventRow list" where
  "metadata t \<equiv> filter (\<lambda>r. ev_run_id r = None) (tb_events t)"

lemma log_sorted: "log_ok se session t \<Longrightarrow> sorted (map ev_sequence (filter P (tb_events t)))"
  by (simp add: log_ok_def sorted_filter)

lemma log_member:
  "log_ok se session t \<Longrightarrow> r \<in> set (tb_events t) \<Longrightarrow> 1 \<le> ev_sequence r \<and> ev_sequence r \<le> log_length t"
proof -
  assume log: "log_ok se session t" and r: "r \<in> set (tb_events t)"
  then have "ev_sequence r \<in> set [1..log_length t]" unfolding log_ok_def by (metis image_eqI set_map)
  then show ?thesis by simp
qed

lemma log_max: "log_ok se session t \<Longrightarrow> 0 < log_length t \<Longrightarrow> max_sequence t = Some (log_length t)"
proof -
  assume log: "log_ok se session t" and n: "0 < log_length t"
  have "set (map ev_sequence (tb_events t)) = {1..log_length t}" using log by (simp only: log_ok_def set_upto)
  moreover have "1 \<le> log_length t" using n by linarith
  then have "Max {1..log_length t} = log_length t" by (intro Max_eqI) auto
  ultimately show ?thesis using n by (simp add: max_sequence_def)
qed

lemma log_first: "log_ok se session t \<Longrightarrow> 0 < log_length t \<Longrightarrow> event_row t 1 = Some (hd (tb_events t))"
  by (subst event_row_log) (auto simp: log_ok_def hd_conv_nth Suc_le_eq)

lemma log_latest: "log_ok se session t \<Longrightarrow> 0 < log_length t \<Longrightarrow> event_row t (log_length t) = Some (last (tb_events t))"
  by (subst event_row_log) (auto simp: log_ok_def last_conv_nth nat_diff_distrib Suc_le_eq)

lemma log_metadata:
  assumes "log_ok se session t"
  shows "latest_metadata_event t (log_length t) = (if metadata t = [] then None else Some (last (metadata t)))"
proof -
  have f: "filter (\<lambda>r. ev_run_id r = None \<and> ev_sequence r \<le> log_length t) (tb_events t) = metadata t"
    using log_member [OF assms] by (intro filter_cong) auto
  have "sort_key ev_sequence (metadata t) = metadata t" by (rule sort_key_id_if_sorted [OF log_sorted [OF assms]])
  then show ?thesis unfolding latest_metadata_event_def f by (simp add: hd_rev [symmetric] split: list.splits)
qed

text \<open>When the manifest of a well-numbered log validates.\<close>

definition manifest_ok :: "('u, 'd) store_env \<Rightarrow> CreationProvenance \<Rightarrow> 'd tables \<Rightarrow> ManifestRow \<Rightarrow> ProjectionRow \<Rightarrow> bool" where
  "manifest_ok se provenance t row proj \<longleftrightarrow>
     tb_user_version t = 3 \<and> tb_manifest t = [row] \<and> tb_projection t = [proj] \<and>
     mf_schema_version row = 3 \<and> mf_format_version row = 1 \<and> mf_session_id row = pv_session_id provenance \<and>
     mf_head_sequence row = log_length t \<and> mf_creation_provenance_json row = provenance \<and>
     (\<exists>input payload. CreationProvenance_request se provenance = Ok input \<and>
        mf_created_at_ms row = pv_created_at_ms provenance \<and> mf_workspace_json row = cs_workspace input \<and>
        ev_payload_json (hd (tb_events t)) = SessionCreated payload \<and> creation_matches provenance input (hd (tb_events t)) payload \<and>
        (log_length t = 1 \<longrightarrow> mf_title row = cs_title input)) \<and>
     validate_workspace (mf_workspace_json row) = Ok () \<and>
     0 \<le> mf_updated_at_ms row \<and> ev_created_at_ms (last (tb_events t)) = mf_updated_at_ms row \<and>
     ev_event_version (last (tb_events t)) = 1 \<and>
     (ev_event_type (last (tb_events t)) = ''session.renamed'' \<longrightarrow> ev_payload_json (last (tb_events t)) = SessionRenamed (mf_title row)) \<and>
     pj_format_version proj = 1 \<and> pj_applied_sequence proj = log_length t \<and> metadata t \<noteq> [] \<and>
     pj_metadata_sequence proj = ev_sequence (last (metadata t)) \<and>
     ev_event_type (last (metadata t)) = (if pj_metadata_sequence proj = 1 then ''session.created'' else ''session.renamed'')"

definition manifest_of :: "ManifestRow \<Rightarrow> SessionManifest" where
  "manifest_of row = \<lparr>sm_session_id = mf_session_id row, sm_title = mf_title row, sm_workspace = mf_workspace_json row,
     sm_created_at_ms = mf_created_at_ms row, sm_updated_at_ms = mf_updated_at_ms row,
     sm_head_sequence = of_int (mf_head_sequence row)\<rparr>"

lemma manifest_ok_validates:
  assumes log: "log_ok se session t" "0 < log_length t" and m: "manifest_ok se provenance t row proj"
  shows "validate_manifest se (pv_session_id provenance) (Some provenance) t = Ok (manifest_of row)"
    "validate_manifest se (pv_session_id provenance) None t = Ok (manifest_of row)"
proof -
  have last_meta: "last (metadata t) \<in> set (metadata t)" using m by (intro last_in_set) (simp add: manifest_ok_def)
  then have bounds: "1 \<le> ev_sequence (last (metadata t))" "ev_sequence (last (metadata t)) \<le> log_length t" "ev_run_id (last (metadata t)) = None"
    using log_member [OF log(1)] by auto
  have ok: "projection t (log_length t) = Ok ()"
    using m bounds by (auto simp: projection_def manifest_ok_def log_metadata [OF log(1)] reject_if_def)
  from m obtain input payload where c: "CreationProvenance_request se provenance = Ok input"
        "mf_created_at_ms row = pv_created_at_ms provenance" "mf_workspace_json row = cs_workspace input"
        "ev_payload_json (hd (tb_events t)) = SessionCreated payload" "creation_matches provenance input (hd (tb_events t)) payload"
        "log_length t = 1 \<longrightarrow> mf_title row = cs_title input" by (auto simp: manifest_ok_def)
  have r: "tb_user_version t = 3" "tb_manifest t = [row]" "mf_schema_version row = 3" "mf_format_version row = 1"
     "mf_session_id row = pv_session_id provenance" "mf_head_sequence row = log_length t" "mf_creation_provenance_json row = provenance"
     "validate_workspace (mf_workspace_json row) = Ok ()" "0 \<le> mf_updated_at_ms row" "ev_created_at_ms (last (tb_events t)) = mf_updated_at_ms row"
     "ev_event_version (last (tb_events t)) = 1"
     "ev_event_type (last (tb_events t)) = ''session.renamed'' \<longrightarrow> ev_payload_json (last (tb_events t)) = SessionRenamed (mf_title row)"
    using m by (simp_all add: manifest_ok_def)
  have s: "schema_version t = Ok 3" by (simp add: schema_version_def r(1))
  show "validate_manifest se (pv_session_id provenance) (Some provenance) t = Ok (manifest_of row)"
    "validate_manifest se (pv_session_id provenance) None t = Ok (manifest_of row)"
    unfolding validate_manifest_def s and_then.simps r(2) list.case Let_def r(6,7) log_max [OF log] log_first [OF log] log_latest [OF log] c(1) ok
    using r c log by (simp_all add: reject_if_def manifest_of_def)
qed

lemma manifest_after_run:
  assumes m: "manifest_ok se provenance t row proj" and n: "0 < log_length t" and g: "grown t rows t'" "rows \<noteq> []"
    and rows: "\<And>r. r \<in> set rows \<Longrightarrow> ev_run_id r \<noteq> None \<and> ev_created_at_ms r = timestamp \<and> ev_event_version r = 1 \<and>
        ev_event_type r \<noteq> ''session.renamed''"
    and ts: "0 \<le> timestamp"
    and t'': "tb_events t'' = tb_events t'" "tb_projection t'' = tb_projection t'" "tb_user_version t'' = tb_user_version t'"
      "tb_manifest t'' = map (\<lambda>r. r\<lparr>mf_head_sequence := log_length t', mf_updated_at_ms := timestamp\<rparr>) (tb_manifest t')"
  shows "manifest_ok se provenance t'' (row\<lparr>mf_head_sequence := log_length t', mf_updated_at_ms := timestamp\<rparr>)
    (proj\<lparr>pj_applied_sequence := log_length t'\<rparr>)"
proof -
  have e: "tb_events t'' = tb_events t @ rows" "tb_events t \<noteq> []" using g n by (auto simp: grown_def t'')
  have "filter (\<lambda>r. ev_run_id r = None) rows = []" using rows by (simp add: filter_empty_conv)
  then have meta: "metadata t'' = metadata t" by (simp add: e(1))
  have l: "last (tb_events t'') = last rows" "last rows \<in> set rows" "hd (tb_events t'') = hd (tb_events t)"
    using g(2) e by simp_all
  have "1 \<le> length (tb_events t)" "1 \<le> length rows" using n g(2) by (simp_all add: Suc_le_eq)
  then have len: "log_length t'' = log_length t'" "log_length t'' \<noteq> 1" using e by (simp_all add: t'')
  show ?thesis
    using m rows [OF l(2)] ts g(1) len unfolding manifest_ok_def meta l(1,3) by (auto simp: grown_def t'')
qed

lemma manifest_after_rename:
  assumes m: "manifest_ok se provenance t row proj" and n: "0 < log_length t"
    and e: "tb_events t' = tb_events t @ [r]" and r: "ev_run_id r = None" "ev_created_at_ms r = timestamp" "ev_event_version r = 1"
      "ev_event_type r = ''session.renamed''" "ev_payload_json r = SessionRenamed title" "ev_sequence r = log_length t + 1"
    and ts: "0 \<le> timestamp"
    and t': "tb_user_version t' = tb_user_version t"
      "tb_projection t' = map (\<lambda>r. r\<lparr>pj_metadata_sequence := log_length t + 1, pj_applied_sequence := log_length t + 1\<rparr>) (tb_projection t)"
      "tb_manifest t' = map (\<lambda>r. r\<lparr>mf_title := title, mf_updated_at_ms := timestamp, mf_head_sequence := log_length t + 1\<rparr>) (tb_manifest t)"
  shows "manifest_ok se provenance t' (row\<lparr>mf_title := title, mf_updated_at_ms := timestamp, mf_head_sequence := log_length t + 1\<rparr>)
    (proj\<lparr>pj_metadata_sequence := log_length t + 1, pj_applied_sequence := log_length t + 1\<rparr>)"
proof -
  have h: "hd (tb_events t') = hd (tb_events t)" "last (tb_events t') = r" "metadata t' = metadata t @ [r]" using e n r(1) by simp_all
  have len: "log_length t' = log_length t + 1" by (simp add: e)
  show ?thesis using m r ts n unfolding manifest_ok_def h len by (auto simp: t')
qed

section \<open>Commands\<close>

definition command_reads :: "str \<Rightarrow> 'd tables \<Rightarrow> CommandRow \<Rightarrow> bool" where
  "command_reads session t row \<longleftrightarrow>
     CommitReceipt_try_from (cm_receipt_json row) = Ok (cm_receipt_json row) \<and>
     rc_operation_id (cm_receipt_json row) = cm_operation_id row \<and> rc_session_id (cm_receipt_json row) = session \<and>
     1 < cm_first_sequence row \<and> rc_first_sequence (cm_receipt_json row) = of_int (cm_first_sequence row) \<and>
     rc_last_sequence (cm_receipt_json row) = of_int (cm_last_sequence row) \<and> cm_last_sequence row \<le> log_length t \<and>
     length (cm_payload_hash row) = 32"

definition command_of :: "CommandRow \<Rightarrow> Command" where
  "command_of row = \<lparr>cd_method = cm_method row, cd_payload_hash = cm_payload_hash row, cd_receipt = cm_receipt_json row\<rparr>"

abbreviation command_row :: "'d tables \<Rightarrow> str \<Rightarrow> CommandRow option" where
  "command_row t operation \<equiv> List.find (\<lambda>r. cm_operation_id r = operation) (tb_commands t)"

lemma command_Ok:
  assumes c: "\<And>row. row \<in> set (tb_commands t) \<Longrightarrow> command_reads session t row" and m: "manifest_ok se provenance t row proj"
  shows "command session t operation = Ok (map_option command_of (command_row t operation))"
proof (cases "command_row t operation")
  case (Some r)
  then have "r \<in> set (tb_commands t)" "cm_operation_id r = operation" by (auto simp: find_Some_iff)
  with c have "command_reads session t r" "cm_operation_id r = operation" by auto
  moreover have "tb_manifest t = [row]" "mf_head_sequence row = log_length t" using m by (simp_all add: manifest_ok_def)
  ultimately show ?thesis using Some by (simp add: command_def command_reads_def command_of_def reject_if_def)
qed (simp add: command_def)

text \<open>A session database in order: its rows read, its manifest validates, its commands read.\<close>

definition store_ok :: "('u, 'd) store_env \<Rightarrow> CreationProvenance \<Rightarrow> 'd tables \<Rightarrow> bool" where
  "store_ok se provenance t \<longleftrightarrow>
     store_reads se (pv_session_id provenance) t \<and> (\<exists>row proj. manifest_ok se provenance t row proj) \<and>
     (\<forall>row \<in> set (tb_commands t). command_reads (pv_session_id provenance) t row)"

lemma store_ok_manifest:
  assumes "store_ok se provenance t"
  obtains row where "validate_manifest se (pv_session_id provenance) (Some provenance) t = Ok (manifest_of row)"
    "sm_head_sequence (manifest_of row) = of_int (log_length t)"
proof -
  from assms obtain row proj where m: "manifest_ok se provenance t row proj" and r: "store_reads se (pv_session_id provenance) t"
    by (auto simp: store_ok_def)
  have "validate_manifest se (pv_session_id provenance) (Some provenance) t = Ok (manifest_of row)"
    using r by (intro manifest_ok_validates [OF _ _ m]) (auto simp: store_reads_def)
  moreover have "sm_head_sequence (manifest_of row) = of_int (log_length t)" using m by (simp add: manifest_of_def manifest_ok_def)
  ultimately show ?thesis by (rule that)
qed

lemma store_ok_command:
  assumes "store_ok se provenance t"
  shows "command (pv_session_id provenance) t operation = Ok (map_option command_of (command_row t operation))"
proof -
  from assms obtain row proj where m: "manifest_ok se provenance t row proj" by (auto simp: store_ok_def)
  show ?thesis by (rule command_Ok [OF _ m]) (use assms in \<open>simp add: store_ok_def\<close>)
qed

lemma next_sequence_log:
  assumes "log_ok se session t" "next_sequence (of_int (log_length t)) = Ok n"
  shows "n = log_length t + 1" "n < 2 ^ 63"
proof -
  have l: "0 \<le> log_length t" "log_length t < 2 ^ 63" using assms(1) by (simp_all add: log_ok_def)
  have "i64_try_from_u64 (of_int (log_length t + 1)) = Some n"
    using assms(2) unfolding next_sequence_def checked_add_u64_i64 [OF l] by (auto simp: wi_results simp del: of_int_add)
  then have n: "n = uint (of_int (log_length t + 1) :: u64)" "unat (of_int (log_length t + 1) :: u64) < 2 ^ 63"
    by (auto simp: i64_try_from_u64_def split: if_splits)
  show "n = log_length t + 1" unfolding n(1) uint_word_of_int using l by (subst mod_pos_pos_trivial) simp_all
  show "n < 2 ^ 63" unfolding n(1) uint_nat using n(2) by (metis of_nat_less_iff of_nat_numeral of_nat_power)
qed

section \<open>The transactions\<close>

lemma sequence_range_log:
  assumes "log_ok se session t" "sequence_range (of_int (log_length t)) n = Ok (first, final)"
  shows "first = log_length t + 1" "final = log_length t + int n" "0 < n" "final < 2 ^ 63"
proof -
  from assms(2) obtain f where f: "next_sequence (of_int (log_length t)) = Ok f" "first = f" "final = f + (int n - 1)" "0 < n"
      "\<not> f + (int n - 1) \<ge> 2 ^ 63"
    by (auto simp: sequence_range_def wi_results)
  note next_sequence_log [OF assms(1) f(1)]
  with f show "first = log_length t + 1" "final = log_length t + int n" "0 < n" "final < 2 ^ 63" by simp_all
qed

definition run_rows :: "str \<Rightarrow> i64 \<Rightarrow> EventRow list \<Rightarrow> bool" where
  "run_rows run timestamp rows \<longleftrightarrow> (\<forall>r \<in> set rows. ev_run_id r = Some run \<and> ev_created_at_ms r = timestamp \<and> ev_event_version r = 1 \<and>
     ev_event_type r \<noteq> ''session.renamed'')"

lemma run_rows_new: "run_rows run timestamp [new_event n fresh timestamp run payload] \<longleftrightarrow> stored_event_type payload \<noteq> ''session.renamed''"
  by (simp add: run_rows_def new_event_def)

lemma run_rows_batch: "run_rows run timestamp (batch_rows n fresh timestamp run records)"
proof (induction records arbitrary: n)
  case (Cons r records)
  have "stored_event_type (record_payload r) \<noteq> ''session.renamed''" by (cases r) simp_all
  then show ?case using Cons by (simp add: run_rows_def new_event_def)
qed (simp add: run_rows_def)

lemma length_batch_rows [simp]: "length (batch_rows n fresh timestamp run records) = length records"
  by (induction records arbitrary: n) simp_all

lemma batch_rows_Nil [simp]: "batch_rows n fresh timestamp run records = [] \<longleftrightarrow> records = []"
  by (cases records) simp_all

text \<open>The rows a mutation appends.\<close>

fun mutation_rows :: "i64 \<Rightarrow> (i64 \<Rightarrow> str) \<Rightarrow> i64 \<Rightarrow> str \<Rightarrow> str \<Rightarrow> Mutation \<Rightarrow> EventRow list" where
  "mutation_rows n fresh timestamp run owner (Accept input) = [new_event n (fresh n) timestamp run (acceptance run input owner)]"
| "mutation_rows n fresh timestamp run owner (AcceptHistory input selection) =
     [new_event n (fresh n) timestamp run (acceptance run input owner),
      new_event (n + 1) (fresh (n + 1)) timestamp run (RunHistorySelected \<lparr>hp_run_id = run, hp_selection = selection\<rparr>)]"
| "mutation_rows n fresh timestamp run owner (Append records) = batch_rows n fresh timestamp run records"

fun accepts :: "Mutation \<Rightarrow> RecordedRunInput option" where
  "accepts (Accept input) = Some input"
| "accepts (AcceptHistory input selection) = Some input"
| "accepts (Append records) = None"

lemma mutation_rows_run: "run_rows run timestamp (mutation_rows n fresh timestamp run owner mutation)"
  by (cases mutation) (simp_all add: run_rows_batch, simp_all add: run_rows_def new_event_def)

lemma mutation_rows_length [simp]: "length (mutation_rows n fresh timestamp run owner mutation) = mutation_count mutation"
  by (cases mutation) simp_all

text \<open>The arguments a caller can pass: parsed ids, and values of checked types.\<close>

definition call_ok :: "('u, 'd) store_env \<Rightarrow> str \<Rightarrow> StorageError + i64 \<Rightarrow> (i64 \<Rightarrow> str) \<Rightarrow> str \<Rightarrow> str \<Rightarrow> Mutation \<Rightarrow> bool" where
  "call_ok se owner now fresh operation run mutation \<longleftrightarrow>
     ids_ok se fresh \<and> (\<forall>timestamp. now = Ok timestamp \<longrightarrow> 0 \<le> timestamp) \<and>
     storage_id_from_str (se_uuid se) operation = Ok operation \<and>
     parse_run_id (se_uuid se) owner = Ok owner \<and> parse_run_id (se_uuid se) run = Ok run \<and> mutation_typed se mutation"

lemma accept_event_ok:
  assumes "ids_ok se fresh" "0 \<le> timestamp" "parse_run_id (se_uuid se) owner = Ok owner" "parse_run_id (se_uuid se) run = Ok run"
    and "RecordedRunInput_try_from (se_crates se) input = Ok input" "n < 2 ^ 63"
  shows "event_ok se n (fresh n) timestamp run (acceptance run input owner)"
  using assms by (simp add: event_ok_def ids_ok_def payload_ok_def decode_accepted_def)

lemma select_event_ok:
  assumes "ids_ok se fresh" "0 \<le> timestamp" "parse_run_id (se_uuid se) run = Ok run"
    and "StoredHistorySelection_try_from (se_crates se) selection = Ok selection" "0 \<le> n" "n + 2 < 2 ^ 63" "sel_through_sequence selection = of_int n"
  shows "event_ok se (n + 2) (fresh (n + 2)) timestamp run (RunHistorySelected \<lparr>hp_run_id = run, hp_selection = selection\<rparr>)"
proof -
  have "unat (of_int n :: u64) < 2 ^ 63" using of_i64_small [of n] assms(5,6) by (simp add: i64_bounds)
  then have "checked_add_u64 (of_int n) 2 = Some (of_int (n + 2))" by (simp add: checked_add_u64_def)
  then show ?thesis using assms by (simp add: event_ok_def ids_ok_def payload_ok_def decode_selected_def)
qed

lemma collected: "collect_results f xs = Ok ys \<Longrightarrow> x \<in> set xs \<Longrightarrow> \<exists>y. f x = Ok y"
  by (auto simp: collect_results_Ok_iff in_set_conv_nth list_all2_conv_all_nth)

lemma append_validated:
  assumes "mutation_checks se session run manifest (Append records) t = Ok ()" "r \<in> set records"
  shows "AppendRunRecord_validate (se_uuid se) r = Ok ()"
proof -
  from assms(1) obtain us where "collect_results (validate_admission (se_uuid se)) records = Ok us"
    by (auto simp: mutation_checks_def and_then_Ok_iff)
  then obtain u where "validate_admission (se_uuid se) r = Ok u" using collected [OF _ assms(2)] by blast
  then show ?thesis by (auto simp: validate_admission_def wi_results)
qed

lemma load_batch_tracks:
  assumes "store_reads se session t" "load_batch se session run t = Ok (r, correlation, unbound)"
  shows "tracks se session t r" "rec_run_id r = run"
proof -
  from assms(2) have "run_record se session t run = Ok (Some r)" by (auto simp: load_batch_def wi_results)
  then obtain row where row: "run_row t run = Some row" "run_of_row se session t row = Ok r"
    by (cases "run_row t run") (auto simp: run_record_def wi_results)
  then have id: "rn_run_id row = run" "row \<in> set (tb_runs t)" by (auto simp: run_row_def find_Some_iff)
  then show "rec_run_id r = run" using row(2) by (auto elim: run_of_row_OkE)
  then show "tracks se session t r" using row id assms(1)
    by (auto simp: tracks_def reads_as_def store_reads_def runs_read_def intro!: exI [of _ "rec_result r"])
qed

lemma mutation_effect_keeps:
  assumes t: "store_reads se session t" and call: "call_ok se owner now fresh operation run mutation" "now = Ok timestamp"
    and checks: "mutation_checks se session run manifest mutation t = Ok ()" "sm_head_sequence manifest = of_int (log_length t)"
    and range: "0 < mutation_count mutation" "final = log_length t + int (mutation_count mutation)" "final < 2 ^ 63"
    and eff: "mutation_effect se session owner run (log_length t + 1) final fresh timestamp mutation t = (Ok u, t')"
  shows "store_reads se session t' \<and> grown t (mutation_rows (log_length t + 1) fresh timestamp run owner mutation) t' \<and>
    (\<forall>input. accepts mutation = Some input \<longrightarrow> run_record se session t' run = Ok (Some (accepted_run run (log_length t + 1) input owner)))"
proof -
  have c: "ids_ok se fresh" "0 \<le> timestamp" "parse_run_id (se_uuid se) owner = Ok owner" "parse_run_id (se_uuid se) run = Ok run"
      "mutation_typed se mutation"
    using call by (auto simp: call_ok_def)
  show ?thesis
  proof (cases mutation)
    case (Accept input)
    have e: "event_ok se (log_length t + 1) (fresh (log_length t + 1)) timestamp run (acceptance run input owner)"
      using c range Accept by (intro accept_event_ok) auto
    have "accept_run se owner (log_length t + 1) (fresh (log_length t + 1)) timestamp run input t = (Ok u, t')"
      using eff Accept by (simp add: mutation_effect_def)
    note k = accept_run_keeps [OF t e this]
    show ?thesis using k Accept by simp
  next
    case (AcceptHistory input selection)
    then have final: "final = log_length t + 2" and through: "sel_through_sequence selection = of_int (log_length t)"
      using range(2) checks by (auto simp: mutation_checks_def wi_results)
    have e: "event_ok se (log_length t + 1) (fresh (log_length t + 1)) timestamp run (acceptance run input owner)"
      using c range AcceptHistory by (intro accept_event_ok) auto
    from eff AcceptHistory obtain u1 t1 where
        acc: "accept_run se owner (log_length t + 1) (fresh (log_length t + 1)) timestamp run input t = (Ok u1, t1)"
      and sel: "select_history se final (fresh final) timestamp run selection t1 = (Ok u, t')"
      by (auto simp: mutation_effect_def prog_Ok)
    note k = accept_run_keeps [OF t e acc]
    have len: "final = log_length t1 + 1" "log_length t1 = log_length t + 1" using grown_length [OF k(3)] final by simp_all
    have e2: "event_ok se final (fresh final) timestamp run (RunHistorySelected \<lparr>hp_run_id = run, hp_selection = selection\<rparr>)"
      unfolding final using c AcceptHistory range(3) final through by (intro select_event_ok) auto
    note k2 = select_history_keeps [OF k(1) e2 [unfolded len(1)] sel [unfolded len(1)]]
    have x: "extends t1 t'" using k2(3) by (simp add: extends_def grown_def)
    show ?thesis
      using k2(1) grown_trans [OF k(3) k2(3)] extends_record [OF k(2) x k2(2)] by (simp add: AcceptHistory len(2))
  next
    case (Append records)
    from eff Append obtain r correlation unbound st where load: "load_batch se session run t = Ok (r, correlation, unbound)"
      and run: "append_records se session (log_length t + 1) fresh timestamp records (r, correlation, unbound) t = (Ok st, t')"
      by (auto simp: mutation_effect_def sql_Ok)
    obtain run' c' b' where st: "st = (run', c', b')" by (cases st)
    note tr = load_batch_tracks [OF t load]
    have valid: "AppendRunRecord_validate (se_uuid se) r = Ok () \<and> record_typed se r" if "r \<in> set records" for r
      using that c(5) Append append_validated [OF checks(1) [unfolded Append] that] by (auto simp: list_all_iff)
    have "store_reads se session t' \<and> tracks se session t' run' \<and> rec_run_id run' = rec_run_id r \<and>
      (if records = [] then t' = t else grown t (batch_rows (log_length t + 1) fresh timestamp (rec_run_id r) records) t')"
      by (rule append_records_keeps [OF t tr(1) c(1,2) _ _ valid run [unfolded st]]) (use c(4) tr(2) range Append in auto)
    then show ?thesis using range(1) Append tr(2) by auto
  qed
qed

lemma store_reads_same:
  assumes e: "tb_events t' = tb_events t" "tb_runs t' = tb_runs t" "tb_tools t' = tb_tools t" and "schema_ok t'" "store_reads se session t"
  shows "store_reads se session t'"
  using assms(4,5) unfolding store_reads_def log_ok_def runs_read_def tools_read_def e run_of_row_log [OF e(1)] tool_of_row_log [OF e(1)]
  by blast

lemma command_reads_grows: "command_reads session t row \<Longrightarrow> log_length t \<le> log_length t' \<Longrightarrow> command_reads session t' row"
  by (simp add: command_reads_def)

lemma receipt_reads:
  assumes "CommitReceipt_run_batch operation session run first final = Ok receipt"
  shows "CommitReceipt_try_from receipt = Ok receipt"
    "receipt = \<lparr>rc_operation_id = operation, rc_session_id = session, rc_run_id = Some run, rc_first_sequence = of_int first, rc_last_sequence = of_int final\<rparr>"
  using assms by (auto simp: CommitReceipt_run_batch_def CommitReceipt_try_from_def wi_results u64_try_from_i64_def split: if_splits)

lemma new_command_keeps:
  assumes t: "store_ok se provenance t" and call: "call_ok se owner now fresh operation run mutation"
    and cmd: "new_command se provenance owner now fresh operation run mutation t = (Ok receipt, t')"
  shows "store_ok se provenance t'"
    "tb_commands t' = tb_commands t @ [\<lparr>cm_operation_id = operation, cm_method = Mutation_method mutation,
       cm_payload_hash = command_hash se (pv_session_id provenance) run mutation, cm_first_sequence = log_length t + 1,
       cm_last_sequence = log_length t', cm_receipt_json = receipt\<rparr>]"
    "receipt = \<lparr>rc_operation_id = operation, rc_session_id = pv_session_id provenance, rc_run_id = Some run,
       rc_first_sequence = of_int (log_length t + 1), rc_last_sequence = of_int (log_length t')\<rparr>"
    "\<exists>timestamp. now = Ok timestamp \<and> tb_events t' = tb_events t @ mutation_rows (log_length t + 1) fresh timestamp run owner mutation"
    "\<forall>input. accepts mutation = Some input \<longrightarrow>
       run_record se (pv_session_id provenance) t' run = Ok (Some (accepted_run run (log_length t + 1) input owner))"
    "mutation_checks se (pv_session_id provenance) run (manifest_of (hd (tb_manifest t))) mutation t = Ok ()"
    "map mf_title (tb_manifest t') = map mf_title (tb_manifest t)"
proof -
  let ?s = "pv_session_id provenance"
  from t obtain row proj where reads: "store_reads se ?s t" and m: "manifest_ok se provenance t row proj"
    and cr: "\<And>row. row \<in> set (tb_commands t) \<Longrightarrow> command_reads ?s t row" by (auto simp: store_ok_def)
  have log: "log_ok se ?s t" "0 < log_length t" using reads by (simp_all add: store_reads_def)
  have valid: "validate_manifest se ?s (Some provenance) t = Ok (manifest_of row)" by (rule manifest_ok_validates [OF log m])
  have head: "sm_head_sequence (manifest_of row) = of_int (log_length t)" using m by (simp add: manifest_of_def manifest_ok_def)
  let ?c = "\<lambda>first final. \<lparr>cm_operation_id = operation, cm_method = Mutation_method mutation,
      cm_payload_hash = command_hash se ?s run mutation, cm_first_sequence = first, cm_last_sequence = final, cm_receipt_json = receipt\<rparr>"
  from cmd obtain first final timestamp t1 where
      checks: "mutation_checks se ?s run (manifest_of row) mutation t = Ok ()"
    and range: "sequence_range (of_int (log_length t)) (mutation_count mutation) = Ok (first, final)" and now: "now = Ok timestamp"
    and eff: "mutation_effect se ?s owner run first final fresh timestamp mutation t = (Ok (), t1)"
    and receipt: "CommitReceipt_run_batch operation ?s run first final = Ok receipt"
    and t': "t' = t1\<lparr>tb_manifest := map (\<lambda>r. r\<lparr>mf_head_sequence := final, mf_updated_at_ms := timestamp\<rparr>) (tb_manifest t1),
        tb_commands := tb_commands t1 @ [?c first final]\<rparr>" "schema_ok t'"
    unfolding new_command_def Let_def by (auto simp: sql_Ok valid head update_manifest_def insert_command_def)
  note r = sequence_range_log [OF log(1) range]
  have ts: "0 \<le> timestamp" using call now by (simp add: call_ok_def)
  let ?rows = "mutation_rows (log_length t + 1) fresh timestamp run owner mutation"
  have k: "store_reads se ?s t1" "grown t ?rows t1"
      "\<forall>input. accepts mutation = Some input \<longrightarrow> run_record se ?s t1 run = Ok (Some (accepted_run run (log_length t + 1) input owner))"
    using mutation_effect_keeps [OF reads call now checks head r(3,2,4) eff [unfolded r(1)]] by simp_all
  have rows: "?rows \<noteq> []" using r(3) mutation_rows_length by (metis less_irrefl list.size(3))
  have final: "log_length t1 = final" using grown_length [OF k(2)] r(2) by simp
  have same: "tb_events t' = tb_events t1" "tb_runs t' = tb_runs t1" "tb_tools t' = tb_tools t1" by (simp_all add: t'(1))
  have reads': "store_reads se ?s t'" by (rule store_reads_same [OF same t'(2) k(1)])
  have len: "log_length t' = final" using final by (simp add: same)
  have "manifest_ok se provenance t' (row\<lparr>mf_head_sequence := log_length t1, mf_updated_at_ms := timestamp\<rparr>)
      (proj\<lparr>pj_applied_sequence := log_length t1\<rparr>)"
    by (rule manifest_after_run [OF m log(2) k(2) rows _ ts])
      (use mutation_rows_run [of run timestamp "log_length t + 1" fresh owner mutation] final in \<open>auto simp: run_rows_def t'(1)\<close>)
  moreover have "tb_commands t1 = tb_commands t" using k(2) by (simp add: grown_def)
  moreover have "command_reads ?s t' (?c first final)"
  proof -
    have "length (command_hash se ?s run mutation) = 32" using t'(2) by (simp add: t'(1) schema_ok_def commands_schema_def)
    then show ?thesis
      using receipt_reads [OF receipt] r log(2) len by (auto simp: command_reads_def)
  qed
  ultimately show "store_ok se provenance t'"
    using reads' cr command_reads_grows [of ?s t _ t'] len r by (auto simp: store_ok_def t'(1))
  show "tb_commands t' = tb_commands t @ [?c (log_length t + 1) (log_length t')]"
    using k(2) len r(1) by (simp add: t'(1) grown_def)
  show "receipt = \<lparr>rc_operation_id = operation, rc_session_id = ?s, rc_run_id = Some run,
       rc_first_sequence = of_int (log_length t + 1), rc_last_sequence = of_int (log_length t')\<rparr>"
    using receipt_reads(2) [OF receipt] r(1) len by simp
  show "\<exists>timestamp. now = Ok timestamp \<and> tb_events t' = tb_events t @ mutation_rows (log_length t + 1) fresh timestamp run owner mutation"
    using k(2) now by (simp add: grown_def same)
  show "\<forall>input. accepts mutation = Some input \<longrightarrow> run_record se ?s t' run = Ok (Some (accepted_run run (log_length t + 1) input owner))"
    using k(3) by (simp add: run_record_def run_row_def same run_of_row_log [OF same(1)])
  show "mutation_checks se ?s run (manifest_of (hd (tb_manifest t))) mutation t = Ok ()"
    using checks m by (simp add: manifest_ok_def)
  show "map mf_title (tb_manifest t') = map mf_title (tb_manifest t)" using k(2) by (simp add: t'(1) grown_def o_def)
qed

lemma mutate_keeps:
  assumes t: "store_ok se provenance t" and call: "call_ok se owner now fresh operation run mutation"
    and run: "mutate se provenance owner now fresh operation run mutation t = (r, t')"
  shows "store_ok se provenance t'" "extends t t'"
proof -
  have "store_ok se provenance t' \<and> extends t t'"
  proof (cases r)
    case (Inl e)
    then have "t' = t" using run unfolding mutate_def by (simp add: transact_Err)
    then show ?thesis using t by (simp add: ext.refl)
  next
    case (Inr a)
    then have "(\<exists>receipt. a = (receipt, True) \<and> t' = t) \<or>
        (\<exists>receipt. new_command se provenance owner now fresh operation run mutation t = (Ok receipt, t'))"
      using run unfolding mutate_def by (auto simp: transact_Ok sql_Ok split: option.splits)
    then show ?thesis using t new_command_keeps(1,4) [OF t call] by (auto simp: ext.refl extends_def)
  qed
  then show "store_ok se provenance t'" "extends t t'" by simp_all
qed

lemma renamed_row_decodes:
  assumes "1 < n" "n < 2 ^ 63" "0 \<le> timestamp" "storage_id_from_str (se_uuid se) fresh = Ok fresh"
  shows "\<exists>e. decode se session \<lparr>ev_sequence = n, ev_event_id = fresh, ev_event_type = ''session.renamed'',
      ev_event_version = 1, ev_created_at_ms = timestamp, ev_run_id = None, ev_source_event_id = None,
      ev_source_sequence = None, ev_payload_json = SessionRenamed title\<rparr> = Ok e"
proof -
  have u: "u64_try_from_i64 n = Some (of_int n)" using assms by (intro u64_try_from_i64_nonneg) auto
  have small: "(of_int n :: u64) \<le> i64_max" using assms by (intro of_i64_small) auto
  have nz: "(of_int n :: u64) \<noteq> of_int 0" and none: "(of_int n :: u64) \<noteq> of_int 1"
    using assms(1,2) by (simp_all only: of_i64_eq)
  show ?thesis using u small nz none assms(3,4)
    by (simp add: decode_def StoredEvent_try_from_def StoredEvent_payload_def reject_if_def u32_try_from_i64_def source_columns_def)
qed

lemma projector_rename_Ok:
  assumes "projector_apply se (of_int n) None ProjectRenamed t = (Ok u, t')" "0 \<le> n" "n < 2 ^ 63"
  shows "tb_projection t' = map (\<lambda>r. r\<lparr>pj_metadata_sequence := n, pj_applied_sequence := n\<rparr>) (tb_projection t)"
proof -
  have n: "i64_try_from_u64 (of_int n) = Some n" using assms(2,3) by (intro u64_i64_round_trip u64_try_from_i64_nonneg)
  show ?thesis
    using assms(1) unfolding projector_apply_def n
    by (auto simp: sql_Ok update_projection_def)
qed

definition renamed_row :: "i64 \<Rightarrow> str \<Rightarrow> i64 \<Rightarrow> str \<Rightarrow> EventRow" where
  "renamed_row n fresh timestamp title = \<lparr>ev_sequence = n, ev_event_id = fresh, ev_event_type = ''session.renamed'',
      ev_event_version = 1, ev_created_at_ms = timestamp, ev_run_id = None, ev_source_event_id = None,
      ev_source_sequence = None, ev_payload_json = SessionRenamed title\<rparr>"

lemma rename_Ok:
  assumes t: "store_ok se provenance t"
    and run: "rename_transaction se provenance now fresh operation title t = (Ok (receipt, duplicate), t')"
  shows "t' = t \<or> (\<exists>n timestamp t1 t2 u. next_sequence (of_int (log_length t)) = Ok n \<and>
     CommitReceipt_single operation (pv_session_id provenance) n = Ok receipt \<and> now = Ok timestamp \<and>
     t1 = t\<lparr>tb_events := tb_events t @ [renamed_row n fresh timestamp title],
       tb_manifest := map (\<lambda>r. r\<lparr>mf_title := title, mf_updated_at_ms := timestamp, mf_head_sequence := n\<rparr>) (tb_manifest t)\<rparr> \<and>
     schema_ok t1 \<and> projector_apply se (of_int n) None ProjectRenamed t1 = (Ok u, t2) \<and> schema_ok t' \<and>
     t' = t2\<lparr>tb_commands := tb_commands t2 @ [\<lparr>cm_operation_id = operation, cm_method = ''rename'',
       cm_payload_hash = dto_hash se (se_rename_json se (pv_session_id provenance) title),
       cm_first_sequence = n, cm_last_sequence = n, cm_receipt_json = receipt\<rparr>]\<rparr>)"
proof -
  let ?s = "pv_session_id provenance"
  obtain row where m: "validate_manifest se ?s (Some provenance) t = Ok (manifest_of row)"
      "sm_head_sequence (manifest_of row) = of_int (log_length t)" by (rule store_ok_manifest [OF t])
  show ?thesis
  proof (cases "command_row t operation")
    case None
    then have c: "command ?s t operation = Ok None" using store_ok_command [OF t] by simp
    show ?thesis using run unfolding rename_transaction_def Let_def transact_Ok
      by (auto simp: sql_Ok c m insert_event_row_def update_manifest_def insert_command_def renamed_row_def)
  next
    case (Some cmd)
    then have c: "command ?s t operation = Ok (Some (command_of cmd))" using store_ok_command [OF t] by simp
    show ?thesis using run unfolding rename_transaction_def Let_def transact_Ok by (auto simp: sql_Ok c)
  qed
qed

lemma single_reads:
  assumes "CommitReceipt_single operation session n = Ok receipt"
  shows "CommitReceipt_try_from receipt = Ok receipt"
    "receipt = \<lparr>rc_operation_id = operation, rc_session_id = session, rc_run_id = None, rc_first_sequence = of_int n, rc_last_sequence = of_int n\<rparr>"
  using assms by (auto simp: CommitReceipt_single_def CommitReceipt_try_from_def wi_results u64_try_from_i64_def split: if_splits)

text \<open>What a rename and an interruption change.\<close>

definition renamed_to :: "'d tables \<Rightarrow> 'd tables \<Rightarrow> bool" where
  "renamed_to t t' \<longleftrightarrow> (\<exists>fresh timestamp title row.
     tb_events t' = tb_events t @ [renamed_row (log_length t + 1) fresh timestamp title] \<and>
     tb_commands t' = tb_commands t @ [row] \<and> cm_method row = ''rename'' \<and>
     cm_first_sequence row = log_length t + 1 \<and> cm_last_sequence row = log_length t + 1 \<and>
     tb_runs t' = tb_runs t \<and> tb_tools t' = tb_tools t \<and> map mf_title (tb_manifest t') = map (\<lambda>_. title) (tb_manifest t))"

definition interrupted_to :: "'d tables \<Rightarrow> 'd tables \<Rightarrow> bool" where
  "interrupted_to t t' \<longleftrightarrow> (\<exists>fresh timestamp row. run_row t (rn_run_id row) = Some row \<and> unfinished row \<and>
     tb_events t' = tb_events t @ [new_event (log_length t + 1) fresh timestamp (rn_run_id row) (interruption (rn_run_id row))] \<and>
     tb_commands t' = tb_commands t \<and> tb_tools t' = tb_tools t \<and> map mf_title (tb_manifest t') = map mf_title (tb_manifest t) \<and>
     tb_runs t' = map (\<lambda>r. if rn_run_id r = rn_run_id row then r\<lparr>rn_state := ''interrupted'',
        rn_terminal_sequence := Some (log_length t + 1), rn_terminal_json := Some (interruption (rn_run_id row))\<rparr> else r) (tb_runs t))"

lemma rename_keeps:
  assumes t: "store_ok se provenance t" and ids: "storage_id_from_str (se_uuid se) fresh = Ok fresh"
    and time: "\<And>timestamp. now = Ok timestamp \<Longrightarrow> 0 \<le> timestamp"
    and run: "rename_transaction se provenance now fresh operation title t = (r, t')"
  shows "store_ok se provenance t' \<and> (t' = t \<or> renamed_to t t')"
proof (cases "t' = t")
  case True
  then show ?thesis using t by simp
next
  case False
  let ?s = "pv_session_id provenance"
  have "\<exists>receipt duplicate. r = Ok (receipt, duplicate)"
    using run False by (cases r) (auto simp: rename_transaction_def Let_def dest: transact_Err)
  then obtain receipt duplicate where ok: "rename_transaction se provenance now fresh operation title t = (Ok (receipt, duplicate), t')"
    using run by blast
  let ?c = "\<lambda>n. \<lparr>cm_operation_id = operation, cm_method = ''rename'', cm_payload_hash = dto_hash se (se_rename_json se ?s title),
      cm_first_sequence = n, cm_last_sequence = n, cm_receipt_json = receipt\<rparr>"
  from rename_Ok [OF t ok] False obtain n timestamp t1 t2 u where n: "next_sequence (of_int (log_length t)) = Ok n"
    and receipt: "CommitReceipt_single operation ?s n = Ok receipt" and now: "now = Ok timestamp"
    and t1: "t1 = t\<lparr>tb_events := tb_events t @ [renamed_row n fresh timestamp title],
       tb_manifest := map (\<lambda>r. r\<lparr>mf_title := title, mf_updated_at_ms := timestamp, mf_head_sequence := n\<rparr>) (tb_manifest t)\<rparr>" "schema_ok t1"
    and p: "projector_apply se (of_int n) None ProjectRenamed t1 = (Ok u, t2)"
    and t': "schema_ok t'" "t' = t2\<lparr>tb_commands := tb_commands t2 @ [?c n]\<rparr>"
    by blast
  from t obtain row proj where reads: "store_reads se ?s t" and m: "manifest_ok se provenance t row proj"
    and cr: "\<And>row. row \<in> set (tb_commands t) \<Longrightarrow> command_reads ?s t row" by (auto simp: store_ok_def)
  have log: "log_ok se ?s t" "0 < log_length t" using reads by (simp_all add: store_reads_def)
  note n = next_sequence_log [OF log(1) n]
  have t2: "same_records t1 t2" using display.keptD [OF display_projector p] .
  have ev: "tb_events t' = tb_events t @ [renamed_row n fresh timestamp title]" "tb_runs t' = tb_runs t" "tb_tools t' = tb_tools t"
    using t2 by (simp_all add: same_records_def t'(2) t1(1))
  obtain e where e: "decode se ?s (renamed_row n fresh timestamp title) = Ok e"
    using renamed_row_decodes [of n timestamp se fresh ?s title] n log(2) time [OF now] ids by (auto simp: renamed_row_def)
  have a: "appended se ?s t e t'"
    by (rule appended_row [OF log(1) e _ _ ev(1)]) (use n in \<open>simp_all add: renamed_row_def\<close>)
  have "store_reads se ?s t'" by (rule store_reads_appended [OF reads a t'(1) ev(2,3)])
  moreover have "manifest_ok se provenance t' (row\<lparr>mf_title := title, mf_updated_at_ms := timestamp, mf_head_sequence := log_length t + 1\<rparr>)
      (proj\<lparr>pj_metadata_sequence := log_length t + 1, pj_applied_sequence := log_length t + 1\<rparr>)"
    by (rule manifest_after_rename [OF m log(2) ev(1)])
      (use t2 projector_rename_Ok [OF p] n time [OF now] in \<open>simp_all add: renamed_row_def t'(2) t1(1) same_records_def\<close>)
  moreover have "command_reads ?s t' (?c n)"
  proof -
    have "length (dto_hash se (se_rename_json se ?s title)) = 32" using t' by (simp add: schema_ok_def commands_schema_def)
    then show ?thesis using single_reads [OF receipt] n log(2) ev(1) by (auto simp: command_reads_def)
  qed
  moreover have c: "tb_commands t' = tb_commands t @ [?c n]" using t2 by (simp add: t'(2) same_records_def t1(1))
  ultimately have "store_ok se provenance t'"
    using cr command_reads_grows [of ?s t _ t'] ev(1) by (auto simp: store_ok_def)
  moreover have "map mf_title (tb_manifest t') = map (\<lambda>_. title) (tb_manifest t)" using t2 by (simp add: t'(2) same_records_def t1(1))
  then have "renamed_to t t'"
    unfolding renamed_to_def using ev c n(1) by (intro exI [of _ fresh] exI [of _ timestamp] exI [of _ title] exI [of _ "?c n"]) simp
  ultimately show ?thesis by simp
qed

lemma find_distinct_Some: "distinct (map key rows) \<Longrightarrow> row \<in> set rows \<Longrightarrow> List.find (\<lambda>r. key r = key row) rows = Some row"
  by (induction rows) auto

lemma reconcile_keeps:
  assumes t: "store_ok se provenance t" and ids: "storage_id_from_str (se_uuid se) fresh = Ok fresh"
    and time: "\<And>timestamp. now = Ok timestamp \<Longrightarrow> 0 \<le> timestamp"
    and run: "reconcile se provenance owner now fresh t = (r, t')"
  shows "store_ok se provenance t' \<and> (t' = t \<or> interrupted_to t t')"
proof (cases "t' = t")
  case True
  then show ?thesis using t by simp
next
  case False
  let ?s = "pv_session_id provenance"
  have "r = Ok ()" using run False by (cases r) (auto simp: reconcile_def Let_def dest: transact_Err)
  then have ok: "reconcile se provenance owner now fresh t = (Ok (), t')" using run by simp
  from t obtain mrow proj where reads: "store_reads se ?s t" and m: "manifest_ok se provenance t mrow proj"
    and cr: "\<And>row. row \<in> set (tb_commands t) \<Longrightarrow> command_reads ?s t row" by (auto simp: store_ok_def)
  have log: "log_ok se ?s t" "0 < log_length t" using reads by (simp_all add: store_reads_def)
  have valid: "validate_manifest se ?s (Some provenance) t = Ok (manifest_of mrow)" by (rule manifest_ok_validates [OF log m])
  have head: "sm_head_sequence (manifest_of mrow) = of_int (log_length t)" using m by (simp add: manifest_of_def manifest_ok_def)
  from ok False obtain row run n timestamp t1 t2 t3 u u' where row: "List.find (\<lambda>r. unfinished r \<and> rn_owner_instance_id r \<noteq> owner) (tb_runs t) = Some row"
    and id: "parse_run_id (se_uuid se) (rn_run_id row) = Ok run" and n: "next_sequence (of_int (log_length t)) = Ok n" and now: "now = Ok timestamp"
    and ins: "insert_event n fresh timestamp run (interruption run) None t = (Ok u, t1)"
    and t2: "t2 = t1\<lparr>tb_runs := map (\<lambda>r. if rn_run_id r = run then r\<lparr>rn_state := ''interrupted'', rn_terminal_sequence := Some n,
        rn_terminal_json := Some (interruption run)\<rparr> else r) (tb_runs t1)\<rparr>" "schema_ok t2"
    and t3: "t3 = t2\<lparr>tb_manifest := map (\<lambda>r. r\<lparr>mf_head_sequence := n, mf_updated_at_ms := timestamp\<rparr>) (tb_manifest t2)\<rparr>" "schema_ok t3"
    and p: "projector_apply se (of_int n) (Some run) ProjectInterrupted t3 = (Ok u', t')"
    unfolding reconcile_def Let_def transact_Ok
    by (auto simp: sql_Ok valid head update_run_def update_manifest_def wi_results split: option.splits)
  note n = next_sequence_log [OF log(1) n]
  have run: "run = rn_run_id row" using parse_run_id_same [OF id] .
  have mem: "row \<in> set (tb_runs t)" "unfinished row" using row by (auto simp: find_Some_iff)
  have rr: "run_row t run = Some row"
    unfolding run_row_def run using reads by (intro find_distinct_Some [OF runs_distinct mem(1)]) (simp add: store_reads_def)
  have e: "event_ok se (log_length t + 1) fresh timestamp run (interruption run)"
    using n ids time [OF now] id run by (simp add: event_ok_def payload_ok_def)
  note t1 = insert_event_Ok [OF ins [unfolded n(1)] reads e, unfolded run_columns, simplified]
  have "store_reads se ?s t2"
    by (rule interrupt_keeps [OF reads rr mem(2) t1(3) _ _ t2 [unfolded n(1)]]) (simp_all add: t1(1))
  then have r3: "store_reads se ?s t3" by (rule store_reads_same [rotated 4, OF _ _ _ _ t3(2)]) (simp_all add: t3(1))
  have t': "same_records t3 t'" "schema_ok t'"
    using display.keptD [OF display_projector p] sch.keptD [OF schema_projector p] t3(2) by auto
  have reads': "store_reads se ?s t'" by (rule same_records_reads [OF t' r3])
  have proj: "tb_projection t' = map (\<lambda>r. r\<lparr>pj_applied_sequence := n\<rparr>) (tb_projection t3)" using projector_run_Ok [OF p] n by simp
  let ?rows = "[new_event (log_length t + 1) fresh timestamp run (interruption run)]"
  have ev: "tb_events t' = tb_events t @ ?rows" "tb_commands t' = tb_commands t"
    using t'(1) by (simp_all add: same_records_def t3(1) t2(1) t1(1))
  let ?t = "t\<lparr>tb_events := tb_events t @ ?rows, tb_projection := tb_projection t'\<rparr>"
  have g: "grown t ?rows ?t" by (simp add: grown_def proj t3(1) t2(1) t1(1) n(1))
  have "manifest_ok se provenance t' (mrow\<lparr>mf_head_sequence := log_length ?t, mf_updated_at_ms := timestamp\<rparr>)
      (proj\<lparr>pj_applied_sequence := log_length ?t\<rparr>)"
    by (rule manifest_after_run [OF m log(2) g _ _ time [OF now]])
      (use t'(1) n in \<open>auto simp: same_records_def t3(1) t2(1) t1(1) new_event_def\<close>)
  then have "store_ok se provenance t'"
    using reads' cr command_reads_grows [of ?s t _ t'] ev by (auto simp: store_ok_def)
  moreover have "interrupted_to t t'"
    unfolding interrupted_to_def using ev rr mem(2) t'(1) n(1)
    by (intro exI [of _ fresh] exI [of _ timestamp] exI [of _ row]) (simp add: run same_records_def t3(1) t2(1) t1(1) o_def)
  ultimately show ?thesis by simp
qed

section \<open>Creation\<close>

definition provenance_typed :: "('u, 'd) store_env \<Rightarrow> CreationProvenance \<Rightarrow> bool" where
  "provenance_typed se provenance \<longleftrightarrow>
     (\<forall>x \<in> {pv_operation_id provenance, pv_session_id provenance, pv_creation_event_id provenance}.
        storage_id_from_str (se_uuid se) x = Ok x)"

definition created_row :: "CreationProvenance \<Rightarrow> CreateSession \<Rightarrow> EventRow" where
  "created_row provenance input = \<lparr>ev_sequence = 1, ev_event_id = pv_creation_event_id provenance,
     ev_event_type = ''session.created'', ev_event_version = 1, ev_created_at_ms = pv_created_at_ms provenance,
     ev_run_id = None, ev_source_event_id = None, ev_source_sequence = None,
     ev_payload_json = SessionCreated \<lparr>cp_title = cs_title input, cp_workspace = cs_workspace input, cp_creation_provenance = provenance\<rparr>\<rparr>"

definition created_tables :: "('u, 'd) store_env \<Rightarrow> CreationProvenance \<Rightarrow> CreateSession \<Rightarrow> 'd tables" where
  "created_tables se provenance input = (empty_tables se)\<lparr>
     tb_manifest := [\<lparr>mf_session_id = pv_session_id provenance,
        mf_schema_version = 3, mf_format_version = 1, mf_title = cs_title input, mf_workspace_json = cs_workspace input,
        mf_created_at_ms = pv_created_at_ms provenance, mf_updated_at_ms = pv_created_at_ms provenance,
        mf_head_sequence = 1, mf_creation_provenance_json = provenance\<rparr>],
     tb_events := [created_row provenance input],
     tb_projection := [\<lparr>pj_format_version = 1, pj_applied_sequence = 1, pj_metadata_sequence = 1\<rparr>]\<rparr>"

lemma initialize_Ok:
  assumes "initialize se provenance = Ok (manifest, t)"
  obtains input where "CreationProvenance_request se provenance = Ok input" "t = created_tables se provenance input" "schema_ok t"
proof -
  have one: "i64_try_from_u64 1 = Some 1" by (simp add: i64_try_from_u64_def)
  from assms show ?thesis
    unfolding initialize_def projector_apply_def one
    by (auto simp: transact_Ok sql_Ok insert_event_row_def empty_tables_def created_tables_def created_row_def intro: that split: prod.splits sum.splits)
qed

lemma request_created:
  assumes "CreationProvenance_request se provenance = Ok input"
  shows "0 \<le> pv_created_at_ms provenance" "CommitReceipt_try_from (pv_receipt provenance) = Ok (pv_receipt provenance)"
    "validate_workspace (cs_workspace input) = Ok ()"
proof -
  from assms obtain r where r: "0 \<le> pv_created_at_ms provenance" "CommitReceipt_single (pv_operation_id provenance) (pv_session_id provenance) 1 = Ok (pv_receipt provenance)"
     "validate_workspace (cs_workspace input) = Ok ()"
    by (auto simp: CreationProvenance_request_def CreateSession_new_def wi_results linorder_not_less)
  then show "0 \<le> pv_created_at_ms provenance" "CommitReceipt_try_from (pv_receipt provenance) = Ok (pv_receipt provenance)"
    "validate_workspace (cs_workspace input) = Ok ()" using single_reads(1) by simp_all
qed

lemma created_row_decodes:
  assumes "CreationProvenance_request se provenance = Ok input" "provenance_typed se provenance"
  shows "\<exists>e. decode se (pv_session_id provenance) (created_row provenance input) = Ok e"
proof -
  have ids: "storage_id_from_str (se_uuid se) (pv_operation_id provenance) = Ok (pv_operation_id provenance)"
     "storage_id_from_str (se_uuid se) (pv_session_id provenance) = Ok (pv_session_id provenance)"
     "storage_id_from_str (se_uuid se) (pv_creation_event_id provenance) = Ok (pv_creation_event_id provenance)"
    using assms(2) by (simp_all add: provenance_typed_def)
  have one: "u64_try_from_i64 1 = Some 1" "(1 :: u64) \<le> i64_max" "i64_max \<noteq> 0"
    using of_i64_small [of 1] by (simp_all add: u64_try_from_i64_def i64_max_def)
  show ?thesis
    using assms(1) request_created [OF assms(1)] ids one
    by (simp add: decode_def StoredEvent_try_from_def StoredEvent_payload_def decode_created_def reject_if_def u32_try_from_i64_def
        source_columns_def created_row_def)
qed

lemma initialize_keeps:
  assumes "initialize se provenance = Ok (manifest, t)" "provenance_typed se provenance"
  shows "store_ok se provenance t"
proof -
  obtain input where input: "CreationProvenance_request se provenance = Ok input" and t: "t = created_tables se provenance input" "schema_ok t"
    by (rule initialize_Ok [OF assms(1)])
  have ev: "tb_events t = [created_row provenance input]" "tb_runs t = []" "tb_tools t = []" "tb_commands t = []"
    by (simp_all add: t(1) created_tables_def empty_tables_def)
  have "log_ok se (pv_session_id provenance) t"
    using created_row_decodes [OF input assms(2)] by (simp add: log_ok_def ev(1)) (simp add: created_row_def)
  then have "store_reads se (pv_session_id provenance) t"
    using t(2) by (simp add: store_reads_def runs_read_def tools_read_def ev)
  moreover have "manifest_ok se provenance t (hd (tb_manifest t)) (hd (tb_projection t))"
    using request_created [OF input] input
    by (simp add: manifest_ok_def t(1) created_tables_def empty_tables_def created_row_def creation_matches_def)
  ultimately show ?thesis by (auto simp: store_ok_def ev(4))
qed

section \<open>Reachable stores\<close>

text \<open>One operation on the tables of a session database, successful or not, and the tables any sequence of them leads to.\<close>

inductive store_step :: "('u, 'd) store_env \<Rightarrow> CreationProvenance \<Rightarrow> 'd tables \<Rightarrow> 'd tables \<Rightarrow> bool" for se provenance where
  mutated: "call_ok se owner now fresh operation run mutation \<Longrightarrow>
    mutate se provenance owner now fresh operation run mutation t = (r, t') \<Longrightarrow> store_step se provenance t t'"
| renamed: "storage_id_from_str (se_uuid se) fresh = Ok fresh \<Longrightarrow> (\<And>timestamp. now = Ok timestamp \<Longrightarrow> 0 \<le> timestamp) \<Longrightarrow>
    rename_transaction se provenance now fresh operation title t = (r, t') \<Longrightarrow> store_step se provenance t t'"
| reconciled: "storage_id_from_str (se_uuid se) fresh = Ok fresh \<Longrightarrow> (\<And>timestamp. now = Ok timestamp \<Longrightarrow> 0 \<le> timestamp) \<Longrightarrow>
    reconcile se provenance owner now fresh t = (r', t') \<Longrightarrow> store_step se provenance t t'"

inductive reachable :: "('u, 'd) store_env \<Rightarrow> CreationProvenance \<Rightarrow> 'd tables \<Rightarrow> bool" for se provenance where
  created: "initialize se provenance = Ok (manifest, t) \<Longrightarrow> provenance_typed se provenance \<Longrightarrow> reachable se provenance t"
| stepped: "reachable se provenance t \<Longrightarrow> store_step se provenance t t' \<Longrightarrow> reachable se provenance t'"

lemma step_cases:
  assumes "store_step se provenance t t'" "store_ok se provenance t"
  shows "store_ok se provenance t'"
    and "t' = t \<or> renamed_to t t' \<or> interrupted_to t t' \<or>
      (\<exists>owner now fresh operation run mutation receipt. call_ok se owner now fresh operation run mutation \<and>
         command_row t operation = None \<and> new_command se provenance owner now fresh operation run mutation t = (Ok receipt, t'))"
  using assms
proof (induction rule: store_step.induct)
  case (mutated owner now fresh operation run mutation t r t')
  {
    case 1
    then show ?case using mutated by (blast dest: mutate_keeps(1))
  next
    case 2
    then have c: "command (pv_session_id provenance) t operation = Ok (map_option command_of (command_row t operation))"
      by (rule store_ok_command)
    show ?case
    proof (cases r)
      case (Inl e)
      then show ?thesis using mutated(2) unfolding mutate_def by (simp add: transact_Err)
    next
      case (Inr a)
      then have "t' = t \<or> (command_row t operation = None \<and>
          (\<exists>receipt. new_command se provenance owner now fresh operation run mutation t = (Ok receipt, t')))"
        using mutated(2) unfolding mutate_def
        by (cases "command_row t operation") (auto simp: transact_Ok sql_Ok repeated_command_def c wi_results split: option.splits)
      then show ?thesis using mutated(1) by blast
    qed
  }
next
  case (renamed fresh now operation title t r t')
  {
    case 1
    then show ?case using renamed by (blast dest: rename_keeps)
  next
    case 2
    then show ?case using renamed by (blast dest: rename_keeps)
  }
next
  case (reconciled fresh now owner t r t')
  {
    case 1
    then show ?case using reconciled by (blast dest: reconcile_keeps)
  next
    case 2
    then show ?case using reconciled by (blast dest: reconcile_keeps)
  }
qed

lemma step_extends:
  assumes "store_step se provenance t t'" "store_ok se provenance t"
  shows "extends t t'"
  using step_cases(2) [OF assms] new_command_keeps(4) [OF assms(2)]
  by (fastforce simp: extends_def renamed_to_def interrupted_to_def)

lemma reachable_ok: "reachable se provenance t \<Longrightarrow> store_ok se provenance t"
  by (induction rule: reachable.induct) (auto intro: initialize_keeps step_cases(1))

end
