(* ===== verification/Store_Commands.thy ===== *)
theory Store_Commands
  imports Store_Transactions
begin

text \<open>
  What stays true of a session database from one operation to the next: runs keep their identity and input, recorded
  commands keep their receipts and cover disjoint ranges of the log, and a run accepted with a history selection keeps
  it.  From this the readers \<open>command\<close>, \<open>history_selection\<close> and the repeated-command path of \<open>mutate\<close> are total on reachable stores.
\<close>

section \<open>Runs keep their identity\<close>

abbreviation run_key :: "RunRow \<Rightarrow> str \<times> i64 \<times> str" where
  "run_key r \<equiv> (rn_run_id r, rn_accepted_sequence r, rn_owner_instance_id r)"

definition runs_kept :: "'d tables \<Rightarrow> 'd tables \<Rightarrow> bool" where
  "runs_kept t t' \<longleftrightarrow> (\<exists>rows. map run_key (tb_runs t') = map run_key (tb_runs t) @ rows)"

interpretation rk: step_relation runs_kept
  by unfold_locales (auto simp: runs_kept_def)

lemma rk_execute: "(\<And>t. runs_kept t (f t)) \<Longrightarrow> rk.kept (execute f)"
  by (rule rk.keptI) (auto simp: execute_def rk.refl split: if_splits)

lemma rk_query: "rk.kept (query f)"
  by (rule rk.keptI) (auto simp: query_def rk.refl)

lemma rk_transact: "rk.kept m \<Longrightarrow> rk.kept (transact m)"
  by (rule rk.keptI) (auto simp: transact_def rk.refl dest: rk.keptD split: prod.splits sum.splits)

lemma rk_update_run: "(\<And>r. run_key (f r) = run_key r) \<Longrightarrow> rk.kept (update_run run f)"
  unfolding update_run_def
  by (rule rk_execute) (auto simp: runs_kept_def o_def if_distrib cong: if_cong intro!: exI [of _ "[]"])

lemma rk_same: "tb_runs t' = tb_runs t \<Longrightarrow> runs_kept t t'"
  by (auto simp: runs_kept_def)

lemma rk_rows:
  "rk.kept (insert_event_row row)" "rk.kept (insert_command cmd)" "rk.kept (update_manifest m)" "rk.kept (update_tool run call g)"
  "rk.kept (insert_event n fresh timestamp run json source)"
  by (simp_all add: insert_event_row_def insert_command_def update_manifest_def update_tool_def insert_event_def rk_execute rk_same)

lemma rk_projector: "rk.kept (projector_apply se sequence run input)"
  unfolding projector_apply_def
  by (intro rk.kept_rules rk_execute rk_query) (simp_all add: rk_same update_projection_def)

lemma rk_record_tool_event: "rk.kept (record_tool_event se session run n env tool)"
  unfolding record_tool_event_def tool_started_def tool_finished_def tool_reused_def
  by (cases tool; simp only: ToolExecutionEvent.case)
    (intro rk.kept_rules rk_execute rk_query rk_rows; simp add: rk_same)+

lemma rk_effect: "rk.kept (record_effect se session run n record)"
proof -
  have end_run: "rk.kept (terminalize r n outcome json)" for r outcome json
    unfolding terminalize_def by (intro rk.kept_rules rk_update_run) simp
  have outputs: "rk.kept (require_outputs r outcome)" for r outcome
    unfolding require_outputs_def by (rule rk_query)
  have "rk.kept (append_runtime se session run n env)" for env
    unfolding append_runtime_def
    by (rule rk.kept_then [OF _ rk.kept_ret])
      (cases "re_event env"; simp only: RunEvent.case; intro rk.kept_rules end_run outputs rk_record_tool_event)
  moreover have "rk.kept (append_tool_result se session run n request call out b)" for request call out b
    unfolding append_tool_result_def by (intro rk.kept_rules rk_query rk_rows)
  moreover have "rk.kept (append_result se session run n result)" for result
    unfolding append_result_def
    by (intro rk.kept_rules end_run outputs rk_query) (auto intro!: rk.kept_rules split: prod.splits)
  ultimately show ?thesis
    unfolding record_effect_def by (cases "record") (simp_all add: rk.kept_ret)
qed


lemma rk_append_record: "rk.kept (append_record se session run n fresh timestamp record)"
proof -
  have "rk.kept (check_binding se session run n record)"
    unfolding check_binding_def by (cases "record"; simp only: AppendRunRecord.case; intro rk.kept_rules rk_query)
  then show ?thesis
    unfolding append_record_def by (intro rk.kept_rules rk_effect rk_rows rk_query rk_projector rk_update_run) simp_all
qed

lemma rk_append_records: "rk.kept (append_records se session n fresh timestamp records state)"
proof (induction records arbitrary: n state)
  case (Cons r records)
  have "rk.kept (append_step se session n (fresh n) timestamp r state)"
    unfolding append_step_def
    by (cases state; cases r; simp only: prod.case AppendRunRecord.case; intro rk.kept_rules rk_query rk_append_record)
  then show ?case using Cons by (simp add: rk.kept_then)
qed (simp add: rk.kept_ret)

lemma rk_mutation_effect: "rk.kept (mutation_effect se session owner run first final fresh timestamp mutation)"
proof -
  have "rk.kept (accept_run se owner n f timestamp run input)" for n f input
    unfolding accept_run_def
    by (intro rk.kept_rules rk_query rk_rows rk_projector rk_execute) (auto simp: runs_kept_def)
  moreover have "rk.kept (select_history se n f timestamp run selection)" for n f selection
    unfolding select_history_def by (intro rk.kept_rules rk_rows rk_projector)
  ultimately show ?thesis
    unfolding mutation_effect_def by (cases mutation) (auto intro!: rk.kept_rules rk_query rk_append_records)
qed

lemma step_runs_kept: "store_step se provenance t t' \<Longrightarrow> runs_kept t t'"
proof (induction rule: store_step.induct)
  case (mutated owner now fresh operation run mutation t r t')
  have "rk.kept (new_command se provenance owner now fresh operation run mutation)"
    unfolding new_command_def Let_def
    by (intro rk.kept_rules rk_query) (auto intro!: rk.kept_rules rk_mutation_effect rk_rows split: prod.splits)
  then have "rk.kept (mutate se provenance owner now fresh operation run mutation)"
    unfolding mutate_def by (intro rk_transact rk.kept_rules rk_query) (auto intro!: rk.kept_rules split: option.splits)
  then show ?case using mutated(2) by (rule rk.keptD)
next
  case (renamed fresh now operation title t r t')
  have "rk.kept (rename_transaction se provenance now fresh operation title)"
    unfolding rename_transaction_def Let_def
    by (intro rk_transact rk.kept_rules rk_query) (auto intro!: rk.kept_rules rk_query rk_rows rk_projector split: option.splits)
  then show ?case using renamed(3) by (rule rk.keptD)
next
  case (reconciled fresh now owner t r t')
  have "rk.kept (reconcile se provenance owner now fresh)"
    unfolding reconcile_def Let_def
    by (intro rk_transact rk.kept_rules rk_query)
      (auto intro!: rk.kept_rules rk_query rk_rows rk_projector rk_update_run split: option.splits)
  then show ?case using reconciled(3) by (rule rk.keptD)
qed

section \<open>The order of commands\<close>

definition commands_ordered :: "'d tables \<Rightarrow> bool" where
  "commands_ordered t \<longleftrightarrow> sorted_wrt (\<lambda>a b. cm_last_sequence a < cm_first_sequence b) (tb_commands t) \<and>
     (\<forall>c \<in> set (tb_commands t). cm_first_sequence c \<le> cm_last_sequence c \<and> cm_last_sequence c \<le> log_length t)"

lemma step_commands:
  assumes s: "store_step se provenance t t'" and t: "store_ok se provenance t"
  shows "tb_commands t' = tb_commands t \<or> (\<exists>row. tb_commands t' = tb_commands t @ [row] \<and>
    cm_first_sequence row = log_length t + 1 \<and> cm_last_sequence row = log_length t' \<and> log_length t < log_length t')"
  using step_cases(2) [OF assms]
proof (elim disjE exE conjE)
  fix owner now fresh operation run mutation receipt
  assume c: "call_ok se owner now fresh operation run mutation" "new_command se provenance owner now fresh operation run mutation t = (Ok receipt, t')"
  note k = new_command_keeps [OF t c]
  have "commands_schema (map ev_sequence (tb_events t')) (tb_commands t')"
    using k(1) by (simp add: store_ok_def store_reads_def schema_ok_def)
  then show ?thesis using k(2) by (simp add: commands_schema_def)
qed (auto simp: renamed_to_def interrupted_to_def)

lemma commands_ordered_grows:
  assumes c: "commands_ordered t" and le: "log_length t \<le> log_length t'"
    and t': "tb_commands t' = tb_commands t \<or> (\<exists>row. tb_commands t' = tb_commands t @ [row] \<and>
      cm_first_sequence row = log_length t + 1 \<and> cm_last_sequence row = log_length t' \<and> log_length t < log_length t')"
  shows "commands_ordered t'"
  using t'
proof
  assume "tb_commands t' = tb_commands t"
  then show ?thesis using c le by (auto simp: commands_ordered_def)
next
  assume "\<exists>row. tb_commands t' = tb_commands t @ [row] \<and> cm_first_sequence row = log_length t + 1 \<and>
    cm_last_sequence row = log_length t' \<and> log_length t < log_length t'"
  then show ?thesis using c le by (fastforce simp: commands_ordered_def sorted_wrt_append)
qed

lemma extends_length: "extends t t' \<Longrightarrow> log_length t \<le> log_length t'"
  by (auto simp: extends_def)

lemma step_commands_ordered:
  "store_step se provenance t t' \<Longrightarrow> store_ok se provenance t \<Longrightarrow> commands_ordered t \<Longrightarrow> commands_ordered t'"
  by (rule commands_ordered_grows [OF _ extends_length [OF step_extends] step_commands])

text \<open>In an ordered list of commands exactly one covers a sequence it was given.\<close>

lemma commands_covering:
  assumes "sorted_wrt (\<lambda>a b. cm_last_sequence a < cm_first_sequence b) cs" "\<forall>c \<in> set cs. cm_first_sequence c \<le> cm_last_sequence c"
    and "cmd \<in> set cs" "cm_first_sequence cmd = i" "cm_last_sequence cmd = j"
  shows "filter (\<lambda>r. cm_first_sequence r \<le> j \<and> cm_last_sequence r \<ge> i) cs = [cmd]"
  using assms
proof (induction cs)
  case (Cons c cs)
  show ?case
  proof (cases "c = cmd")
    case True
    then have "\<not> cm_first_sequence r \<le> j" if "r \<in> set cs" for r using Cons.prems that by (fastforce dest: leD)
    then have "filter (\<lambda>r. cm_first_sequence r \<le> j \<and> cm_last_sequence r \<ge> i) cs = []" by (simp add: filter_empty_conv)
    then show ?thesis using True Cons.prems by simp
  next
    case False
    then have m: "cmd \<in> set cs" using Cons.prems by simp
    then have "cm_last_sequence c < i" using Cons.prems by auto
    then show ?thesis using Cons.IH [OF _ _ m Cons.prems(4,5)] Cons.prems by simp
  qed
qed simp

section \<open>Runs across steps\<close>

lemma run_key_accepted:
  assumes "run_of_row se session t row = Ok r" "run_of_row se session t' row' = Ok r'" "run_key row' = run_key row" "extends t t'"
  shows "rec_run_id r' = rec_run_id r" "rec_accepted_sequence r' = rec_accepted_sequence r" "rec_input r' = rec_input r"
    "rec_owner_instance_id r' = rec_owner_instance_id r"
proof -
  obtain a where a: "accepted_as se session t row (rec_accepted_sequence r) a" "rec_run_id r = rn_run_id row"
    "rec_input r = ap_input a" "rec_owner_instance_id r = ap_owner_instance_id a" by (rule run_of_row_OkE [OF assms(1)])
  obtain a' where a': "accepted_as se session t' row' (rec_accepted_sequence r') a'" "rec_run_id r' = rn_run_id row'"
    "rec_input r' = ap_input a'" "rec_owner_instance_id r' = ap_owner_instance_id a'" by (rule run_of_row_OkE [OF assms(2)])
  note x = accepted_as_extends [OF a(1) assms(4)]
  have seq: "rec_accepted_sequence r' = rec_accepted_sequence r" using x a'(1) assms(3) by (auto simp: accepted_as_def)
  then have "a' = a" using x a'(1) by (auto simp: accepted_as_def)
  with seq a a' assms(3) show "rec_run_id r' = rec_run_id r" "rec_accepted_sequence r' = rec_accepted_sequence r" "rec_input r' = rec_input r"
    "rec_owner_instance_id r' = rec_owner_instance_id r" by simp_all
qed

lemma find_key: "List.find (\<lambda>r. f r = k) rows = Some row \<Longrightarrow> map key rows @ rest = map key rows' \<Longrightarrow> (\<And>r. f r = g (key r)) \<Longrightarrow>
    \<exists>row'. List.find (\<lambda>r. f r = k) rows' = Some row' \<and> key row' = key row"
proof (induction rows arbitrary: rows')
  case (Cons x rows)
  then obtain y ys where y: "rows' = y # ys" "key y = key x" "map key rows @ rest = map key ys" by (cases rows') auto
  then show ?case using Cons by (auto split: if_splits)
qed simp

lemma run_record_kept:
  assumes r: "run_record se session t run = Ok (Some r)" and k: "runs_kept t t'" "extends t t'" and t': "runs_read se session t'"
  obtains r' where "run_record se session t' run = Ok (Some r')" "rec_accepted_sequence r' = rec_accepted_sequence r" "rec_input r' = rec_input r"
    "rec_owner_instance_id r' = rec_owner_instance_id r" "rec_run_id r' = rec_run_id r"
proof -
  from r obtain row where row: "run_row t run = Some row" "run_of_row se session t row = Ok r"
    by (cases "run_row t run") (auto simp: run_record_def wi_results)
  from k(1) obtain rows where rows: "map run_key (tb_runs t) @ rows = map run_key (tb_runs t')" by (auto simp: runs_kept_def)
  obtain row' where row': "run_row t' run = Some row'" "run_key row' = run_key row"
    using find_key [OF row(1) [unfolded run_row_def] rows, of fst] by (auto simp: run_row_def)
  then have "row' \<in> set (tb_runs t')" by (auto simp: run_row_def find_Some_iff)
  then obtain r' where r': "run_of_row se session t' row' = Ok r'" using t' by (auto simp: runs_read_def)
  note run_key_accepted [OF row(2) r' row'(2) k(2)]
  then show ?thesis using that row'(1) r' by (simp add: run_record_def)
qed

section \<open>History selections\<close>

definition selection_ok :: "('u, 'd) store_env \<Rightarrow> str \<Rightarrow> 'd tables \<Rightarrow> EventRow \<Rightarrow> HistorySelectedPayload \<Rightarrow> bool" where
  "selection_ok se session t row p \<longleftrightarrow> ev_run_id row = Some (hp_run_id p) \<and>
     (\<exists>r cmd. run_record se session t (hp_run_id p) = Ok (Some r) \<and> rec_accepted_sequence r = of_int (ev_sequence row - 1) \<and>
        sel_through_sequence (hp_selection p) = of_int (ev_sequence row - 2) \<and> selection_matches_input (hp_selection p) (rec_input r) \<and>
        cmd \<in> set (tb_commands t) \<and> cm_first_sequence cmd = ev_sequence row - 1 \<and> cm_last_sequence cmd = ev_sequence row \<and>
        cm_method cmd = ''accept_history_run'' \<and> rc_run_id (cm_receipt_json cmd) = Some (hp_run_id p) \<and>
        cm_payload_hash cmd = command_hash se session (hp_run_id p) (AcceptHistory (rec_input r) (hp_selection p)) \<and>
        storage_id_from_str (se_uuid se) (cm_operation_id cmd) = Ok (cm_operation_id cmd))"

definition selections_ok :: "('u, 'd) store_env \<Rightarrow> str \<Rightarrow> 'd tables \<Rightarrow> bool" where
  "selections_ok se session t \<longleftrightarrow>
     (\<forall>row \<in> set (tb_events t). \<forall>p. ev_payload_json row = RunHistorySelected p \<longrightarrow> selection_ok se session t row p)"

lemma selection_kept:
  assumes "selection_ok se session t row p" "runs_kept t t'" "extends t t'" "runs_read se session t'"
    and "set (tb_commands t) \<subseteq> set (tb_commands t')"
  shows "selection_ok se session t' row p"
proof -
  from assms(1) obtain r cmd where r: "run_record se session t (hp_run_id p) = Ok (Some r)" "rec_accepted_sequence r = of_int (ev_sequence row - 1)"
     "selection_matches_input (hp_selection p) (rec_input r)"
     "cmd \<in> set (tb_commands t)" "cm_first_sequence cmd = ev_sequence row - 1" "cm_last_sequence cmd = ev_sequence row"
     "cm_method cmd = ''accept_history_run''" "rc_run_id (cm_receipt_json cmd) = Some (hp_run_id p)"
     "cm_payload_hash cmd = command_hash se session (hp_run_id p) (AcceptHistory (rec_input r) (hp_selection p))"
     "storage_id_from_str (se_uuid se) (cm_operation_id cmd) = Ok (cm_operation_id cmd)"
    and s: "ev_run_id row = Some (hp_run_id p)" "sel_through_sequence (hp_selection p) = of_int (ev_sequence row - 2)"
    unfolding selection_ok_def by blast
  obtain r' where r': "run_record se session t' (hp_run_id p) = Ok (Some r')" "rec_accepted_sequence r' = rec_accepted_sequence r" "rec_input r' = rec_input r"
    by (rule run_record_kept [OF r(1) assms(2-4)])
  have "cmd \<in> set (tb_commands t')" using r(4) assms(5) by blast
  then show ?thesis unfolding selection_ok_def using s r r' by (intro conjI exI [of _ r'] exI [of _ cmd]) simp_all
qed

lemma selected_new: "ev_payload_json (new_event n fresh timestamp run payload) = payload"
  by (simp add: new_event_def)

lemma batch_not_selected: "row \<in> set (batch_rows n fresh timestamp run records) \<Longrightarrow> ev_payload_json row \<noteq> RunHistorySelected p"
proof (induction records arbitrary: n)
  case (Cons r records)
  have "record_payload r \<noteq> RunHistorySelected p" by (cases r) simp_all
  then show ?case using Cons by (auto simp: selected_new)
qed simp

lemma mutation_selected:
  assumes "row \<in> set (mutation_rows n fresh timestamp run owner mutation)" "ev_payload_json row = RunHistorySelected p"
  obtains input where "mutation = AcceptHistory input (hp_selection p)" "hp_run_id p = run" "ev_sequence row = n + 1" "ev_run_id row = Some run"
  using assms by (cases mutation) (auto simp: selected_new batch_not_selected, auto simp: new_event_def)

lemma new_command_selections:
  assumes t: "store_ok se provenance t" and s: "selections_ok se (pv_session_id provenance) t"
    and call: "call_ok se owner now fresh operation run mutation"
    and cmd: "new_command se provenance owner now fresh operation run mutation t = (Ok receipt, t')"
    and kept: "runs_kept t t'"
  shows "selections_ok se (pv_session_id provenance) t'"
proof -
  let ?s = "pv_session_id provenance"
  note k = new_command_keeps [OF t call cmd]
  from k(4) obtain timestamp where ev: "tb_events t' = tb_events t @ mutation_rows (log_length t + 1) fresh timestamp run owner mutation"
    by blast
  have reads: "runs_read se ?s t'" using k(1) by (simp add: store_ok_def store_reads_def)
  have old: "selection_ok se ?s t' row p" if "row \<in> set (tb_events t)" "ev_payload_json row = RunHistorySelected p" for row p
    using s that by (intro selection_kept [OF _ kept _ reads, of row]) (auto simp: selections_ok_def extends_def ev k(2))
  have new: "selection_ok se ?s t' row p"
    if row: "row \<in> set (mutation_rows (log_length t + 1) fresh timestamp run owner mutation)" "ev_payload_json row = RunHistorySelected p" for row p
  proof -
    obtain input where m: "mutation = AcceptHistory input (hp_selection p)" and p: "hp_run_id p = run" "ev_sequence row = log_length t + 2" "ev_run_id row = Some run"
      using mutation_selected [OF row] by (metis add.assoc one_add_one)
    obtain mrow proj where man: "manifest_ok se provenance t mrow proj" using t by (auto simp: store_ok_def)
    have "sm_head_sequence (manifest_of (hd (tb_manifest t))) = of_int (log_length t)" using man by (simp add: manifest_ok_def manifest_of_def)
    then have c: "sel_through_sequence (hp_selection p) = of_int (log_length t)" "selection_matches_input (hp_selection p) input"
      using k(6) by (auto simp: m mutation_checks_def wi_results)
    have rec: "run_record se ?s t' run = Ok (Some (accepted_run run (log_length t + 1) input owner))" using k(5) by (simp add: m)
    have len: "log_length t' = log_length t + 2" by (simp add: ev m)
    have id: "storage_id_from_str (se_uuid se) operation = Ok operation" using call by (simp add: call_ok_def)
    show ?thesis
      unfolding selection_ok_def
      by (intro conjI exI [of _ "accepted_run run (log_length t + 1) input owner"] exI [of _ "last (tb_commands t')"])
        (use rec c p k(2,3) len id in \<open>simp_all add: accepted_run_def m\<close>)
  qed
  show ?thesis using old new by (auto simp: selections_ok_def ev)
qed

lemma step_selections:
  assumes s: "store_step se provenance t t'" and t: "store_ok se provenance t" "selections_ok se (pv_session_id provenance) t"
  shows "selections_ok se (pv_session_id provenance) t'"
proof -
  let ?s = "pv_session_id provenance"
  note kept = step_runs_kept [OF s] step_extends [OF s t(1)]
  have reads: "runs_read se ?s t'" using step_cases(1) [OF s t(1)] by (simp add: store_ok_def store_reads_def)
  have old: "selection_ok se ?s t' row p" if "row \<in> set (tb_events t)" "ev_payload_json row = RunHistorySelected p"
      "set (tb_commands t) \<subseteq> set (tb_commands t')" for row p
    using t(2) that by (intro selection_kept [OF _ kept reads, of row]) (auto simp: selections_ok_def)
  show ?thesis using step_cases(2) [OF s t(1)]
  proof (elim disjE exE conjE)
    assume "t' = t" then show ?thesis using t(2) by simp
  next
    assume "renamed_to t t'"
    then show ?thesis using old by (fastforce simp: selections_ok_def renamed_to_def renamed_row_def)
  next
    assume "interrupted_to t t'"
    then show ?thesis using old by (fastforce simp: selections_ok_def interrupted_to_def new_event_def)
  qed (rule new_command_selections [OF t _ _ kept(1)])
qed

section \<open>Decoding returns the stored payload\<close>

lemma RecordedRunInput_same: "RecordedRunInput_try_from cr x = Ok y \<Longrightarrow> y = x"
  by (auto simp: RecordedRunInput_try_from_def RecordedRunInput_new_def wi_results)

lemma ReplayIdentity_same: "ReplayIdentity_try_from x = Ok y \<Longrightarrow> y = x"
  by (auto simp: ReplayIdentity_try_from_def ReplayIdentity_new_def wi_results)

lemma StoredHistorySelection_same: "StoredHistorySelection_try_from cr x = Ok y \<Longrightarrow> y = x"
  by (auto simp: StoredHistorySelection_try_from_def StoredHistorySelection_new_def wi_results dest!: ReplayIdentity_same
      split: option.splits)

lemma StoredEvent_payload_same:
  assumes "StoredEvent_payload se session n event created run kind json = Ok payload"
  shows "payload = json \<and> kind = stored_event_type json"
  using assms unfolding StoredEvent_payload_def Let_def
  by (cases json)
    (auto simp: wi_results decode_created_def decode_accepted_def decode_selected_def decode_binding_def decode_interrupted_def
      RecordedProviderBinding_new_def Let_def dest!: RecordedRunInput_same StoredHistorySelection_same ReplayIdentity_same split: if_splits)

lemma map_transpose_run:
  "map_transpose (\<lambda>s. map_err (\<lambda>_. e) (parse_run_id uu s)) x = Ok y \<Longrightarrow> y = x"
  by (cases x) (auto simp: wi_results dest: parse_run_id_same)

lemma decode_Ok:
  assumes "decode se session row = Ok e"
  shows "sv_sequence e = of_int (ev_sequence row)" "sv_run_id e = ev_run_id row" "sv_payload e = ev_payload_json row"
    "ev_event_type row = stored_event_type (ev_payload_json row)"
proof -
  from assms obtain n event version run payload where *: "u64_try_from_i64 (ev_sequence row) = Some n"
    "map_transpose (\<lambda>s. map_err (\<lambda>_. integrity) (parse_run_id (se_uuid se) s)) (ev_run_id row) = Ok run"
    "StoredEvent_payload se session n event (ev_created_at_ms row) run (ev_event_type row) (ev_payload_json row) = Ok payload"
    "sv_sequence e = n" "sv_run_id e = run" "sv_payload e = payload"
    unfolding decode_def StoredEvent_try_from_def by (auto simp only: and_then_Ok_iff ok_or_Ok_iff) auto
  show "sv_sequence e = of_int (ev_sequence row)" using *(1,4) by (auto simp: u64_try_from_i64_def split: if_splits)
  show "sv_run_id e = ev_run_id row" using map_transpose_run [OF *(2)] *(5) by simp
  show "sv_payload e = ev_payload_json row" "ev_event_type row = stored_event_type (ev_payload_json row)"
    using StoredEvent_payload_same [OF *(3)] *(6) by simp_all
qed

lemma row_type:
  assumes "log_ok se session t" "row \<in> set (tb_events t)"
  shows "ev_event_type row = stored_event_type (ev_payload_json row)"
  using assms decode_Ok(4) by (force simp: log_ok_def)

lemma type_selected: "stored_event_type payload = ''run.history.selected'' \<longleftrightarrow> (\<exists>p. payload = RunHistorySelected p)"
  by (cases payload) auto

lemma type_bound: "stored_event_type payload = ''run.provider.bound'' \<longleftrightarrow> (\<exists>p. payload = RunProviderBound p)"
  by (cases payload) auto

lemma run_events_filter:
  assumes "log_ok se session t"
  shows "run_events t run P = filter (\<lambda>r. ev_run_id r = Some run \<and> P r) (tb_events t)"
  unfolding run_events_def by (rule sort_key_id_if_sorted [OF log_sorted [OF assms]])

lemma log_distinct: "log_ok se session t \<Longrightarrow> distinct (map ev_sequence (tb_events t))"
  by (simp add: log_ok_def)

lemma filter_unique:
  assumes "distinct (map key xs)" "x \<in> set xs" "P x" "\<And>y. y \<in> set xs \<Longrightarrow> P y \<Longrightarrow> key y = key x"
  shows "filter P xs = [x]"
proof -
  have "P y \<longleftrightarrow> y = x" if "y \<in> set xs" for y
    using assms(2-4) inj_onD [OF conjunct2 [OF iffD1 [OF distinct_map assms(1)]], of y x] that by blast
  then have "filter P xs = filter (\<lambda>y. y = x) xs" by (rule filter_cong [OF refl])
  moreover have "filter (\<lambda>y. y = x) ys = [x]" if "distinct ys" "x \<in> set ys" for ys
    using that by (induction ys) (auto simp: filter_empty_conv)
  ultimately show ?thesis using assms(1,2) by (simp add: distinct_map)
qed

text \<open>Reading the metadata event of a run, of which there is at most one.\<close>

lemma metadata_event_one:
  assumes log: "log_ok se session t" and row: "row \<in> set (tb_events t)" "ev_run_id row = Some run" "ev_event_type row = kind"
    and one: "\<And>r. r \<in> set (tb_events t) \<Longrightarrow> ev_run_id r = Some run \<Longrightarrow> ev_event_type r = kind \<Longrightarrow> ev_sequence r = ev_sequence row"
  obtains e where "metadata_event se session t run kind = Ok (Some e)" "decode se session row = Ok e"
proof -
  obtain e where e: "decode se session row = Ok e" using log row(1) by (auto simp: log_ok_def)
  have "run_events t run (\<lambda>r. ev_event_type r = kind) = [row]"
    unfolding run_events_filter [OF log] by (rule filter_unique [OF log_distinct [OF log] row(1)]) (use row one in blast)+
  then show ?thesis using that e by (simp add: metadata_event_def reject_if_def)
qed

lemma metadata_event_none:
  assumes log: "log_ok se session t" and none: "\<And>r. r \<in> set (tb_events t) \<Longrightarrow> ev_run_id r = Some run \<Longrightarrow> ev_event_type r \<noteq> kind"
  shows "metadata_event se session t run kind = Ok None"
proof -
  have "run_events t run (\<lambda>r. ev_event_type r = kind) = []"
    unfolding run_events_filter [OF log] using none by (auto simp: filter_empty_conv)
  then show ?thesis by (simp add: metadata_event_def reject_if_def)
qed

lemma selected_unique:
  assumes s: "selections_ok se session t" and log: "log_ok se session t"
    and a: "row \<in> set (tb_events t)" "ev_payload_json row = RunHistorySelected p"
    and b: "row' \<in> set (tb_events t)" "ev_payload_json row' = RunHistorySelected p'" and run: "hp_run_id p' = hp_run_id p"
  shows "ev_sequence row' = ev_sequence row"
proof -
  obtain r where r: "run_record se session t (hp_run_id p) = Ok (Some r)" "rec_accepted_sequence r = of_int (ev_sequence row - 1)"
    using s a unfolding selections_ok_def selection_ok_def by blast
  obtain r' where r': "run_record se session t (hp_run_id p') = Ok (Some r')" "rec_accepted_sequence r' = of_int (ev_sequence row' - 1)"
    using s b unfolding selections_ok_def selection_ok_def by blast
  have "(of_int (ev_sequence row' - 1) :: u64) = of_int (ev_sequence row - 1)" using r r' run by (metis Inr_inject option.inject)
  moreover have "0 \<le> ev_sequence row - 1" "ev_sequence row - 1 < 2 ^ 63" "0 \<le> ev_sequence row' - 1" "ev_sequence row' - 1 < 2 ^ 63"
    using log_member [OF log a(1)] log_member [OF log b(1)] log by (auto simp: log_ok_def)
  ultimately show ?thesis by (simp only: of_i64_eq)
qed

lemma history_selection_Some:
  assumes t: "store_ok se provenance t" "commands_ordered t" "selections_ok se (pv_session_id provenance) t"
    and row: "row \<in> set (tb_events t)" "ev_payload_json row = RunHistorySelected p"
  shows "history_selection se (pv_session_id provenance) t (hp_run_id p) = Ok (Some (hp_selection p))"
proof -
  let ?s = "pv_session_id provenance"
  have log: "log_ok se ?s t" using t(1) by (simp add: store_ok_def store_reads_def)
  obtain r cmd where r: "run_record se ?s t (hp_run_id p) = Ok (Some r)" "rec_accepted_sequence r = of_int (ev_sequence row - 1)"
     "sel_through_sequence (hp_selection p) = of_int (ev_sequence row - 2)" "selection_matches_input (hp_selection p) (rec_input r)"
    and cmd: "cmd \<in> set (tb_commands t)" "cm_first_sequence cmd = ev_sequence row - 1" "cm_last_sequence cmd = ev_sequence row"
     "cm_method cmd = ''accept_history_run''" "rc_run_id (cm_receipt_json cmd) = Some (hp_run_id p)"
     "cm_payload_hash cmd = command_hash se ?s (hp_run_id p) (AcceptHistory (rec_input r) (hp_selection p))"
     "storage_id_from_str (se_uuid se) (cm_operation_id cmd) = Ok (cm_operation_id cmd)"
    and id: "ev_run_id row = Some (hp_run_id p)"
    using t(3) row unfolding selections_ok_def selection_ok_def by blast
  obtain e where e: "metadata_event se ?s t (hp_run_id p) ''run.history.selected'' = Ok (Some e)" "decode se ?s row = Ok e"
  proof (rule metadata_event_one [OF log row(1) id, of "''run.history.selected''"])
    show "ev_event_type row = ''run.history.selected''" using row_type [OF log row(1)] row(2) by simp
    fix r assume r: "r \<in> set (tb_events t)" "ev_run_id r = Some (hp_run_id p)" "ev_event_type r = ''run.history.selected''"
    then obtain p' where p': "ev_payload_json r = RunHistorySelected p'" using row_type [OF log r(1)] type_selected by metis
    have "ev_run_id r = Some (hp_run_id p')" using t(3) r(1) p' unfolding selections_ok_def selection_ok_def by blast
    then have "hp_run_id p' = hp_run_id p" using r(2) by simp
    then show "ev_sequence r = ev_sequence row" by (rule selected_unique [OF t(3) log row r(1) p'])
  qed
  have reads: "command_reads ?s t cmd" using t(1) cmd(1) by (simp add: store_ok_def)
  have bounds: "1 \<le> ev_sequence row" "ev_sequence row < 2 ^ 63" "1 < ev_sequence row - 1"
    using log_member [OF log row(1)] log reads cmd(2) by (auto simp: log_ok_def command_reads_def)
  have si: "sint (of_int (ev_sequence row) :: u64) = ev_sequence row" "sint (of_int (ev_sequence row - 1) :: u64) = ev_sequence row - 1"
    using bounds by (auto intro!: sint_of_i64 simp del: of_int_diff)
  have "distinct (map cm_operation_id (tb_commands t))"
    using t(1) by (simp add: store_ok_def store_reads_def schema_ok_def commands_schema_def)
  then have "command_row t (cm_operation_id cmd) = Some cmd" using cmd(1) by (rule find_distinct_Some)
  then have c: "command ?s t (cm_operation_id cmd) = Ok (Some (command_of cmd))" using store_ok_command [OF t(1)] by simp
  have f: "filter (\<lambda>r. cm_first_sequence r \<le> ev_sequence row \<and> cm_last_sequence r \<ge> ev_sequence row - 1) (tb_commands t) = [cmd]"
    using t(2) cmd(1-3) by (intro commands_covering) (auto simp: commands_ordered_def)
  have d: "sv_sequence e = of_int (ev_sequence row)" "sv_payload e = RunHistorySelected p" using decode_Ok [OF e(2)] row(2) by simp_all
  have w: "(of_int (ev_sequence row) :: u64) = of_int (ev_sequence row - 1) + 1" "(of_int (ev_sequence row - 2) :: u64) = of_int (ev_sequence row - 1) - 1"
    by simp_all
  have cr: "rc_first_sequence (cm_receipt_json cmd) = of_int (ev_sequence row - 1)" "rc_last_sequence (cm_receipt_json cmd) = of_int (ev_sequence row)"
    using reads cmd(2,3) by (simp_all add: command_reads_def del: of_int_diff)
  show ?thesis
    unfolding history_selection_def e(1) and_then.simps option.case d(2) StoredEventPayload.case r(1) ok_or.simps Let_def d(1) r(2) si f
      take_Suc_Cons numeral_2_eq_2 take_Nil list.case cmd(7) map_err.simps c
    using r cmd cr w by (simp add: reject_if_def command_of_def del: of_int_diff)
qed

section \<open>The invariant of reachable stores\<close>

definition store_inv :: "('u, 'd) store_env \<Rightarrow> CreationProvenance \<Rightarrow> 'd tables \<Rightarrow> bool" where
  "store_inv se provenance t \<longleftrightarrow>
     store_ok se provenance t \<and> commands_ordered t \<and> selections_ok se (pv_session_id provenance) t"

lemma step_inv: "store_step se provenance t t' \<Longrightarrow> store_inv se provenance t \<Longrightarrow> store_inv se provenance t'"
  by (auto simp: store_inv_def intro: step_cases(1) step_commands_ordered step_selections)

lemma steps_inv: "(store_step se provenance)\<^sup>*\<^sup>* t t' \<Longrightarrow> store_inv se provenance t \<Longrightarrow> store_inv se provenance t'"
  by (induction rule: rtranclp_induct) (auto intro: step_inv)

lemma reachable_inv: "reachable se provenance t \<Longrightarrow> store_inv se provenance t"
proof (induction rule: reachable.induct)
  case (created manifest t)
  obtain input where t: "t = created_tables se provenance input" by (rule initialize_Ok [OF created(1)])
  show ?case
    using initialize_keeps [OF created]
    by (simp add: store_inv_def commands_ordered_def selections_ok_def t created_tables_def empty_tables_def created_row_def)
qed (rule step_inv)

lemma history_selection_None:
  assumes "log_ok se session t" "\<And>row p. row \<in> set (tb_events t) \<Longrightarrow> ev_run_id row = Some run \<Longrightarrow> ev_payload_json row \<noteq> RunHistorySelected p"
  shows "history_selection se session t run = Ok None"
proof -
  have "metadata_event se session t run ''run.history.selected'' = Ok None"
    using assms(2) row_type [OF assms(1)] type_selected by (intro metadata_event_none [OF assms(1)]) metis
  then show ?thesis by (simp add: history_selection_def)
qed

lemma history_selection_reads:
  assumes "store_inv se provenance t"
  shows "\<exists>found. history_selection se (pv_session_id provenance) t run = Ok found"
proof (cases "\<exists>row p. row \<in> set (tb_events t) \<and> ev_run_id row = Some run \<and> ev_payload_json row = RunHistorySelected p")
  case True
  then obtain row p where row: "row \<in> set (tb_events t)" "ev_run_id row = Some run" "ev_payload_json row = RunHistorySelected p" by blast
  then have "run = hp_run_id p" using assms unfolding store_inv_def selections_ok_def selection_ok_def by fastforce
  then show ?thesis using history_selection_Some [OF _ _ _ row(1,3)] assms by (auto simp: store_inv_def)
next
  case False
  have log: "log_ok se (pv_session_id provenance) t" using assms by (simp add: store_inv_def store_ok_def store_reads_def)
  show ?thesis using history_selection_None [OF log, of run] False by blast
qed

section \<open>Repeated commands\<close>

lemma commands_kept:
  assumes "(store_step se provenance)\<^sup>*\<^sup>* t t'" "store_inv se provenance t"
  shows "set (tb_commands t) \<subseteq> set (tb_commands t') \<and> set (tb_events t) \<subseteq> set (tb_events t')"
  using assms
proof (induction rule: rtranclp_induct)
  case (step t' t'')
  have ok: "store_ok se provenance t'" using steps_inv [OF step(1,4)] by (simp add: store_inv_def)
  have "set (tb_commands t') \<subseteq> set (tb_commands t'')" using step_commands [OF step(2) ok] by auto
  moreover have "set (tb_events t') \<subseteq> set (tb_events t'')" using step_extends [OF step(2) ok] by (auto simp: extends_def)
  ultimately show ?case using step by blast
qed simp

lemma repeated_receipt:
  assumes t: "store_inv se provenance t" and row: "row \<in> set (tb_commands t)" "cm_operation_id row = operation"
    and m: "cm_method row = Mutation_method mutation" "cm_payload_hash row = command_hash se (pv_session_id provenance) run mutation"
      "rc_run_id (cm_receipt_json row) = Some run"
    and s: "\<And>input selection. mutation = AcceptHistory input selection \<Longrightarrow>
      \<exists>e \<in> set (tb_events t). ev_payload_json e = RunHistorySelected \<lparr>hp_run_id = run, hp_selection = selection\<rparr>"
  shows "mutate se provenance owner now fresh operation run mutation t = (Ok (cm_receipt_json row, True), t)"
    and "command_hash se (pv_session_id provenance) run' mutation' \<noteq> command_hash se (pv_session_id provenance) run mutation \<Longrightarrow>
      mutate se provenance owner now fresh operation run' mutation' t =
        (Err (not_committed (StorageError_new CommandConflict)), t)"
proof -
  let ?s = "pv_session_id provenance"
  have ok: "store_ok se provenance t" "commands_ordered t" "selections_ok se ?s t" using t by (simp_all add: store_inv_def)
  have "distinct (map cm_operation_id (tb_commands t))"
    using ok(1) by (simp add: store_ok_def store_reads_def schema_ok_def commands_schema_def)
  then have "command_row t operation = Some row" using find_distinct_Some [OF _ row(1)] row(2) by blast
  then have c: "command ?s t operation = Ok (Some (command_of row))" using store_ok_command [OF ok(1)] by simp
  have sel: "history_selection se ?s t run = Ok (Some selection)" if "mutation = AcceptHistory input selection" for input selection
  proof -
    from s [OF that] obtain e where e: "e \<in> set (tb_events t)" "ev_payload_json e = RunHistorySelected \<lparr>hp_run_id = run, hp_selection = selection\<rparr>"
      by blast
    show ?thesis using history_selection_Some [OF ok e] by simp
  qed
  have "repeated_command se ?s operation run mutation t = Ok (Some (cm_receipt_json row))"
    using m sel by (cases mutation) (simp_all add: repeated_command_def c command_of_def reject_if_def)
  then show "mutate se provenance owner now fresh operation run mutation t = (Ok (cm_receipt_json row, True), t)"
    by (simp add: mutate_def transact_def then_do_def query_def ret_def)
  assume "command_hash se ?s run' mutation' \<noteq> command_hash se ?s run mutation"
  then have "repeated_command se ?s operation run' mutation' t = Err (StorageError_new CommandConflict)"
    using m(2) by (simp add: repeated_command_def c command_of_def reject_if_def)
  then show "mutate se provenance owner now fresh operation run' mutation' t = (Err (not_committed (StorageError_new CommandConflict)), t)"
    by (simp add: mutate_def transact_def then_do_def query_def)
qed

end
