(* ===== verification/Store_Progress.thy ===== *)
theory Store_Progress
  imports Store_Commands
begin

text \<open>
  The operations of a session database succeed: creating a session and accepting a run commit whenever their
  documented preconditions hold.  An example store shows that the hypotheses of the properties can be met.
\<close>

section \<open>A new session database\<close>

lemma execute_ok: "schema_ok (f t) \<Longrightarrow> execute f t = (Ok (), f t)"
  by (simp add: execute_def)

lemma one_small: "\<not> i64_max < 1" "i64_max \<noteq> 0" "u64_try_from_i64 1 = Some 1" "i64_try_from_u64 1 = Some 1"
  by (simp_all add: i64_max_def u64_try_from_i64_def i64_try_from_u64_def)

lemmas schema_defs = schema_ok_def manifest_schema_def events_schema_def commands_schema_def runs_schema_def tools_schema_def
  projection_schema_def

lemma initialize_succeeds:
  assumes r: "CreationProvenance_request se provenance = Ok input" and typed: "provenance_typed se provenance"
  shows "initialize se provenance =
    Ok (manifest_of (hd (tb_manifest (created_tables se provenance input))), created_tables se provenance input)"
proof -
  let ?t = "created_tables se provenance input"
  let ?t1 = "?t\<lparr>tb_events := [], tb_projection := []\<rparr>" and ?t2 = "?t\<lparr>tb_projection := []\<rparr>"
  have s: "schema_ok ?t1" "schema_ok ?t2" "schema_ok ?t"
    by (simp_all add: schema_defs created_tables_def empty_tables_def created_row_def EVENT_TYPES_def List.map_filter_simps)
  have log: "log_ok se (pv_session_id provenance) ?t" "0 < log_length ?t"
    using created_row_decodes [OF r typed] by (simp_all add: log_ok_def created_tables_def) (simp add: created_row_def)
  have "manifest_ok se provenance ?t (hd (tb_manifest ?t)) (hd (tb_projection ?t))"
    using request_created [OF r] r
    by (simp add: manifest_ok_def created_tables_def empty_tables_def created_row_def creation_matches_def)
  then have m: "validate_manifest se (pv_session_id provenance) (Some provenance) ?t = Ok (manifest_of (hd (tb_manifest ?t)))"
    by (rule manifest_ok_validates [OF log])
  show ?thesis
    using s m
    by (simp add: initialize_def transact_def then_do_def from_result_def r execute_def insert_event_row_def projector_apply_def one_small
        read_def fail_if_def ret_def query_def created_tables_def empty_tables_def created_row_def)
qed

section \<open>Accepting a run\<close>

lemma schema_insert_event:
  assumes t: "schema_ok t" and n: "n > 0" "n \<notin> set (map ev_sequence (tb_events t))" "fresh \<notin> set (map ev_event_id (tb_events t))"
    and k: "source_columns payload = (None, None)" "stored_event_type payload \<in> set EVENT_TYPES" "stored_event_type payload \<noteq> ''runtime.observed''"
  shows "schema_ok (t\<lparr>tb_events := tb_events t @ [new_event n fresh timestamp run payload]\<rparr>)"
proof -
  have mono: "set (map ev_sequence (tb_events t)) \<subseteq> set (map ev_sequence (tb_events t @ [new_event n fresh timestamp run payload]))" by auto
  have ref: "optional_reference xs v \<Longrightarrow> set xs \<subseteq> set ys \<Longrightarrow> optional_reference ys v" for xs ys :: "i64 list" and v
    by (auto simp: optional_reference_def split: option.splits)
  have "events_schema (tb_events t @ [new_event n fresh timestamp run payload])"
    using t n k by (simp add: schema_ok_def events_schema_def new_event_def List.map_filter_def)
  moreover have "commands_schema (map ev_sequence (tb_events t @ [new_event n fresh timestamp run payload])) (tb_commands t)"
    using t mono by (simp add: schema_ok_def commands_schema_def list_all_iff)
  moreover have "runs_schema (map ev_sequence (tb_events t @ [new_event n fresh timestamp run payload])) (tb_runs t)"
    using t ref [OF _ mono] by (simp add: schema_ok_def runs_schema_def list_all_iff)
  moreover have "tools_schema (map ev_sequence (tb_events t @ [new_event n fresh timestamp run payload])) (map rn_run_id (tb_runs t)) (tb_tools t)"
    using t ref [OF _ mono] by (simp add: schema_ok_def tools_schema_def list_all_iff)
  ultimately show ?thesis using t by (simp add: schema_ok_def)
qed

lemma schema_insert_run:
  assumes t: "schema_ok t" and run: "run_row t run = None" "\<not> list_ex unfinished (tb_runs t)"
    and n: "n \<in> set (map ev_sequence (tb_events t))" "n \<notin> set (map rn_accepted_sequence (tb_runs t))"
  shows "schema_ok (t\<lparr>tb_runs := tb_runs t @ [accepted_row run n owner]\<rparr>)"
proof -
  have "run \<notin> set (map rn_run_id (tb_runs t))" using run(1) by (auto simp: run_row_def find_None_iff)
  moreover have "filter unfinished (tb_runs t) = []" using run(2) by (simp add: filter_empty_conv list_ex_iff)
  ultimately have "runs_schema (map ev_sequence (tb_events t)) (tb_runs t @ [accepted_row run n owner])"
    using t n by (simp add: schema_ok_def runs_schema_def accepted_row_def RUN_STATES_def optional_reference_def)
  moreover have "tools_schema (map ev_sequence (tb_events t)) (map rn_run_id (tb_runs t @ [accepted_row run n owner])) (tb_tools t)"
    using t by (auto simp: schema_ok_def tools_schema_def list_all_iff)
  ultimately show ?thesis using t by (simp add: schema_ok_def)
qed

lemma projector_run_decided:
  assumes n: "0 < n" "n < 2 ^ 63" and p: "tb_projection t = [proj]" "pj_format_version proj = 1" "pj_applied_sequence proj = n - 1"
      "1 \<le> pj_metadata_sequence proj" "pj_metadata_sequence proj \<le> n - 1" "schema_ok t"
    and input: "input \<noteq> ProjectCreated" "input \<noteq> ProjectRenamed"
  shows "projector_apply se (of_int n) (Some run) input t =
    (case se_display_apply se run (of_int n) input (tb_display t) of
       Inl e \<Rightarrow> (Err e, t)
     | Inr display \<Rightarrow> (Ok (), t\<lparr>tb_display := display, tb_projection := [proj\<lparr>pj_applied_sequence := n\<rparr>]\<rparr>))"
proof -
  have c: "i64_try_from_u64 (of_int n) = Some n" "u64_try_from_i64 (n - 1) = Some (of_int (n - 1))"
      "u64_try_from_i64 (pj_metadata_sequence proj) = Some (of_int (pj_metadata_sequence proj))"
    using n p(4,5) by (auto intro!: u64_i64_round_trip u64_try_from_i64_nonneg simp del: of_int_diff of_int_add)
  have c4: "checked_add_u64 (of_int (n - 1)) 1 = Some (of_int n)"
    using n checked_add_u64_i64 [of "n - 1"] by (simp del: of_int_diff)
  have "(of_int (pj_metadata_sequence proj) :: u64) \<noteq> of_int 0" "\<not> (of_int (n - 1) :: u64) < of_int (pj_metadata_sequence proj)"
    using n p(4,5) by (simp_all only: of_i64_eq of_i64_less)
  then have ok: "\<not> (pj_format_version proj \<noteq> 1 \<or> checked_add_u64 (of_int (n - 1)) 1 \<noteq> Some (of_int n) \<or> (of_int (pj_metadata_sequence proj) :: u64) = 0
      \<or> (of_int (pj_metadata_sequence proj) :: u64) > of_int (n - 1))"
    using p(2) c4 by (simp del: of_int_diff)
  have s: "schema_ok (t\<lparr>tb_display := display\<rparr>)" "schema_ok (t\<lparr>tb_display := display, tb_projection := [proj\<lparr>pj_applied_sequence := n\<rparr>]\<rparr>)" for display
    using p n by (simp_all add: schema_ok_def projection_schema_def)
  show ?thesis
    unfolding projector_apply_def then_do_def from_result_def c ok_or.simps read_def
    using s input p(1,3) c ok
    by (simp add: fail_if_def ret_def query_def execute_def update_projection_def del: of_int_diff split: sum.split)
qed

lemma next_sequence_succeeds: "0 \<le> l \<Longrightarrow> l + 1 < 2 ^ 63 \<Longrightarrow> next_sequence (of_int l) = Ok (l + 1)"
proof -
  assume l: "0 \<le> l" "l + 1 < 2 ^ 63"
  have "checked_add_u64 (of_int l) 1 = Some (of_int (l + 1))" using l by (intro checked_add_u64_i64) auto
  moreover have "i64_try_from_u64 (of_int (l + 1)) = Some (l + 1)" using l by (intro u64_i64_round_trip u64_try_from_i64_nonneg) auto
  ultimately show ?thesis unfolding next_sequence_def by (simp del: of_int_add)
qed

lemma receipt_succeeds:
  assumes "0 < n" "n \<le> m" "m < 2 ^ 63"
  shows "CommitReceipt_run_batch operation session run n m = Ok \<lparr>rc_operation_id = operation, rc_session_id = session,
    rc_run_id = Some run, rc_first_sequence = of_int n, rc_last_sequence = of_int m\<rparr>"
proof -
  have "u64_try_from_i64 n = Some (of_int n)" "u64_try_from_i64 m = Some (of_int m)" using assms by (auto intro!: u64_try_from_i64_nonneg)
  moreover have "(of_int n :: u64) \<noteq> of_int 0" "\<not> (of_int m :: u64) < of_int n" using assms by (simp_all only: of_i64_eq of_i64_less)
  moreover have "\<not> i64_max < (of_int m :: u64)" using of_i64_small [of m] assms by simp
  ultimately show ?thesis by (simp add: CommitReceipt_run_batch_def CommitReceipt_try_from_def reject_if_def)
qed

text \<open>The tables after the row inserts of an acceptance, and after the projector.\<close>

definition accepted_tables :: "'d tables \<Rightarrow> str \<Rightarrow> str \<Rightarrow> i64 \<Rightarrow> str \<Rightarrow> RecordedRunInput \<Rightarrow> 'd tables" where
  "accepted_tables t owner fresh timestamp run input =
     t\<lparr>tb_events := tb_events t @ [new_event (log_length t + 1) fresh timestamp run (acceptance run input owner)],
       tb_runs := tb_runs t @ [accepted_row run (log_length t + 1) owner]\<rparr>"

definition projected :: "i64 \<Rightarrow> 'd \<Rightarrow> 'd tables \<Rightarrow> 'd tables" where
  "projected n display t = t\<lparr>tb_display := display, tb_projection := map (\<lambda>r. r\<lparr>pj_applied_sequence := n\<rparr>) (tb_projection t)\<rparr>"

lemma accept_run_decided:
  fixes owner fresh :: str and timestamp :: i64 and input :: RecordedRunInput
  assumes t: "store_ok se provenance t" and new: "run_row t run = None" "\<not> list_ex unfinished (tb_runs t)"
    and id: "fresh \<notin> set (map ev_event_id (tb_events t))" and room: "log_length t + 1 < 2 ^ 63"
  defines "t2 \<equiv> accepted_tables t owner fresh timestamp run input"
  shows "schema_ok t2"
    "accept_run se owner (log_length t + 1) fresh timestamp run input t =
      (case se_display_apply se run (of_int (log_length t + 1)) (ProjectAccepted input) (tb_display t) of
         Inl e \<Rightarrow> (Err e, t2) | Inr display \<Rightarrow> (Ok (), projected (log_length t + 1) display t2))"
proof -
  let ?n = "log_length t + 1"
  let ?t1 = "t\<lparr>tb_events := tb_events t @ [new_event ?n fresh timestamp run (acceptance run input owner)]\<rparr>"
  have t2: "t2 = ?t1\<lparr>tb_runs := tb_runs t @ [accepted_row run ?n owner]\<rparr>" by (simp add: t2_def accepted_tables_def)
  from t obtain row proj where reads: "store_reads se (pv_session_id provenance) t" and m: "manifest_ok se provenance t row proj"
    by (auto simp: store_ok_def)
  have log: "log_ok se (pv_session_id provenance) t" and sch: "schema_ok t" using reads by (simp_all add: store_reads_def)
  have seqs: "set (map ev_sequence (tb_events t)) = {1..log_length t}" using log by (simp only: log_ok_def set_upto)
  have s1: "schema_ok ?t1"
    using seqs by (intro schema_insert_event [OF sch _ _ id]) (auto simp: run_columns EVENT_TYPES_def simp del: set_map)
  have "rn_accepted_sequence r \<le> log_length t" if "r \<in> set (tb_runs t)" for r
    using sch that seqs by (auto simp: schema_ok_def runs_schema_def list_all_iff simp del: set_map)
  then have acc: "?n \<notin> set (map rn_accepted_sequence (tb_runs ?t1))" by force
  have "schema_ok (?t1\<lparr>tb_runs := tb_runs ?t1 @ [accepted_row run ?n owner]\<rparr>)"
    using new by (intro schema_insert_run [OF s1 _ _ _ acc]) (auto simp: run_row_def new_event_def)
  then show s2: "schema_ok t2" by (simp add: t2)
  have meta: "1 \<le> pj_metadata_sequence proj" "pj_metadata_sequence proj \<le> log_length t"
    using m log_member [OF log, of "last (metadata t)"] last_in_set [of "metadata t"] by (auto simp: manifest_ok_def)
  have p: "projector_apply se (of_int ?n) (Some run) (ProjectAccepted input) t2 =
      (case se_display_apply se run (of_int ?n) (ProjectAccepted input) (tb_display t2) of
         Inl e \<Rightarrow> (Err e, t2)
       | Inr display \<Rightarrow> (Ok (), t2\<lparr>tb_display := display, tb_projection := [proj\<lparr>pj_applied_sequence := ?n\<rparr>]\<rparr>))"
    by (rule projector_run_decided) (use m meta s2 room in \<open>simp_all add: manifest_ok_def t2\<close>)
  have proj: "tb_projection t2 = [proj]" "tb_display t2 = tb_display t" using m by (simp_all add: t2 manifest_ok_def)
  have pd: "projected ?n display t2 = t2\<lparr>tb_display := display, tb_projection := [proj\<lparr>pj_applied_sequence := ?n\<rparr>]\<rparr>" for display
    by (simp add: projected_def proj)
  have "insert_event ?n fresh timestamp run (acceptance run input owner) None t = (Ok (), ?t1)"
    using s1 by (subst insert_event_eq) (simp_all add: run_columns execute_ok)
  then have "accept_run se owner ?n fresh timestamp run input t = projector_apply se (of_int ?n) (Some run) (ProjectAccepted input) t2"
    using new s2 by (simp add: accept_run_def then_do_def query_def reject_if_def execute_def accepted_row_def t2)
  then show "accept_run se owner ?n fresh timestamp run input t =
      (case se_display_apply se run (of_int ?n) (ProjectAccepted input) (tb_display t) of
         Inl e \<Rightarrow> (Err e, t2) | Inr display \<Rightarrow> (Ok (), projected ?n display t2))"
    unfolding p proj(2) pd .
qed

text \<open>A mutation whose effect ran and kept the schema commits, with the receipt of its range.\<close>

lemma new_command_commits:
  assumes t: "store_ok se provenance t" and new: "command_row t operation = None"
    and chk: "\<And>row. sm_head_sequence (manifest_of row) = of_int (log_length t) \<Longrightarrow>
      mutation_checks se (pv_session_id provenance) run (manifest_of row) mutation t = Ok ()"
    and range: "sequence_range (of_int (log_length t)) (mutation_count mutation) = Ok (n, m)" "0 < n" "n \<le> m" "m < 2 ^ 63"
    and eff: "mutation_effect se (pv_session_id provenance) owner run n m fresh timestamp mutation t = (Ok (), t1)"
    and t1: "schema_ok t1" "n \<in> set (map ev_sequence (tb_events t1))" "m \<in> set (map ev_sequence (tb_events t1))" "tb_commands t1 = tb_commands t"
    and hash: "length (command_hash se (pv_session_id provenance) run mutation) = 32"
  shows "\<exists>t'. mutate se provenance owner (Ok timestamp) fresh operation run mutation t =
    (Ok (\<lparr>rc_operation_id = operation, rc_session_id = pv_session_id provenance, rc_run_id = Some run,
          rc_first_sequence = of_int n, rc_last_sequence = of_int m\<rparr>, False), t')"
proof -
  let ?s = "pv_session_id provenance"
  let ?r = "\<lparr>rc_operation_id = operation, rc_session_id = ?s, rc_run_id = Some run, rc_first_sequence = of_int n, rc_last_sequence = of_int m\<rparr>"
  obtain row where m: "validate_manifest se ?s (Some provenance) t = Ok (manifest_of row)"
      "sm_head_sequence (manifest_of row) = of_int (log_length t)" by (rule store_ok_manifest [OF t])
  let ?t2 = "t1\<lparr>tb_manifest := map (\<lambda>r. r\<lparr>mf_head_sequence := m, mf_updated_at_ms := timestamp\<rparr>) (tb_manifest t1)\<rparr>"
  let ?c = "\<lparr>cm_operation_id = operation, cm_method = Mutation_method mutation, cm_payload_hash = command_hash se ?s run mutation,
      cm_first_sequence = n, cm_last_sequence = m, cm_receipt_json = ?r\<rparr>"
  have s2: "schema_ok ?t2" using t1(1) range(2,3) by (auto simp: schema_ok_def manifest_schema_def list_all_iff)
  have "operation \<notin> set (map cm_operation_id (tb_commands t))" using new by (auto simp: find_None_iff)
  then have s3: "schema_ok (?t2\<lparr>tb_commands := tb_commands t1 @ [?c]\<rparr>)"
    using s2 t1(2-4) range(2,3) hash by (cases mutation) (simp_all add: schema_ok_def commands_schema_def)
  have c: "command ?s t operation = Ok None" using store_ok_command [OF t] new by simp
  have "sequence_range (sm_head_sequence (manifest_of row)) (mutation_count mutation) = Ok (n, m)" unfolding m(2) by (rule range(1))
  then have "new_command se provenance owner (Ok timestamp) fresh operation run mutation t = (Ok ?r, ?t2\<lparr>tb_commands := tb_commands t1 @ [?c]\<rparr>)"
    unfolding new_command_def Let_def then_do_def query_def m(1) from_result_def
    using eff s2 s3 receipt_succeeds [OF range(2-4), of operation ?s run]
    by (simp add: chk [OF m(2)] execute_def update_manifest_def insert_command_def ret_def)
  then show ?thesis
    by (simp add: mutate_def transact_def then_do_def query_def repeated_command_def c ret_def)
qed

lemma accept_succeeds:
  assumes t: "store_inv se provenance t" and call: "call_ok se owner (Ok timestamp) fresh operation run (Accept input)"
    and new: "command_row t operation = None" "run_row t run = None" "\<not> list_ex unfinished (tb_runs t)"
    and id: "fresh (log_length t + 1) \<notin> set (map ev_event_id (tb_events t))" and room: "log_length t + 1 < 2 ^ 63"
    and hash: "length (command_hash se (pv_session_id provenance) run (Accept input)) = 32"
    and display: "se_display_apply se run (of_int (log_length t + 1)) (ProjectAccepted input) (tb_display t) = Ok display"
  shows "\<exists>t'. mutate se provenance owner (Ok timestamp) fresh operation run (Accept input) t =
    (Ok (\<lparr>rc_operation_id = operation, rc_session_id = pv_session_id provenance, rc_run_id = Some run,
          rc_first_sequence = of_int (log_length t + 1), rc_last_sequence = of_int (log_length t + 1)\<rparr>, False), t')"
proof -
  let ?n = "log_length t + 1"
  have ok: "store_ok se provenance t" using t by (simp add: store_inv_def)
  then have reads: "store_reads se (pv_session_id provenance) t" by (simp add: store_ok_def)
  obtain t1 where acc: "accept_run se owner ?n (fresh ?n) timestamp run input t = (Ok (), t1)"
    using accept_run_decided(2) [OF ok new(2,3) id room, of owner timestamp input] display by auto
  have e: "event_ok se ?n (fresh ?n) timestamp run (acceptance run input owner)"
    using call room by (intro accept_event_ok) (auto simp: call_ok_def)
  note k = accept_run_keeps [OF reads e acc]
  have range: "sequence_range (of_int (log_length t)) (mutation_count (Accept input)) = Ok (?n, ?n)"
    unfolding sequence_range_def using next_sequence_succeeds [of "log_length t"] room by (simp add: reject_if_def)
  have eff: "mutation_effect se (pv_session_id provenance) owner run ?n ?n fresh timestamp (Accept input) t = (Ok (), t1)"
    using acc by (simp add: mutation_effect_def)
  show ?thesis
    by (rule new_command_commits [OF ok new(1) _ range _ _ room eff _ _ _ _ hash])
      (use k(1,3) in \<open>simp_all add: mutation_checks_def store_reads_def grown_def new_event_def\<close>)
qed

text \<open>A run accepted with a history: the selection is written without a look at the prefix its digest names.\<close>

lemma select_history_runs:
  assumes t: "store_ok se provenance t" and new: "run_row t run = None" "\<not> list_ex unfinished (tb_runs t)"
    and id: "fresh (log_length t + 1) \<notin> set (map ev_event_id (tb_events t))" "fresh (log_length t + 2) \<notin> set (map ev_event_id (tb_events t))"
      "fresh (log_length t + 1) \<noteq> fresh (log_length t + 2)" and room: "log_length t + 2 < 2 ^ 63"
    and display: "se_display_apply se run (of_int (log_length t + 1)) (ProjectAccepted input) (tb_display t) = Ok display"
      "se_display_apply se run (of_int (log_length t + 2)) ProjectHistorySelected display = Ok display'"
  shows "\<exists>t3. mutation_effect se (pv_session_id provenance) owner run (log_length t + 1) (log_length t + 2) fresh timestamp
      (AcceptHistory input selection) t = (Ok (), t3) \<and> schema_ok t3 \<and> tb_commands t3 = tb_commands t \<and>
    log_length t + 1 \<in> set (map ev_sequence (tb_events t3)) \<and> log_length t + 2 \<in> set (map ev_sequence (tb_events t3))"
proof -
  let ?s = "pv_session_id provenance" and ?n = "log_length t + 1" and ?m = "log_length t + 2"
  have room1: "?n < 2 ^ 63" using room by simp
  define t1 where "t1 = projected ?n display (accepted_tables t owner (fresh ?n) timestamp run input)"
  define t2 where "t2 = t1\<lparr>tb_events := tb_events t1 @ [new_event ?m (fresh ?m) timestamp run (RunHistorySelected \<lparr>hp_run_id = run, hp_selection = selection\<rparr>)]\<rparr>"
  note a = accept_run_decided [OF t new id(1) room1, of owner timestamp input]
  have acc: "accept_run se owner ?n (fresh ?n) timestamp run input t = (Ok (), t1)" using a(2) display(1) by (simp add: t1_def)
  obtain mrow proj where mo: "manifest_ok se provenance t mrow proj" and reads: "store_reads se ?s t" using t by (auto simp: store_ok_def)
  have log: "log_ok se ?s t" using reads by (simp add: store_reads_def)
  have seqs: "set (map ev_sequence (tb_events t)) = {1..log_length t}" using log by (simp only: log_ok_def set_upto)
  have p1: "tb_projection t1 = [proj\<lparr>pj_applied_sequence := ?n\<rparr>]" "tb_display t1 = display" "tb_commands t1 = tb_commands t"
    "tb_events t1 = tb_events t @ [new_event ?n (fresh ?n) timestamp run (acceptance run input owner)]"
    using mo by (simp_all add: t1_def projected_def accepted_tables_def manifest_ok_def)
  have meta: "1 \<le> pj_metadata_sequence proj" "pj_metadata_sequence proj \<le> log_length t" "pj_format_version proj = 1"
    using mo log_member [OF log, of "last (metadata t)"] last_in_set [of "metadata t"] by (auto simp: manifest_ok_def)
  have s1: "schema_ok t1" using a(1) meta by (simp add: t1_def projected_def schema_ok_def projection_schema_def list_all_iff)
  have s2: "schema_ok t2" unfolding t2_def
    using seqs id by (intro schema_insert_event [OF s1]) (auto simp: p1(4) new_event_def run_columns EVENT_TYPES_def simp del: set_map)
  have ins: "insert_event ?m (fresh ?m) timestamp run (RunHistorySelected \<lparr>hp_run_id = run, hp_selection = selection\<rparr>) None t1 = (Ok (), t2)"
    using s2 by (subst insert_event_eq) (simp_all add: run_columns execute_ok t2_def)
  have pr: "projector_apply se (of_int ?m) (Some run) ProjectHistorySelected t2 =
      (case se_display_apply se run (of_int ?m) ProjectHistorySelected (tb_display t2) of
         Inl e \<Rightarrow> (Err e, t2)
       | Inr display \<Rightarrow> (Ok (), t2\<lparr>tb_display := display, tb_projection := [proj\<lparr>pj_applied_sequence := ?n\<rparr>\<lparr>pj_applied_sequence := ?m\<rparr>]\<rparr>))"
    by (rule projector_run_decided) (use meta s2 room p1 in \<open>simp_all add: t2_def\<close>)
  let ?t3 = "t2\<lparr>tb_display := display', tb_projection := [proj\<lparr>pj_applied_sequence := ?n\<rparr>\<lparr>pj_applied_sequence := ?m\<rparr>]\<rparr>"
  have "mutation_effect se ?s owner run ?n ?m fresh timestamp (AcceptHistory input selection) t = (Ok (), ?t3)"
    using acc ins pr display(2) by (simp add: mutation_effect_def select_history_def then_do_def t2_def p1(2))
  moreover have "schema_ok ?t3" using s2 meta by (simp add: schema_ok_def projection_schema_def)
  ultimately show ?thesis by (intro exI [of _ ?t3]) (simp add: t2_def p1 new_event_def)
qed

lemma accept_history_succeeds:
  assumes t: "store_inv se provenance t"
    and new: "command_row t operation = None" "run_row t run = None" "\<not> list_ex unfinished (tb_runs t)"
    and id: "fresh (log_length t + 1) \<notin> set (map ev_event_id (tb_events t))" "fresh (log_length t + 2) \<notin> set (map ev_event_id (tb_events t))"
      "fresh (log_length t + 1) \<noteq> fresh (log_length t + 2)" and room: "log_length t + 2 < 2 ^ 63"
    and hash: "length (command_hash se (pv_session_id provenance) run (AcceptHistory input selection)) = 32"
    and sel: "sel_through_sequence selection = of_int (log_length t)" "selection_matches_input selection input"
    and display: "se_display_apply se run (of_int (log_length t + 1)) (ProjectAccepted input) (tb_display t) = Ok display"
      "se_display_apply se run (of_int (log_length t + 2)) ProjectHistorySelected display = Ok display'"
  shows "\<exists>receipt t'. mutate se provenance owner (Ok timestamp) fresh operation run (AcceptHistory input selection) t = (Ok (receipt, False), t')"
proof -
  let ?n = "log_length t + 1" and ?m = "log_length t + 2"
  have ok: "store_ok se provenance t" using t by (simp add: store_inv_def)
  obtain t3 where t3: "mutation_effect se (pv_session_id provenance) owner run ?n ?m fresh timestamp (AcceptHistory input selection) t = (Ok (), t3)"
    "schema_ok t3" "tb_commands t3 = tb_commands t" "?n \<in> set (map ev_sequence (tb_events t3))" "?m \<in> set (map ev_sequence (tb_events t3))"
    using select_history_runs [where owner = owner and timestamp = timestamp, OF ok new(2,3) id room display] by blast
  have range: "sequence_range (of_int (log_length t)) (mutation_count (AcceptHistory input selection)) = Ok (?n, ?m)"
    unfolding sequence_range_def using next_sequence_succeeds [of "log_length t"] room by (simp add: reject_if_def)
  have "mutation_checks se (pv_session_id provenance) run (manifest_of row) (AcceptHistory input selection) t = Ok ()"
    if "sm_head_sequence (manifest_of row) = of_int (log_length t)" for row using sel that by (simp add: mutation_checks_def reject_if_def)
  from new_command_commits [OF ok new(1) this range _ _ room t3(1,2,4,5,3) hash] show ?thesis by auto
qed

lemma accept_refused:
  assumes t: "store_ok se provenance t" and new: "command_row t operation = None" and room: "log_length t + 1 < 2 ^ 63"
    and e: "accept_run se owner (log_length t + 1) (fresh (log_length t + 1)) timestamp run input t = (Err e, t1)"
  shows "mutate se provenance owner (Ok timestamp) fresh operation run (Accept input) t = (Err (not_committed e), t)"
proof -
  let ?s = "pv_session_id provenance" and ?n = "log_length t + 1"
  obtain row where m: "validate_manifest se ?s (Some provenance) t = Ok (manifest_of row)"
      "sm_head_sequence (manifest_of row) = of_int (log_length t)" by (rule store_ok_manifest [OF t])
  have range: "sequence_range (of_int (log_length t)) 1 = Ok (?n, ?n)"
    unfolding sequence_range_def using next_sequence_succeeds [of "log_length t"] room by (simp add: reject_if_def)
  then have range: "sequence_range (sm_head_sequence (manifest_of row)) (Suc 0) = Ok (?n, ?n)" by (simp only: m(2) One_nat_def)
  have c: "command ?s t operation = Ok None" using store_ok_command [OF t] new(1) by simp
  have "new_command se provenance owner (Ok timestamp) fresh operation run (Accept input) t = (Err e, t1)"
    unfolding new_command_def Let_def then_do_def query_def m(1) mutation_checks_def Mutation.case from_result_def mutation_effect_def
    using e by (simp add: range)
  then show ?thesis by (simp add: mutate_def transact_def then_do_def query_def repeated_command_def c)
qed

section \<open>An example store\<close>

definition example_creation_json :: "CreationRequest \<Rightarrow> str" where
  "example_creation_json r = mark_strings (cq_method r # cq_title r # (case cq_workspace r of None \<Rightarrow> [] | Some w \<Rightarrow> [w]))"

definition example_creation_decode :: "str \<Rightarrow> CreationRequest option" where
  "example_creation_decode s = (case unmark_strings [] s of
     Some [m, t] \<Rightarrow> Some \<lparr>cq_method = m, cq_title = t, cq_workspace = None\<rparr>
   | Some [m, t, w] \<Rightarrow> Some \<lparr>cq_method = m, cq_title = t, cq_workspace = Some w\<rparr>
   | _ \<Rightarrow> None)"

definition example_env :: "(str, unit) store_env" where
  "example_env =
     \<lparr>se_uuid = \<lparr>uuid_parse_str = Some, uuid_is_nil = (\<lambda>_. False), uuid_hyphenated = (\<lambda>u. u)\<rparr>,
      se_crates = example_crates,
      se_creation_json = example_creation_json, se_creation_decode = example_creation_decode,
      se_rename_json = (\<lambda>session title. session @ title),
      se_command_json = (\<lambda>session run mutation. run @ Mutation_method mutation),
      se_display_empty = (),
      se_display_apply = (\<lambda>run sequence input display. Ok display)\<rparr>"

definition example_request :: CreateSession where
  "example_request = \<lparr>cs_operation_id = ''create'', cs_title = ''notes'', cs_workspace = None\<rparr>"

definition example_provenance :: CreationProvenance where
  "example_provenance = \<lparr>pv_operation_id = ''create'', pv_method = ''create_session'',
     pv_request_json = example_creation_json (CreateSession_request example_request),
     pv_payload_hash = dto_hash example_env (example_creation_json (CreateSession_request example_request)), pv_session_id = ''session'', pv_creation_event_id = ''created'',
     pv_created_at_ms = 5,
     pv_receipt = \<lparr>rc_operation_id = ''create'', rc_session_id = ''session'', rc_run_id = None, rc_first_sequence = 1, rc_last_sequence = 1\<rparr>\<rparr>"

abbreviation example_tables :: "unit tables" where
  "example_tables \<equiv> created_tables example_env example_provenance example_request"

definition example_input :: RecordedRunInput where
  "example_input = \<lparr>in_user_text = ''hello'',
     in_prepared_request = \<lparr>req_provider_id = ''p'', req_options = SessionOptions_new ''m'', req_prompt = ''hello''\<rparr>,
     in_tool_definitions = [], in_available_skills = [], in_active_skills = [], in_project_instructions_source = None\<rparr>"

definition example_fresh :: "i64 \<Rightarrow> str" where
  "example_fresh n = replicate (nat n) CHR ''e''"

lemma example_ids: "storage_id_from_str (se_uuid example_env) x = Ok x" "parse_run_id (se_uuid example_env) x = Ok x"
  by (simp_all add: storage_id_from_str_def parse_run_id_def example_env_def reject_if_def)

lemma example_json: "example_creation_decode (example_creation_json r) = Some r"
  by (cases r) (auto simp: example_creation_decode_def example_creation_json_def unmark_mark_strings split: option.splits)

lemma example_request_read: "CreationProvenance_request example_env example_provenance = Ok example_request"
  by (simp add: CreationProvenance_request_def example_env_def example_provenance_def example_json dto_hash_def)
   (simp add: example_request_def CreateSession_request_def
      CommitReceipt_single_def CommitReceipt_try_from_def CreateSession_new_def validate_workspace_def one_small reject_if_def)

lemma example_typed: "provenance_typed example_env example_provenance"
  by (simp add: provenance_typed_def example_ids)

lemma example_reachable: "reachable example_env example_provenance example_tables"
  by (rule reachable.created [OF initialize_succeeds [OF example_request_read example_typed] example_typed])

lemma example_not_blank: "\<not> is_blank ''m''" "\<not> is_blank ''hello''" "\<not> is_blank ''You are a helpful assistant.''"
  by code_simp+

lemma example_input_typed: "RecordedRunInput_try_from example_crates example_input = Ok example_input"
  by (simp add: RecordedRunInput_try_from_def RecordedRunInput_new_def example_input_def SessionOptions_new_def validate_input_def
      SessionOptions_validate_def reject_if_def example_not_blank example_crates_def example_display_def SessionOptions_value_def
      MAX_INPUT_ITEMS_def MAX_INPUT_BYTES_def MAX_TOOLS_def)

lemma example_call: "call_ok example_env ''owner'' (Ok 7) example_fresh ''accept'' ''run'' (Accept example_input)"
  using example_input_typed by (simp add: call_ok_def ids_ok_def example_ids) (simp add: example_env_def)

lemma example_laws:
  "se_display_apply example_env run n input () = Ok ()" "length (sha256 (se_crates example_env) b) = 32"
  "length (command_hash example_env session run mutation) = 32" "example_fresh 2 = ''ee''" "pv_session_id example_provenance = ''session''"
  by (simp_all add: command_hash_def dto_hash_def example_env_def example_crates_def example_fresh_def numeral_2_eq_2 example_provenance_def)

lemma example_empty:
  "command_row example_tables operation = None" "run_row example_tables run = None" "\<not> list_ex unfinished (tb_runs example_tables)"
  "map ev_event_id (tb_events example_tables) = [''created'']"
  by (simp_all add: created_tables_def empty_tables_def run_row_def created_row_def example_provenance_def)

lemma example_accepted:
  "\<exists>t'. mutate example_env example_provenance ''owner'' (Ok 7) example_fresh ''accept'' ''run'' (Accept example_input) example_tables =
    (Ok (\<lparr>rc_operation_id = ''accept'', rc_session_id = ''session'', rc_run_id = Some ''run'', rc_first_sequence = 2, rc_last_sequence = 2\<rparr>, False), t')"
proof -
  have len: "length (tb_events example_tables) = 1" by (simp add: created_tables_def)
  show ?thesis
    using accept_succeeds [OF reachable_inv [OF example_reachable] example_call example_empty(1-3) _ _ example_laws(3), of "()"]
    by (simp add: len example_empty(4) example_laws)
qed

section \<open>Properties\<close>

lemma find_member: "List.find P xs = Some x \<Longrightarrow> x \<in> set xs"
  by (auto simp: find_Some_iff)

lemma run_record_reads: "store_reads se session t \<Longrightarrow> \<exists>found. run_record se session t run = Ok found"
  using find_member [of "\<lambda>r. rn_run_id r = run" "tb_runs t"]
  by (cases "run_row t run") (auto simp: run_record_def store_reads_def runs_read_def run_row_def)

lemma tool_result_total: "store_reads se session t \<Longrightarrow> \<exists>found. stored_tool_result se session t run call = Ok found"
  using find_member [of "\<lambda>r. tr_run_id r = run \<and> tr_call_id r = call" "tb_tools t"]
  by (cases "tool_row t run call") (auto simp: stored_tool_result_def store_reads_def tools_read_def tool_row_def)

text \<open>C3: Every store reached from creation by run mutations, renames and reconciliations, successful or rolled back, is in
  order: its manifest validates with the last event as head, and no reader (events of the log, runs, tool results,
  history selections, commands) answers an integrity error.\<close>

theorem reachable_store_reads:
  assumes "reachable se provenance t"
  defines "session \<equiv> pv_session_id provenance"
  shows "(\<exists>manifest. validate_manifest se session (Some provenance) t = Ok manifest \<and>
        sm_head_sequence manifest = of_int (log_length t)) \<and>
      (\<forall>i. 1 \<le> i \<and> i \<le> log_length t \<longrightarrow> (\<exists>event. history_event se session t (of_int i) = Ok event)) \<and>
      (\<forall>run. (\<exists>found. run_record se session t run = Ok found) \<and> (\<exists>found. history_selection se session t run = Ok found) \<and>
        (\<forall>call. \<exists>found. stored_tool_result se session t run call = Ok found)) \<and>
      (\<forall>operation. \<exists>found. command session t operation = Ok found)"
proof -
  have inv: "store_inv se provenance t" by (rule reachable_inv [OF assms(1)])
  then have ok: "store_ok se provenance t" and reads: "store_reads se session t" by (simp_all add: store_inv_def store_ok_def session_def)
  have "\<exists>found. run_record se session t run = Ok found" for run by (rule run_record_reads [OF reads])
  moreover have "\<exists>found. stored_tool_result se session t run call = Ok found" for run call by (rule tool_result_total [OF reads])
  moreover have "\<exists>event. history_event se session t (of_int i) = Ok event" if "1 \<le> i" "i \<le> log_length t" for i
    using reads that by (auto simp: store_reads_def elim: log_ok_event)
  ultimately show ?thesis
    using history_selection_reads [OF inv] store_ok_command [OF ok] store_ok_manifest [OF ok] unfolding session_def by metis
qed

theorem reachable_store_reads_witness:
  "reachable example_env example_provenance example_tables \<and>
   (\<exists>manifest. validate_manifest example_env ''session'' (Some example_provenance) example_tables = Ok manifest)"
  using reachable_store_reads [OF example_reachable] example_reachable by (auto simp: example_provenance_def)

text \<open>C4: A command is applied once.  Once a mutation has committed, repeating its operation id with the same content, at any
  later state of the store, answers the original receipt as a duplicate and changes nothing; other content under
  the same id is a conflict and changes nothing.\<close>

theorem operation_applied_once:
  assumes "reachable se provenance t" "call_ok se owner now fresh operation run mutation"
    and "mutate se provenance owner now fresh operation run mutation t = (Ok (receipt, False), t')"
    and "(store_step se provenance)\<^sup>*\<^sup>* t' t''"
  shows "mutate se provenance owner' now' fresh' operation run mutation t'' = (Ok (receipt, True), t'') \<and>
    (command_hash se (pv_session_id provenance) run' mutation' \<noteq> command_hash se (pv_session_id provenance) run mutation \<longrightarrow>
     mutate se provenance owner' now' fresh' operation run' mutation' t'' =
       (Err (not_committed (StorageError_new CommandConflict)), t''))"
proof -
  have inv: "store_inv se provenance t" by (rule reachable_inv [OF assms(1)])
  then have ok: "store_ok se provenance t" by (simp add: store_inv_def)
  have "new_command se provenance owner now fresh operation run mutation t = (Ok receipt, t')"
    using assms(3) unfolding mutate_def by (auto simp: transact_Ok sql_Ok split: option.splits)
  note k = new_command_keeps [OF ok assms(2) this]
  have inv': "store_inv se provenance t'" using step_inv [OF store_step.mutated [OF assms(2,3)] inv] .
  note kept = commands_kept [OF assms(4) inv'] and inv'' = steps_inv [OF assms(4) inv']
  let ?row = "last (tb_commands t')"
  have row: "?row \<in> set (tb_commands t'')" using kept k(2) by auto
  have sel: "\<exists>e \<in> set (tb_events t''). ev_payload_json e = RunHistorySelected \<lparr>hp_run_id = run, hp_selection = selection\<rparr>"
    if "mutation = AcceptHistory input selection" for input selection
  proof -
    from k(4) obtain timestamp where "tb_events t' = tb_events t @ mutation_rows (log_length t + 1) fresh timestamp run owner mutation" by blast
    then have "last (tb_events t') \<in> set (tb_events t')" "ev_payload_json (last (tb_events t')) = RunHistorySelected \<lparr>hp_run_id = run, hp_selection = selection\<rparr>"
      by (simp_all add: that selected_new)
    then show ?thesis using kept by blast
  qed
  have m: "cm_operation_id ?row = operation" "cm_method ?row = Mutation_method mutation"
      "cm_payload_hash ?row = command_hash se (pv_session_id provenance) run mutation"
      "rc_run_id (cm_receipt_json ?row) = Some run" "cm_receipt_json ?row = receipt"
    using k(2,3) by simp_all
  show ?thesis using repeated_receipt [OF inv'' row m(1-4) sel] m(5) by simp
qed

theorem operation_applied_once_witness:
  "\<exists>receipt t'. mutate example_env example_provenance ''owner'' (Ok 7) example_fresh ''accept'' ''run'' (Accept example_input) example_tables =
      (Ok (receipt, False), t') \<and>
    mutate example_env example_provenance ''other'' (Ok 9) example_fresh ''accept'' ''run'' (Accept example_input) t' = (Ok (receipt, True), t')"
  using example_accepted operation_applied_once [OF example_reachable example_call _ rtranclp.rtrancl_refl] by blast

text \<open>C6: Creating a session succeeds: the provenance of a new session, built from a request with an absolute workspace path and
  parsed ids, initializes a database whose manifest carries the requested title and the creation event as its head.\<close>

theorem session_creation_succeeds:
  assumes json: "\<And>request. se_creation_decode se (se_creation_json se request) = Some request"
    and input: "validate_workspace (cs_workspace input) = Ok ()"
    and ids: "\<forall>x \<in> {cs_operation_id input, session, event}. storage_id_from_str (se_uuid se) x = Ok x"
    and now: "0 \<le> created"
  shows "\<exists>provenance manifest t. CreationProvenance_new se input session event (Ok created) = Ok provenance \<and>
    initialize se provenance = Ok (manifest, t) \<and> sm_title manifest = cs_title input \<and>
    sm_workspace manifest = cs_workspace input \<and> sm_head_sequence manifest = 1"
proof -
  let ?receipt = "\<lparr>rc_operation_id = cs_operation_id input, rc_session_id = session, rc_run_id = None, rc_first_sequence = 1, rc_last_sequence = 1\<rparr>"
  let ?json = "se_creation_json se (CreateSession_request input)"
  let ?p = "\<lparr>pv_operation_id = cs_operation_id input, pv_method = ''create_session'', pv_request_json = ?json,
     pv_payload_hash = dto_hash se ?json, pv_session_id = session, pv_creation_event_id = event, pv_created_at_ms = created,
     pv_receipt = ?receipt\<rparr>"
  have receipt: "CommitReceipt_single (cs_operation_id input) session 1 = Ok ?receipt"
    by (simp add: CommitReceipt_single_def CommitReceipt_try_from_def one_small reject_if_def)
  then have new: "CreationProvenance_new se input session event (Ok created) = Ok ?p" by (simp add: CreationProvenance_new_def Let_def)
  have "CreationProvenance_request se ?p = Ok input"
    using json input now receipt
    by (cases input) (simp add: CreationProvenance_request_def CreateSession_request_def CreateSession_new_def reject_if_def)
  then have "initialize se ?p = Ok (manifest_of (hd (tb_manifest (created_tables se ?p input))), created_tables se ?p input)"
    using ids by (intro initialize_succeeds) (simp_all add: provenance_typed_def)
  then show ?thesis using new by (auto simp: manifest_of_def created_tables_def)
qed


theorem session_creation_succeeds_witness:
  "\<exists>provenance manifest t. CreationProvenance_new example_env example_request ''session'' ''created'' (Ok 5) = Ok provenance \<and>
    initialize example_env provenance = Ok (manifest, t) \<and> sm_title manifest = ''notes''"
proof -
  have "se_creation_decode example_env (se_creation_json example_env request) = Some request" for request
    by (simp add: example_env_def example_json)
  then show ?thesis
    using session_creation_succeeds [of example_env example_request "''session''" "''created''" 5]
    by (auto simp: example_ids example_request_def validate_workspace_def reject_if_def)
qed

text \<open>C7: What accepting a run does, in every reachable store, for a new operation with a new event id and room in the log.  A run id
  that is already known and an unfinished run are refused with their own errors.  Otherwise the display rows the projector writes
  for the acceptance decide: if it refuses, its error is returned and the tables stay as they were; if it writes them, the
  transaction commits, the receipt covers the one new event, and the accepted run reads back with its input.\<close>

theorem run_acceptance_decided:
  assumes "reachable se provenance t" "call_ok se owner (Ok timestamp) fresh operation run (Accept input)"
    and "command_row t operation = None"
    and "fresh (log_length t + 1) \<notin> set (map ev_event_id (tb_events t))" "log_length t + 1 < 2 ^ 63"
    and "\<And>text. length (sha256 (se_crates se) text) = 32"
  shows "if run_row t run \<noteq> None
    then mutate se provenance owner (Ok timestamp) fresh operation run (Accept input) t = (Err (not_committed transition), t)
    else if list_ex unfinished (tb_runs t)
    then mutate se provenance owner (Ok timestamp) fresh operation run (Accept input) t = (Err (not_committed (StorageError_new ActiveRunExists)), t)
    else case se_display_apply se run (of_int (log_length t + 1)) (ProjectAccepted input) (tb_display t) of
      Inl e \<Rightarrow> mutate se provenance owner (Ok timestamp) fresh operation run (Accept input) t = (Err (not_committed e), t)
    | Inr display \<Rightarrow> (\<exists>receipt t'. mutate se provenance owner (Ok timestamp) fresh operation run (Accept input) t = (Ok (receipt, False), t') \<and>
        rc_run_id receipt = Some run \<and> rc_first_sequence receipt = of_int (log_length t + 1) \<and> rc_last_sequence receipt = of_int (log_length t') \<and>
        run_record se (pv_session_id provenance) t' run = Ok (Some (accepted_run run (log_length t + 1) input owner)))"
proof -
  have inv: "store_inv se provenance t" by (rule reachable_inv [OF assms(1)])
  then have ok: "store_ok se provenance t" by (simp add: store_inv_def)
  note refused = accept_refused [OF ok assms(3,5)]
  consider (known) "run_row t run \<noteq> None" | (busy) "run_row t run = None" "list_ex unfinished (tb_runs t)"
    | (free) "run_row t run = None" "\<not> list_ex unfinished (tb_runs t)" by blast
  then show ?thesis
  proof cases
    case known
    then have "accept_run se owner (log_length t + 1) (fresh (log_length t + 1)) timestamp run input t = (Err transition, t)"
      by (simp add: accept_run_def then_do_def query_def reject_if_def)
    then show ?thesis using refused known by auto
  next
    case busy
    then have "accept_run se owner (log_length t + 1) (fresh (log_length t + 1)) timestamp run input t = (Err (StorageError_new ActiveRunExists), t)"
      by (simp add: accept_run_def then_do_def query_def reject_if_def)
    then show ?thesis using refused busy by auto
  next
    case free
    show ?thesis
    proof (cases "se_display_apply se run (of_int (log_length t + 1)) (ProjectAccepted input) (tb_display t)")
      case (Inl e)
      then obtain t1 where "accept_run se owner (log_length t + 1) (fresh (log_length t + 1)) timestamp run input t = (Err e, t1)"
        using accept_run_decided(2) [OF ok free assms(4,5), of owner timestamp input] by auto
      then show ?thesis using refused free Inl by auto
    next
      case (Inr display)
      have hash: "length (command_hash se (pv_session_id provenance) run (Accept input)) = 32"
        using assms(6) by (simp add: command_hash_def dto_hash_def)
      obtain receipt t' where r: "receipt = \<lparr>rc_operation_id = operation, rc_session_id = pv_session_id provenance, rc_run_id = Some run,
          rc_first_sequence = of_int (log_length t + 1), rc_last_sequence = of_int (log_length t + 1)\<rparr>"
        and run: "mutate se provenance owner (Ok timestamp) fresh operation run (Accept input) t = (Ok (receipt, False), t')"
        using accept_succeeds [OF inv assms(2,3) free assms(4,5) hash Inr] by blast
      then have new: "new_command se provenance owner (Ok timestamp) fresh operation run (Accept input) t = (Ok receipt, t')"
        unfolding mutate_def by (auto simp: transact_Ok sql_Ok split: option.splits)
      note k = new_command_keeps [OF ok assms(2) new]
      have len: "log_length t' = log_length t + 1" using k(4) by auto
      have "rc_run_id receipt = Some run \<and> rc_first_sequence receipt = of_int (log_length t + 1) \<and> rc_last_sequence receipt = of_int (log_length t')"
        unfolding len r by simp
      then show ?thesis using run k(5) free Inr by auto
    qed
  qed
qed

theorem run_acceptance_decided_witness:
  "\<exists>receipt t'. mutate example_env example_provenance ''owner'' (Ok 7) example_fresh ''accept'' ''run'' (Accept example_input) example_tables =
      (Ok (receipt, False), t') \<and> rc_first_sequence receipt = 2"
proof -
  have len: "length (tb_events example_tables) = 1" by (simp add: created_tables_def)
  show ?thesis
    using run_acceptance_decided [OF example_reachable example_call example_empty(1)]
    by (auto simp: len example_empty example_laws)
qed

end
