(* ===== verification/Store_Repair.thy ===== *)
theory Store_Repair
  imports Store_Progress
begin

text \<open>
  The check a session database passes before the catalog repairs an entry from it: \<open>storage/run_store/repair.rs\<close> (the
  events of one run replayed against its row and tool results), \<open>storage/history_prefix.rs\<close> (the digest of the log up to a
  sequence), \<open>observe\<close> of \<open>storage/catalog_sync.rs\<close> and \<open>validate_history\<close> of \<open>storage/catalog_repair.rs\<close>.  The two keyset loops of
  \<open>validate_run\<close> are recursive functions; they end because each query asks for a row beyond the last one.
\<close>

section \<open>Checks of one event\<close>

text \<open>\<open>require_outputs_before\<close>: a completed run has every tool result, recorded before the event that completed it.\<close>

definition require_outputs_before :: "'d tables \<Rightarrow> str \<Rightarrow> RunOutcome \<Rightarrow> u64 \<Rightarrow> StorageError + unit" where
  "require_outputs_before t run outcome sequence =
     reject_if (outcome = RunCompleted \<and>
       list_ex (\<lambda>r. tr_run_id r = run \<and>
         (case tr_result_sequence r of None \<Rightarrow> True | Some n \<Rightarrow> n \<ge> sint sequence)) (tb_tools t)) integrity"

definition validate_tool_event ::
    "('u, 'd) store_env \<Rightarrow> str \<Rightarrow> 'd tables \<Rightarrow> str \<Rightarrow> u64 \<Rightarrow> RunEventEnvelope \<Rightarrow> ToolExecutionEvent \<Rightarrow> StorageError + unit" where
  "validate_tool_event se session t run sequence envelope event =
     and_then (stored_tool_result se session t run (tool_event_call event)) (\<lambda>found.
     and_then (ok_or integrity found) (\<lambda>saved.
     case event of
       ToolExecutionStarted _ _ \<Rightarrow> reject_if (rt_started_sequence saved \<noteq> sequence) integrity
     | ToolExecutionFinished _ _ _ \<Rightarrow>
         and_then (reject_if (rt_finished_sequence saved \<noteq> Some sequence) integrity) (\<lambda>_.
         and_then (history_event se session t (rt_started_sequence saved)) (\<lambda>started.
         and_then (case sv_payload started of RuntimeObserved e \<Rightarrow> Ok e | _ \<Rightarrow> Err integrity) (\<lambda>started.
         reject_if (re_turn_id started \<noteq> re_turn_id envelope) integrity)))
     | ToolResultReused _ name \<Rightarrow>
         reject_if (rt_tool_name saved \<noteq> name \<or> rt_request_id saved = None \<or>
           \<not> (case rt_result_sequence saved of None \<Rightarrow> False | Some result \<Rightarrow> result < sequence)) integrity))"

section \<open>Replaying the events of a run\<close>

record repair_state =
  rp_replay :: RecordedRun
  rp_selection_seen :: bool
  rp_binding_seen :: bool
  rp_correlation :: Correlation
  rp_after :: i64

text \<open>The errors \<open>observe\<close> gives for a refused event are integrity errors here.\<close>

definition observed_error :: "StorageError \<Rightarrow> StorageError" where
  "observed_error error =
     (if error_kind error \<in> {InvalidInput, InvalidTransition, CommandConflict} then integrity else error)"

definition repair_runtime ::
    "('u, 'd) store_env \<Rightarrow> str \<Rightarrow> 'd tables \<Rightarrow> str \<Rightarrow> StoredEvent \<Rightarrow> RunEventEnvelope \<Rightarrow> repair_state \<Rightarrow> StorageError + repair_state" where
  "repair_runtime se session t run_id stored event st =
     and_then (if rp_selection_seen st \<and> \<not> rp_binding_seen st
        then map_err (\<lambda>_. integrity) (validate_unbound_runtime event) else Ok ()) (\<lambda>_.
     and_then (map_err observed_error
        (Correlation_observe t (rp_correlation st) (rp_replay st) event (sint (sv_sequence stored)))) (\<lambda>correlation.
     and_then (case re_event event of
        RunStarted \<Rightarrow> Ok ((rp_replay st)\<lparr>rec_state := StateRunning\<rparr>)
      | RunFinished outcome _ \<Rightarrow>
          and_then (require_outputs_before t run_id outcome (sv_sequence stored)) (\<lambda>_.
          Ok ((rp_replay st)\<lparr>rec_state := outcome_state outcome, rec_terminal := Some stored\<rparr>))
      | ToolEvent tool \<Rightarrow>
          and_then (validate_tool_event se session t run_id (sv_sequence stored) event tool) (\<lambda>_. Ok (rp_replay st))
      | _ \<Rightarrow> Ok (rp_replay st)) (\<lambda>replay.
     Ok (st\<lparr>rp_replay := replay\<lparr>rec_last_runtime_sequence := re_sequence event, rec_provider_session_id := re_session_id event\<rparr>,
            rp_correlation := correlation\<rparr>))))"

definition repair_result ::
    "'d tables \<Rightarrow> str \<Rightarrow> StoredEvent \<Rightarrow> RunResult \<Rightarrow> repair_state \<Rightarrow> StorageError + repair_state" where
  "repair_result t run_id stored result st =
     (let replay = rp_replay st in
      and_then (if rp_selection_seen st \<and> \<not> rp_binding_seen st
         then map_err (\<lambda>_. integrity) (validate_unbound_result result) else Ok ()) (\<lambda>_.
      and_then (reject_if (rec_state replay = StateInterrupted \<or> rec_result_sequence replay \<noteq> None) integrity) (\<lambda>_.
      and_then (if active (rec_state replay) then
           and_then (reject_if (result_events_complete result \<or> (rec_provider_session_id replay \<noteq> None
              \<and> rec_provider_session_id replay \<noteq> result_session_id result)) integrity) (\<lambda>_.
           and_then (require_outputs_before t run_id (result_outcome result) (sv_sequence stored)) (\<lambda>_.
           Ok (replay\<lparr>rec_state := outcome_state (result_outcome result), rec_provider_session_id := result_session_id result,
               rec_terminal := Some stored\<rparr>)))
         else
           and_then (ok_or integrity (rec_terminal replay)) (\<lambda>terminal.
           and_then (ok_or integrity (terminal_outcome terminal)) (\<lambda>(outcome, provider).
           and_then (reject_if (outcome \<noteq> result_outcome result \<or> provider \<noteq> result_session_id result) integrity) (\<lambda>_.
           Ok replay)))) (\<lambda>replay.
      Ok (st\<lparr>rp_replay := replay\<lparr>rec_result_sequence := Some (sv_sequence stored)\<rparr>\<rparr>)))))"

text \<open>The \<open>match\<close> on the payload of one event.\<close>

definition repair_event ::
    "('u, 'd) store_env \<Rightarrow> str \<Rightarrow> 'd tables \<Rightarrow> str \<Rightarrow> StoredEvent \<Rightarrow> repair_state \<Rightarrow> StorageError + repair_state" where
  "repair_event se session t run_id stored st =
     (case sv_payload stored of
        RunAccepted _ \<Rightarrow>
          and_then (reject_if (rp_after st \<noteq> 0 \<or> sv_sequence stored \<noteq> rec_accepted_sequence (rp_replay st)) integrity) (\<lambda>_. Ok st)
      | RunHistorySelected _ \<Rightarrow>
          and_then (reject_if (rp_selection_seen st \<or> of_int (rp_after st) \<noteq> rec_accepted_sequence (rp_replay st)) integrity) (\<lambda>_.
          and_then (history_selection se session t run_id) (\<lambda>found.
          and_then (ok_or integrity found) (\<lambda>_.
          Ok (st\<lparr>rp_selection_seen := True\<rparr>))))
      | RunProviderBound binding \<Rightarrow>
          and_then (reject_if (\<not> rp_selection_seen st \<or> rp_binding_seen st \<or> rec_state (rp_replay st) \<noteq> StateRunning) integrity) (\<lambda>_.
          and_then (provider_binding se session t run_id) (\<lambda>found.
          and_then (ok_or integrity found) (\<lambda>_.
          Ok (st\<lparr>rp_replay := (rp_replay st)\<lparr>rec_provider_session_id := Some (bind_provider_session_id binding)\<rparr>,
                 rp_correlation := (rp_correlation st)\<lparr>co_session := Some (bind_provider_session_id binding)\<rparr>,
                 rp_binding_seen := True\<rparr>))))
      | RuntimeObserved event \<Rightarrow> repair_runtime se session t run_id stored event st
      | ToolResultRecorded payload \<Rightarrow>
          and_then (reject_if (rec_state (rp_replay st) \<noteq> StateRunning \<or> (rp_selection_seen st \<and> \<not> rp_binding_seen st)) integrity) (\<lambda>_.
          and_then (stored_tool_result se session t run_id (tp_call_id payload)) (\<lambda>found.
          and_then (ok_or integrity found) (\<lambda>saved.
          and_then (reject_if (rt_result_sequence saved \<noteq> Some (sv_sequence stored)) integrity) (\<lambda>_. Ok st))))
      | RunResultRecorded result \<Rightarrow> repair_result t run_id stored result st
      | RunInterrupted _ \<Rightarrow>
          and_then (reject_if (\<not> active (rec_state (rp_replay st))) integrity) (\<lambda>_.
          Ok (st\<lparr>rp_replay := (rp_replay st)\<lparr>rec_state := StateInterrupted, rec_terminal := Some stored\<rparr>\<rparr>))
      | _ \<Rightarrow> Err integrity)"

text \<open>The keyset query of the loop: the next event of the run after a sequence.\<close>

definition next_run_event :: "'d tables \<Rightarrow> str \<Rightarrow> i64 \<Rightarrow> EventRow option" where
  "next_run_event t run_id after =
     (case sort_key ev_sequence (filter (\<lambda>r. ev_run_id r = Some run_id \<and> ev_sequence r > after) (tb_events t)) of
        [] \<Rightarrow> None | row # _ \<Rightarrow> Some row)"

definition is_accepted :: "StoredEventPayload \<Rightarrow> bool" where
  "is_accepted payload = (case payload of RunAccepted _ \<Rightarrow> True | _ \<Rightarrow> False)"

function repair_events ::
    "('u, 'd) store_env \<Rightarrow> str \<Rightarrow> 'd tables \<Rightarrow> str \<Rightarrow> repair_state \<Rightarrow> StorageError + repair_state" where
  "repair_events se session t run_id st =
     (case next_run_event t run_id (rp_after st) of
        None \<Rightarrow> Ok st
      | Some row \<Rightarrow>
          (case decode se session row of
             Inl e \<Rightarrow> Err e
           | Inr stored \<Rightarrow>
               (case (if rp_after st = 0 \<and> \<not> is_accepted (sv_payload stored) then Err integrity
                      else repair_event se session t run_id stored st) of
                  Inl e \<Rightarrow> Err e
                | Inr st' \<Rightarrow> repair_events se session t run_id (st'\<lparr>rp_after := sint (sv_sequence stored)\<rparr>))))"
  by auto

lemma filter_shrinks:
  "x \<in> set xs \<Longrightarrow> P x \<Longrightarrow> \<not> Q x \<Longrightarrow> (\<And>y. Q y \<Longrightarrow> P y) \<Longrightarrow> length (filter Q xs) < length (filter P xs)"
proof (induction xs)
  case (Cons y xs)
  have "length (filter Q ys) \<le> length (filter P ys)" for ys using Cons.prems(4) by (induction ys) (auto intro: le_SucI)
  from this [of xs] show ?case using Cons by (auto simp: less_Suc_eq_le)
qed simp

lemma next_run_event_Some:
  assumes "next_run_event t run_id after = Some row"
  shows "row \<in> set (tb_events t)" "ev_run_id row = Some run_id" "after < ev_sequence row"
proof -
  have "row \<in> set (sort_key ev_sequence (filter (\<lambda>r. ev_run_id r = Some run_id \<and> ev_sequence r > after) (tb_events t)))"
    using assms unfolding next_run_event_def by (auto split: list.splits simp del: set_sort)
  then show "row \<in> set (tb_events t)" "ev_run_id row = Some run_id" "after < ev_sequence row" by simp_all
qed

lemma decode_sequence:
  assumes "decode se session row = Ok e"
  shows "sint (sv_sequence e) = ev_sequence row"
proof -
  have "0 \<le> ev_sequence row" "ev_sequence row < 2 ^ 63"
    using assms by (auto simp: decode_def wi_results u64_try_from_i64_def split: if_splits)
  then show ?thesis unfolding decode_Ok(1) [OF assms] by (rule sint_of_i64)
qed

termination repair_events
proof (relation "measure (\<lambda>(se, session, t, run_id, st). length (filter (\<lambda>r. ev_sequence r > rp_after st) (tb_events t)))")
  fix se :: "('u, 'd) store_env" and session and t :: "'d tables" and run_id st row stored st'
  assume row: "next_run_event t run_id (rp_after st) = Some row" and d: "decode se session row = Ok stored"
  note next_run_event_Some [OF row]
  moreover have "sint (sv_sequence stored) = ev_sequence row" by (rule decode_sequence [OF d])
  ultimately have "length (filter (\<lambda>r. ev_sequence r > sint (sv_sequence stored)) (tb_events t)) < length (filter (\<lambda>r. ev_sequence r > rp_after st) (tb_events t))"
    by (intro filter_shrinks [of row]) auto
  then show "((se, session, t, run_id, st'\<lparr>rp_after := sint (sv_sequence stored)\<rparr>), se, session, t, run_id, st)
    \<in> measure (\<lambda>(se, session, t, run_id, st). length (filter (\<lambda>r. ev_sequence r > rp_after st) (tb_events t)))" by simp
qed simp

text \<open>The reverse pass over the tool results of a run, in the byte order of their call ids.\<close>

definition next_call :: "'d tables \<Rightarrow> str \<Rightarrow> str option \<Rightarrow> str option" where
  "next_call t run_id after =
     (case sort (map tr_call_id (filter (\<lambda>r. tr_run_id r = run_id \<and>
         (case after of None \<Rightarrow> True | Some call \<Rightarrow> tr_call_id r > call)) (tb_tools t))) of
        [] \<Rightarrow> None | call # _ \<Rightarrow> Some call)"

lemma next_call_Some:
  assumes "next_call t run_id after = Some call"
  shows "\<exists>r \<in> set (tb_tools t). tr_run_id r = run_id \<and> tr_call_id r = call" "\<And>old. after = Some old \<Longrightarrow> old < call"
proof -
  have m: "call \<in> set (sort (map tr_call_id (filter (\<lambda>r. tr_run_id r = run_id \<and>
         (case after of None \<Rightarrow> True | Some call \<Rightarrow> tr_call_id r > call)) (tb_tools t))))"
    using assms unfolding next_call_def by (auto split: list.splits simp del: set_sort)
  then show "\<exists>r \<in> set (tb_tools t). tr_run_id r = run_id \<and> tr_call_id r = call" by auto
  show "old < call" if "after = Some old" for old using m that by auto
qed

definition calls_left :: "'d tables \<Rightarrow> str option \<Rightarrow> nat" where
  "calls_left t after = (case after of None \<Rightarrow> Suc (length (tb_tools t))
     | Some call \<Rightarrow> length (filter (\<lambda>r. tr_call_id r > call) (tb_tools t)))"

lemma calls_left_decreases:
  assumes "next_call t run_id after = Some call"
  shows "calls_left t (Some call) < calls_left t after"
proof (cases after)
  case None
  then show ?thesis by (simp add: calls_left_def less_Suc_eq_le)
next
  case (Some old)
  obtain r where "r \<in> set (tb_tools t)" "tr_call_id r = call" using next_call_Some(1) [OF assms] by blast
  moreover have "old < call" using next_call_Some(2) [OF assms Some] .
  ultimately have "length (filter (\<lambda>r. tr_call_id r > call) (tb_tools t)) < length (filter (\<lambda>r. tr_call_id r > old) (tb_tools t))"
    by (intro filter_shrinks [of r]) auto
  then show ?thesis by (simp add: calls_left_def Some)
qed

function repair_calls ::
    "('u, 'd) store_env \<Rightarrow> str \<Rightarrow> 'd tables \<Rightarrow> str \<Rightarrow> str option \<Rightarrow> StorageError + unit" where
  "repair_calls se session t run_id after =
     (case next_call t run_id after of
        None \<Rightarrow> Ok ()
      | Some call \<Rightarrow>
          (case and_then (stored_tool_result se session t run_id call) (ok_or integrity) of
             Inl e \<Rightarrow> Err e
           | Inr _ \<Rightarrow> repair_calls se session t run_id (Some call)))"
  by auto
termination
  by (relation "measure (\<lambda>(se, session, t, run_id, after). calls_left t after)") (simp_all add: calls_left_decreases)

declare repair_events.simps [simp del] repair_calls.simps [simp del]

definition repair_start :: "RecordedRun \<Rightarrow> repair_state" where
  "repair_start recorded =
     \<lparr>rp_replay = \<lparr>rec_run_id = rec_run_id recorded, rec_accepted_sequence = rec_accepted_sequence recorded,
        rec_input = rec_input recorded, rec_state = StateAccepted, rec_last_runtime_sequence = 0,
        rec_owner_instance_id = rec_owner_instance_id recorded, rec_provider_session_id = None, rec_terminal = None,
        rec_result_sequence = None, rec_result = None\<rparr>,
      rp_selection_seen = False, rp_binding_seen = False, rp_correlation = Correlation_default, rp_after = 0\<rparr>"

definition terminal_sequence :: "RecordedRun \<Rightarrow> u64 option" where
  "terminal_sequence run = map_option sv_sequence (rec_terminal run)"

definition validate_run :: "('u, 'd) store_env \<Rightarrow> str \<Rightarrow> 'd tables \<Rightarrow> str \<Rightarrow> StorageError + unit" where
  "validate_run se session t run_id =
     and_then (run_record se session t run_id) (\<lambda>found.
     and_then (ok_or integrity found) (\<lambda>recorded.
     and_then (repair_events se session t run_id (repair_start recorded)) (\<lambda>st.
     let replay = rp_replay st in
     and_then (reject_if (rec_state replay \<noteq> rec_state recorded
        \<or> rec_last_runtime_sequence replay \<noteq> rec_last_runtime_sequence recorded
        \<or> rec_provider_session_id replay \<noteq> rec_provider_session_id recorded
        \<or> terminal_sequence replay \<noteq> terminal_sequence recorded
        \<or> rec_result_sequence replay \<noteq> rec_result_sequence recorded) integrity) (\<lambda>_.
     repair_calls se session t run_id None))))"

section \<open>The digest of a history prefix\<close>

text \<open>\<open>dto::canonical_json\<close>: the members of every object in the order of their keys.\<close>

fun sorted_value :: "Value \<Rightarrow> Value" where
  "sorted_value (Object members) = Object (sort_key fst (map (\<lambda>(key, value). (key, sorted_value value)) members))"
| "sorted_value (Array items) = Array (map sorted_value items)"
| "sorted_value value = value"

definition canonical_json :: "crates \<Rightarrow> Value \<Rightarrow> StorageError + str" where
  "canonical_json cr value = ok_or invalid (json_to_vec cr (sorted_value value))"

definition i64_value :: "i64 \<Rightarrow> Value" where
  "i64_value n = Number (if 0 \<le> n then PosInt (of_int n) else NegInt n)"

definition optional_value :: "('a \<Rightarrow> Value) \<Rightarrow> 'a option \<Rightarrow> Value" where
  "optional_value f x = (case x of None \<Rightarrow> Null | Some y \<Rightarrow> f y)"

text \<open>\<open>payload_value\<close> is the JSON value of a payload, as its derived serializer wrote it into the column.\<close>

definition canonical_row :: "(StoredEventPayload \<Rightarrow> Value) \<Rightarrow> crates \<Rightarrow> EventRow \<Rightarrow> StorageError + str" where
  "canonical_row payload_value cr row =
     map_err (\<lambda>_. integrity) (canonical_json cr (Object
       [(''sequence'', i64_value (ev_sequence row)),
        (''event_id'', String (ev_event_id row)),
        (''event_type'', String (ev_event_type row)),
        (''event_version'', i64_value (ev_event_version row)),
        (''created_at_ms'', i64_value (ev_created_at_ms row)),
        (''run_id'', optional_value String (ev_run_id row)),
        (''source_event_id'', optional_value String (ev_source_event_id row)),
        (''source_sequence'', optional_value i64_value (ev_source_sequence row)),
        (''payload'', payload_value (ev_payload_json row))]))"

text \<open>\<open>history_prefix::digest\<close>.  The running context of SHA-256 is the text fed into it so far.\<close>

definition be_bytes :: "u64 \<Rightarrow> str" where
  "be_bytes w = map (\<lambda>i. char_of (nat ((uint w div 256 ^ i) mod 256))) [7, 6, 5, 4, 3, 2, 1, 0]"

definition hex_bytes :: "str \<Rightarrow> str" where
  "hex_bytes bytes = concat (map (\<lambda>b. hex_digits 2 (byte b)) bytes)"

fun prefix_checkpoints :: "u64 \<Rightarrow> (u64 \<rightharpoonup> str) \<Rightarrow> (u64 \<times> str) list \<Rightarrow> StorageError + (u64 \<rightharpoonup> str)" where
  "prefix_checkpoints through expected [] = Ok expected"
| "prefix_checkpoints through expected ((sequence, digest) # rest) =
     and_then (reject_if (sequence = 0 \<or> sequence > through \<or> \<not> valid_digest digest) integrity) (\<lambda>_.
     and_then (reject_if (case expected sequence of None \<Rightarrow> False | Some old \<Rightarrow> old \<noteq> digest) integrity) (\<lambda>_.
     prefix_checkpoints through (expected(sequence \<mapsto> digest)) rest))"

fun prefix_rows ::
    "(StoredEventPayload \<Rightarrow> Value) \<Rightarrow> crates \<Rightarrow> (u64 \<rightharpoonup> str) \<Rightarrow> EventRow list \<Rightarrow> u64 \<Rightarrow> str \<Rightarrow> StorageError + u64 \<times> str" where
  "prefix_rows payload_value cr expected [] sequence context = Ok (sequence, context)"
| "prefix_rows payload_value cr expected (row # rows) sequence context =
     and_then (reject_if (of_int (ev_sequence row) \<noteq> sequence + 1) integrity) (\<lambda>_.
     and_then (canonical_row payload_value cr row) (\<lambda>json.
     let context = context @ be_bytes (of_nat (length json)) @ json in
     and_then (reject_if (case expected (sequence + 1) of None \<Rightarrow> False
        | Some digest \<Rightarrow> hex_bytes (sha256 cr context) \<noteq> digest) integrity) (\<lambda>_.
     prefix_rows payload_value cr expected rows (sequence + 1) context)))"

definition prefix_digest ::
    "(StoredEventPayload \<Rightarrow> Value) \<Rightarrow> crates \<Rightarrow> 'd tables \<Rightarrow> u64 \<Rightarrow> (u64 \<times> str) list \<Rightarrow> StorageError + str" where
  "prefix_digest payload_value cr t through checkpoints =
     and_then (reject_if (through = 0 \<or> through > i64_max) invalid) (\<lambda>_.
     and_then (prefix_checkpoints through Map.empty checkpoints) (\<lambda>expected.
     and_then (ok_or (StorageError_new NotFound) (case tb_manifest t of [] \<Rightarrow> None | r # _ \<Rightarrow> Some (mf_head_sequence r))) (\<lambda>head.
     and_then (reject_if (head < 1 \<or> through > of_int head) invalid) (\<lambda>_.
     and_then (prefix_rows payload_value cr expected
        (sort_key ev_sequence (filter (\<lambda>r. ev_sequence r \<le> sint through) (tb_events t))) 0 (''wi.history-prefix.v1'' @ [CHR 0x00]))
       (\<lambda>(sequence, context).
     and_then (reject_if (sequence \<noteq> through) integrity) (\<lambda>_.
     Ok (hex_bytes (sha256 cr context))))))))"


section \<open>Validating a history\<close>

datatype SessionAvailability = SessionCreating | SessionReady | SessionMissing | SessionUnavailable

record SessionSummary =
  su_manifest :: SessionManifest
  su_schema_version :: i64
  su_availability :: SessionAvailability
  su_fault_code :: "str option"
  su_last_run_id :: "str option"
  su_last_run_state :: "RecordedRunState option"

text \<open>\<open>catalog_sync::observe\<close>.\<close>

definition observe_session :: "('u, 'd) store_env \<Rightarrow> str \<Rightarrow> 'd tables \<Rightarrow> StorageError + SessionSummary" where
  "observe_session se session t =
     and_then (validate_manifest se session None t) (\<lambda>manifest.
     and_then (case rev (sort_key rn_accepted_sequence (tb_runs t)) of
        [] \<Rightarrow> Ok (None, None)
      | row # _ \<Rightarrow>
          and_then (map_err (\<lambda>_. integrity) (parse_run_id (se_uuid se) (rn_run_id row))) (\<lambda>run_id.
          and_then (run_record se session t run_id) (\<lambda>found.
          and_then (ok_or integrity found) (\<lambda>run.
          Ok (Some run_id, Some (rec_state run)))))) (\<lambda>(run, state).
     and_then (schema_version t) (\<lambda>version.
     Ok \<lparr>su_manifest = manifest, su_schema_version = version, su_availability = SessionReady, su_fault_code = None,
         su_last_run_id = run, su_last_run_state = state\<rparr>)))"

text \<open>The state of the pass over all events: the head, the title and the checkpoints.\<close>

fun history_rows ::
    "('u, 'd) store_env \<Rightarrow> str \<Rightarrow> i64 \<Rightarrow> EventRow list \<Rightarrow> u64 \<Rightarrow> str option \<Rightarrow> (u64 \<times> str) list \<Rightarrow>
     StorageError + u64 \<times> str option \<times> (u64 \<times> str) list" where
  "history_rows se session version [] head title checkpoints = Ok (head, title, checkpoints)"
| "history_rows se session version (row # rows) head title checkpoints =
     and_then (decode se session row) (\<lambda>event.
     and_then (ok_or invalid (checked_add_u64 head 1)) (\<lambda>head.
     and_then (reject_if (sv_sequence event \<noteq> head) integrity) (\<lambda>_.
     case sv_payload event of
       SessionCreated created \<Rightarrow>
         if head = 1 then history_rows se session version rows head (Some (cp_title created)) checkpoints else Err integrity
     | SessionRenamed renamed \<Rightarrow> history_rows se session version rows head (Some renamed) checkpoints
     | RunHistorySelected payload \<Rightarrow>
         if version < 2 then Err integrity
         else history_rows se session version rows head title
           (checkpoints @ [(sel_through_sequence (hp_selection payload), sel_history_digest (hp_selection payload))])
     | RunProviderBound _ \<Rightarrow>
         if version < 2 then Err integrity else history_rows se session version rows head title checkpoints
     | _ \<Rightarrow> history_rows se session version rows head title checkpoints)))"

text \<open>The keyset loops over the history commands and over the runs visit the rows in the order of their key.\<close>

fun history_commands :: "('u, 'd) store_env \<Rightarrow> str \<Rightarrow> 'd tables \<Rightarrow> str list \<Rightarrow> StorageError + unit" where
  "history_commands se session t [] = Ok ()"
| "history_commands se session t (operation # operations) =
     and_then (map_err (\<lambda>_. integrity) (storage_id_from_str (se_uuid se) operation)) (\<lambda>operation.
     and_then (command session t operation) (\<lambda>found.
     and_then (ok_or integrity found) (\<lambda>cmd.
     and_then (ok_or integrity (rc_run_id (cd_receipt cmd))) (\<lambda>run.
     and_then (history_selection se session t run) (\<lambda>found.
     and_then (ok_or integrity found) (\<lambda>_.
     history_commands se session t operations))))))"

fun history_runs :: "('u, 'd) store_env \<Rightarrow> str \<Rightarrow> 'd tables \<Rightarrow> RunRow list \<Rightarrow> StorageError + unit" where
  "history_runs se session t [] = Ok ()"
| "history_runs se session t (row # rows) =
     and_then (map_err (\<lambda>_. integrity) (parse_run_id (se_uuid se) (rn_run_id row))) (\<lambda>run_id.
     and_then (validate_run se session t run_id) (\<lambda>_.
     history_runs se session t rows))"

text \<open>\<open>pragma_foreign_key_check\<close>: the references of the schema.\<close>

definition foreign_keys :: "'d tables \<Rightarrow> bool" where
  "foreign_keys t \<longleftrightarrow>
     (let sequences = map ev_sequence (tb_events t) in
      list_all (\<lambda>r. cm_first_sequence r \<in> set sequences \<and> cm_last_sequence r \<in> set sequences) (tb_commands t) \<and>
      list_all (\<lambda>r. rn_accepted_sequence r \<in> set sequences \<and> optional_reference sequences (rn_terminal_sequence r) \<and>
        optional_reference sequences (rn_result_sequence r)) (tb_runs t) \<and>
      list_all (\<lambda>r. tr_run_id r \<in> set (map rn_run_id (tb_runs t)) \<and> tr_started_sequence r \<in> set sequences \<and>
        optional_reference sequences (tr_finished_sequence r) \<and> optional_reference sequences (tr_result_sequence r)) (tb_tools t))"

text \<open>\<open>quick_check\<close> is the answer of SQLite's own check of the file.\<close>

definition validate_history ::
    "('u, 'd) store_env \<Rightarrow> (StoredEventPayload \<Rightarrow> Value) \<Rightarrow> str \<Rightarrow> str \<Rightarrow> SessionSummary \<Rightarrow> 'd tables \<Rightarrow> StorageError + unit" where
  "validate_history se payload_value quick_check session summary t =
     and_then (reject_if (quick_check \<noteq> ''ok'') integrity) (\<lambda>_.
     and_then (reject_if (\<not> foreign_keys t) integrity) (\<lambda>_.
     and_then (history_rows se session (su_schema_version summary) (sort_key ev_sequence (tb_events t)) 0 None []) (\<lambda>(head, title, checkpoints).
     and_then (reject_if (head \<noteq> sm_head_sequence (su_manifest summary) \<or> title \<noteq> Some (sm_title (su_manifest summary))) integrity) (\<lambda>_.
     and_then (prefix_digest payload_value (se_crates se) t head checkpoints) (\<lambda>_.
     and_then (history_commands se session t
        (sort (map cm_operation_id (filter (\<lambda>r. cm_method r = ''accept_history_run'' \<and> cm_operation_id r > []) (tb_commands t))))) (\<lambda>_.
     and_then (reject_if (list_ex (\<lambda>e. case ev_run_id e of None \<Rightarrow> False
        | Some run \<Rightarrow> \<not> list_ex (\<lambda>r. rn_run_id r = run \<and> (ev_event_type e \<noteq> ''run.accepted'' \<or> rn_accepted_sequence r = ev_sequence e))
            (tb_runs t)) (tb_events t)) integrity) (\<lambda>_.
     history_runs se session t (sort_key rn_accepted_sequence (filter (\<lambda>r. rn_accepted_sequence r > 0) (tb_runs t))))))))))"

end
