(* ===== verification/Repair_Replay.thy ===== *)
theory Repair_Replay
  imports Store_Repair
begin

text \<open>
  The repair check without the tables.  \<open>replay_rows\<close> is the part of \<open>repair_events\<close> that follows one run through the rows of the
  log; \<open>event_checks\<close> is what the check reads besides.  A replay that succeeds fixes the opening of a run with a selected
  history (\<open>opens\<close>), which row closed the run (\<open>replay_closed\<close>), and the correlation \<open>Correlation_load\<close> finds in the log
  (\<open>Correlation_reload\<close>).
\<close>

section \<open>The replay without the tables\<close>

text \<open>\<open>replay_event\<close> is the part of \<open>repair_event\<close> that follows the run; \<open>event_checks\<close> is what it reads of the tables.\<close>

definition replay_runtime :: "'d tables \<Rightarrow> StoredEvent \<Rightarrow> RunEventEnvelope \<Rightarrow> repair_state \<Rightarrow> repair_state option" where
  "replay_runtime t stored event st =
     (if rp_selection_seen st \<and> \<not> rp_binding_seen st \<and> validate_unbound_runtime event \<noteq> Ok () then None
      else case Correlation_observe t (rp_correlation st) (rp_replay st) event (sint (sv_sequence stored)) of
        Inl _ \<Rightarrow> None
      | Inr correlation \<Rightarrow>
          Some (st\<lparr>rp_replay := (case re_event event of
               RunStarted \<Rightarrow> (rp_replay st)\<lparr>rec_state := StateRunning\<rparr>
             | RunFinished outcome _ \<Rightarrow> (rp_replay st)\<lparr>rec_state := outcome_state outcome, rec_terminal := Some stored\<rparr>
             | _ \<Rightarrow> rp_replay st)\<lparr>rec_last_runtime_sequence := re_sequence event, rec_provider_session_id := re_session_id event\<rparr>,
            rp_correlation := correlation\<rparr>))"

definition replay_result :: "StoredEvent \<Rightarrow> RunResult \<Rightarrow> repair_state \<Rightarrow> repair_state option" where
  "replay_result stored result st =
     (let replay = rp_replay st in
      if (rp_selection_seen st \<and> \<not> rp_binding_seen st \<and> validate_unbound_result result \<noteq> Ok ()) \<or>
         rec_state replay = StateInterrupted \<or> rec_result_sequence replay \<noteq> None then None
      else if active (rec_state replay) then
        if result_events_complete result \<or> (rec_provider_session_id replay \<noteq> None \<and> rec_provider_session_id replay \<noteq> result_session_id result)
        then None
        else Some (st\<lparr>rp_replay := replay\<lparr>rec_state := outcome_state (result_outcome result),
            rec_provider_session_id := result_session_id result, rec_terminal := Some stored, rec_result_sequence := Some (sv_sequence stored)\<rparr>\<rparr>)
      else if Option.bind (rec_terminal replay) terminal_outcome = Some (result_outcome result, result_session_id result)
        then Some (st\<lparr>rp_replay := replay\<lparr>rec_result_sequence := Some (sv_sequence stored)\<rparr>\<rparr>) else None)"

definition replay_event :: "'d tables \<Rightarrow> StoredEvent \<Rightarrow> repair_state \<Rightarrow> repair_state option" where
  "replay_event t stored st =
     (case sv_payload stored of
        RunAccepted _ \<Rightarrow> if rp_after st = 0 \<and> sv_sequence stored = rec_accepted_sequence (rp_replay st) then Some st else None
      | RunHistorySelected _ \<Rightarrow>
          if \<not> rp_selection_seen st \<and> of_int (rp_after st) = rec_accepted_sequence (rp_replay st)
          then Some (st\<lparr>rp_selection_seen := True\<rparr>) else None
      | RunProviderBound binding \<Rightarrow>
          if rp_selection_seen st \<and> \<not> rp_binding_seen st \<and> rec_state (rp_replay st) = StateRunning
          then Some (st\<lparr>rp_replay := (rp_replay st)\<lparr>rec_provider_session_id := Some (bind_provider_session_id binding)\<rparr>,
                 rp_correlation := (rp_correlation st)\<lparr>co_session := Some (bind_provider_session_id binding)\<rparr>,
                 rp_binding_seen := True\<rparr>)
          else None
      | RuntimeObserved event \<Rightarrow> replay_runtime t stored event st
      | ToolResultRecorded _ \<Rightarrow>
          if rec_state (rp_replay st) = StateRunning \<and> (rp_selection_seen st \<longrightarrow> rp_binding_seen st) then Some st else None
      | RunResultRecorded result \<Rightarrow> replay_result stored result st
      | RunInterrupted _ \<Rightarrow>
          if active (rec_state (rp_replay st))
          then Some (st\<lparr>rp_replay := (rp_replay st)\<lparr>rec_state := StateInterrupted, rec_terminal := Some stored\<rparr>\<rparr>) else None
      | _ \<Rightarrow> None)"

definition event_checks :: "('u, 'd) store_env \<Rightarrow> str \<Rightarrow> 'd tables \<Rightarrow> str \<Rightarrow> StoredEvent \<Rightarrow> bool" where
  "event_checks se session t run stored =
     (case sv_payload stored of
        RunHistorySelected _ \<Rightarrow> \<exists>x. history_selection se session t run = Ok (Some x)
      | RunProviderBound _ \<Rightarrow> \<exists>x. provider_binding se session t run = Ok (Some x)
      | RuntimeObserved event \<Rightarrow>
          (case re_event event of
             RunFinished outcome _ \<Rightarrow> require_outputs_before t run outcome (sv_sequence stored) = Ok ()
           | ToolEvent tool \<Rightarrow> validate_tool_event se session t run (sv_sequence stored) event tool = Ok ()
           | _ \<Rightarrow> True)
      | ToolResultRecorded payload \<Rightarrow>
          (\<exists>saved. stored_tool_result se session t run (tp_call_id payload) = Ok (Some saved) \<and> rt_result_sequence saved = Some (sv_sequence stored))
      | RunResultRecorded result \<Rightarrow> require_outputs_before t run (result_outcome result) (sv_sequence stored) = Ok ()
      | _ \<Rightarrow> True)"

lemma reject_ok: "\<not> c \<Longrightarrow> reject_if c e = Ok ()"
  by (simp add: reject_if_def)

lemma repair_runtime_replay:
  assumes "replay_runtime t stored event st = Some st'"
    and "case re_event event of
           RunFinished outcome _ \<Rightarrow> require_outputs_before t run outcome (sv_sequence stored) = Ok ()
         | ToolEvent tool \<Rightarrow> validate_tool_event se session t run (sv_sequence stored) event tool = Ok ()
         | _ \<Rightarrow> True"
  shows "repair_runtime se session t run stored event st = Ok st'"
  using assms unfolding replay_runtime_def repair_runtime_def
  by (cases "re_event event") (auto split: if_splits sum.splits)

lemma repair_result_replay:
  assumes "replay_result stored result st = Some st'" "require_outputs_before t run (result_outcome result) (sv_sequence stored) = Ok ()"
  shows "repair_result t run stored result st = Ok st'"
  using assms unfolding replay_result_def repair_result_def Let_def
  by (cases "rec_terminal (rp_replay st)") (auto simp: reject_if_def split: if_splits)

lemma repair_event_replay:
  assumes "replay_event t stored st = Some st'" "event_checks se session t run stored"
  shows "repair_event se session t run stored st = Ok st'"
  using assms unfolding replay_event_def repair_event_def event_checks_def
  by (cases "sv_payload stored")
    (auto simp: reject_if_def repair_runtime_replay repair_result_replay split: if_splits)

section \<open>The events of a run in order\<close>

definition row_event :: "str \<Rightarrow> str \<Rightarrow> EventRow \<Rightarrow> StoredEvent" where
  "row_event session run row = stored_event session (ev_sequence row) (ev_event_id row) (ev_created_at_ms row) run (ev_payload_json row)"

lemma decode_row_event:
  assumes "decode se session row = Ok e" "ev_run_id row = Some run"
  shows "e = row_event session run row"
proof -
  have "sv_schema_version e = 1" "sv_application_session_id e = session" "sv_event_id e = ev_event_id row"
    "sv_created_at_ms e = ev_created_at_ms row" "sv_event_version e = 1"
    using assms(1) by (auto simp: decode_def StoredEvent_try_from_def wi_results dest: storage_id_from_str_Ok)
  then show ?thesis using decode_Ok [OF assms(1)] assms(2) by (simp add: row_event_def stored_event_def)
qed

definition replay_row :: "str \<Rightarrow> str \<Rightarrow> 'd tables \<Rightarrow> EventRow \<Rightarrow> repair_state \<Rightarrow> repair_state option" where
  "replay_row session run t row st =
     (if rp_after st = 0 \<and> \<not> is_accepted (ev_payload_json row) then None
      else map_option (\<lambda>st'. st'\<lparr>rp_after := ev_sequence row\<rparr>) (replay_event t (row_event session run row) st))"

fun replay_rows :: "str \<Rightarrow> str \<Rightarrow> 'd tables \<Rightarrow> EventRow list \<Rightarrow> repair_state \<Rightarrow> repair_state option" where
  "replay_rows session run t [] st = Some st"
| "replay_rows session run t (row # rows) st = Option.bind (replay_row session run t row st) (replay_rows session run t rows)"

lemma replay_rows_append:
  "replay_rows session run t (xs @ ys) st = Option.bind (replay_rows session run t xs st) (replay_rows session run t ys)"
  by (induction xs arbitrary: st) (simp_all add: Option.bind_assoc cong: Option.bind_cong)

lemma replay_rows_snoc:
  "replay_rows session run t (xs @ [row]) st = Some st' \<longleftrightarrow>
     (\<exists>st1. replay_rows session run t xs st = Some st1 \<and> replay_row session run t row st1 = Some st')"
  by (auto simp: replay_rows_append Option.bind_eq_Some_conv)

abbreviation rows_of :: "'d tables \<Rightarrow> str \<Rightarrow> EventRow list" where
  "rows_of t run \<equiv> filter (\<lambda>r. ev_run_id r = Some run) (tb_events t)"

abbreviation rows_after :: "'d tables \<Rightarrow> str \<Rightarrow> i64 \<Rightarrow> EventRow list" where
  "rows_after t run after \<equiv> filter (\<lambda>r. ev_run_id r = Some run \<and> ev_sequence r > after) (tb_events t)"

lemma log_strict: "log_ok se session t \<Longrightarrow> sorted_wrt (<) (map ev_sequence (tb_events t))"
  by (simp add: log_ok_def)

lemma filter_rest:
  assumes "sorted_wrt (<) (map key xs)" "filter (\<lambda>x. P x \<and> a < key x) xs = y # ys"
  shows "filter (\<lambda>x. P x \<and> key y < key x) xs = (ys :: 'a list)" "a < (key y :: int)" "y \<in> set xs" "P y"
proof -
  have y: "y \<in> set (filter (\<lambda>x. P x \<and> a < key x) xs)" using assms(2) by simp
  then show "a < key y" "y \<in> set xs" "P y" by auto
  have "sorted_wrt (<) (map key (y # ys))" using assms(1) unfolding assms(2) [symmetric] by (simp add: sorted_wrt_map sorted_wrt_filter)
  then have "filter (\<lambda>x. key y < key x) (y # ys) = ys" by (simp add: filter_id_conv)
  then show "filter (\<lambda>x. P x \<and> key y < key x) xs = ys"
    unfolding assms(2) [symmetric] filter_filter using \<open>a < key y\<close> by (auto intro!: filter_cong)
qed

lemma next_run_event_log:
  assumes "log_ok se session t"
  shows "next_run_event t run after = (case rows_after t run after of [] \<Rightarrow> None | row # _ \<Rightarrow> Some row)"
  unfolding next_run_event_def using log_sorted [OF assms] by (simp add: sort_key_id_if_sorted)

lemma repair_events_replay:
  assumes log: "log_ok se session t" and "replay_rows session run t (rows_after t run (rp_after st)) st = Some st'"
    and "\<And>row. row \<in> set (rows_after t run (rp_after st)) \<Longrightarrow> event_checks se session t run (row_event session run row)"
  shows "repair_events se session t run st = Ok st'"
  using assms(2-)
proof (induction "rows_after t run (rp_after st)" arbitrary: st)
  case Nil
  then have e: "rows_after t run (rp_after st) = []" by simp
  show ?case using Nil.prems(1) unfolding repair_events.simps [of _ _ _ _ st] next_run_event_log [OF log] e by simp
next
  case (Cons row rows)
  note e = Cons.hyps(2) [symmetric]
  note f = filter_rest [OF log_strict [OF log] e]
  obtain e' where d: "decode se session row = Ok e'" using log f(3) unfolding log_ok_def by blast
  have e': "e' = row_event session run row" by (rule decode_row_event [OF d f(4)])
  obtain st1 where st1: "replay_row session run t row st = Some st1" "replay_rows session run t rows st1 = Some st'"
    using Cons.prems(1) unfolding e by (auto simp: Option.bind_eq_Some_conv)
  then obtain st2 where a: "rp_after st = 0 \<longrightarrow> is_accepted (ev_payload_json row)"
    and st2: "replay_event t e' st = Some st2" "st1 = st2\<lparr>rp_after := ev_sequence row\<rparr>"
    unfolding replay_row_def e' by (auto split: if_splits)
  have "event_checks se session t run e'" using Cons.prems(2) e e' by simp
  then have "repair_event se session t run e' st = Ok st2" by (rule repair_event_replay [OF st2(1)])
  moreover have "rows_after t run (rp_after st1) = rows" using f(1) st2(2) by simp
  moreover have "repair_events se session t run st1 = Ok st'"
    using st1(2) Cons.hyps(1) [of st1] Cons.prems(2) e calculation(2) by simp
  ultimately show ?case using a d st2(2) decode_Ok(3) [OF d]
    unfolding repair_events.simps [of _ _ _ _ st] next_run_event_log [OF log] e by (simp add: decode_sequence [OF d])
qed

section \<open>The replay reads only earlier events\<close>

lemma earlier_extends:
  assumes log: "log_ok se session t" "log_ok se session t'" and x: "extends t t'" and b: "before \<le> log_length t + 1"
  shows "list_ex (\<lambda>r. P r \<and> ev_sequence r < before) (tb_events t') = list_ex (\<lambda>r. P r \<and> ev_sequence r < before) (tb_events t)"
proof -
  obtain rows where rows: "tb_events t' = tb_events t @ rows" using x unfolding extends_def ..
  have m: "map ev_sequence (tb_events t') = [1..log_length t']" using log(2) unfolding log_ok_def by blast
  have "before \<le> ev_sequence r" if mem: "r \<in> set rows" for r
  proof -
    obtain i where i: "i < length rows" "r = rows ! i" using mem by (metis in_set_conv_nth)
    have "ev_sequence (tb_events t' ! (length (tb_events t) + i)) = int (length (tb_events t) + i) + 1"
      by (rule log_nth [OF m]) (use i(1) in \<open>simp add: rows\<close>)
    then have "ev_sequence r = log_length t + int i + 1" by (simp add: rows i(2))
    then show ?thesis using b by linarith
  qed
  then have "\<not> list_ex (\<lambda>r. P r \<and> ev_sequence r < before) rows" by (auto simp: list_ex_iff not_less)
  then show ?thesis by (simp add: rows)
qed

lemma observe_extends:
  assumes "log_ok se session t" "log_ok se session t'" "extends t t'" "before \<le> log_length t + 1"
  shows "Correlation_observe t' self run event before = Correlation_observe t self run event before"
proof -
  have a: "list_ex (\<lambda>r. ev_run_id r = Some (rec_run_id run) \<and> ev_sequence r < before \<and> ev_event_type r = ''runtime.observed''
      \<and> payload_type (ev_payload_json r) = Some ''turn_started'' \<and> re_turn_id event \<noteq> None \<and> payload_turn (ev_payload_json r) = re_turn_id event) xs =
    list_ex (\<lambda>r. (ev_run_id r = Some (rec_run_id run) \<and> ev_event_type r = ''runtime.observed''
      \<and> payload_type (ev_payload_json r) = Some ''turn_started'' \<and> re_turn_id event \<noteq> None \<and> payload_turn (ev_payload_json r) = re_turn_id event)
      \<and> ev_sequence r < before) xs" for xs
    by (rule arg_cong [where f = "\<lambda>p. list_ex p xs"]) auto
  show ?thesis unfolding Correlation_observe_def a earlier_extends [OF assms] ..
qed

lemma replay_row_extends:
  assumes "log_ok se session t" "log_ok se session t'" "extends t t'" "row \<in> set (tb_events t)"
  shows "replay_row session run t' row st = replay_row session run t row st"
proof -
  have r: "1 \<le> ev_sequence row" "ev_sequence row \<le> log_length t" using log_member [OF assms(1,4)] by auto
  then have "ev_sequence row < 2 ^ 63" using assms(1) by (simp add: log_ok_def)
  then have "sint (of_int (ev_sequence row) :: u64) = ev_sequence row" using r by (intro sint_of_i64) auto
  then have "sint (sv_sequence (row_event session run row)) = ev_sequence row" by (simp add: row_event_def stored_event_def)
  then have "replay_runtime t' (row_event session run row) = replay_runtime t (row_event session run row)"
    using observe_extends [OF assms(1-3), of "ev_sequence row"] r by (simp add: replay_runtime_def fun_eq_iff)
  then show ?thesis by (simp only: replay_row_def replay_event_def)
qed

lemma replay_rows_extends:
  assumes "log_ok se session t" "log_ok se session t'" "extends t t'" "set rows \<subseteq> set (tb_events t)"
  shows "replay_rows session run t' rows st = replay_rows session run t rows st"
  using assms(4) by (induction rows arbitrary: st) (simp_all add: replay_row_extends [OF assms(1-3)] cong: Option.bind_cong)

lemma replay_rows_induct [consumes 1, case_names start step]:
  assumes "replay_rows session run t rows st0 = Some st"
    and "P [] st0"
    and "\<And>rows row st st'. replay_rows session run t rows st0 = Some st \<Longrightarrow> P rows st \<Longrightarrow> replay_row session run t row st = Some st' \<Longrightarrow> P (rows @ [row]) st'"
  shows "P rows st"
  using assms(1)
proof (induction rows arbitrary: st rule: rev_induct)
  case Nil
  then show ?case using assms(2) by simp
next
  case (snoc row rows)
  from snoc.prems obtain st1 where st1: "replay_rows session run t rows st0 = Some st1" "replay_row session run t row st1 = Some st"
    unfolding replay_rows_snoc by blast
  show ?case by (rule assms(3) [OF st1(1) snoc.IH [OF st1(1)] st1(2)])
qed

section \<open>What a replay establishes\<close>

lemma replay_row_cases:
  assumes "replay_row session run t row st = Some st'"
  obtains
    (accepted) p where "ev_payload_json row = RunAccepted p" "rp_after st = 0"
      "of_int (ev_sequence row) = rec_accepted_sequence (rp_replay st)" "st' = st\<lparr>rp_after := ev_sequence row\<rparr>"
  | (selected) p where "ev_payload_json row = RunHistorySelected p" "rp_after st \<noteq> 0" "\<not> rp_selection_seen st"
      "of_int (rp_after st) = rec_accepted_sequence (rp_replay st)" "st' = st\<lparr>rp_selection_seen := True, rp_after := ev_sequence row\<rparr>"
  | (bound) b where "ev_payload_json row = RunProviderBound b" "rp_after st \<noteq> 0" "rp_selection_seen st" "\<not> rp_binding_seen st"
      "rec_state (rp_replay st) = StateRunning"
      "st' = st\<lparr>rp_replay := (rp_replay st)\<lparr>rec_provider_session_id := Some (bind_provider_session_id b)\<rparr>,
         rp_correlation := (rp_correlation st)\<lparr>co_session := Some (bind_provider_session_id b)\<rparr>, rp_binding_seen := True,
         rp_after := ev_sequence row\<rparr>"
  | (runtime) e c where "ev_payload_json row = RuntimeObserved e" "rp_after st \<noteq> 0"
      "rp_selection_seen st \<and> \<not> rp_binding_seen st \<Longrightarrow> validate_unbound_runtime e = Ok ()"
      "Correlation_observe t (rp_correlation st) (rp_replay st) e (sint (of_int (ev_sequence row) :: u64)) = Ok c"
      "st' = st\<lparr>rp_replay := (case re_event e of
               RunStarted \<Rightarrow> (rp_replay st)\<lparr>rec_state := StateRunning\<rparr>
             | RunFinished outcome _ \<Rightarrow> (rp_replay st)\<lparr>rec_state := outcome_state outcome, rec_terminal := Some (row_event session run row)\<rparr>
             | _ \<Rightarrow> rp_replay st)\<lparr>rec_last_runtime_sequence := re_sequence e, rec_provider_session_id := re_session_id e\<rparr>,
            rp_correlation := c, rp_after := ev_sequence row\<rparr>"
  | (tool) p where "ev_payload_json row = ToolResultRecorded p" "rp_after st \<noteq> 0" "rec_state (rp_replay st) = StateRunning"
      "rp_selection_seen st \<longrightarrow> rp_binding_seen st" "st' = st\<lparr>rp_after := ev_sequence row\<rparr>"
  | (closing) r where "ev_payload_json row = RunResultRecorded r" "rp_after st \<noteq> 0" "active (rec_state (rp_replay st))"
      "rec_provider_session_id (rp_replay st) = None \<or> rec_provider_session_id (rp_replay st) = result_session_id r"
      "st' = st\<lparr>rp_replay := (rp_replay st)\<lparr>rec_state := outcome_state (result_outcome r), rec_provider_session_id := result_session_id r,
         rec_terminal := Some (row_event session run row), rec_result_sequence := Some (of_int (ev_sequence row))\<rparr>, rp_after := ev_sequence row\<rparr>"
  | (result) r where "ev_payload_json row = RunResultRecorded r" "rp_after st \<noteq> 0" "\<not> active (rec_state (rp_replay st))"
      "st' = st\<lparr>rp_replay := (rp_replay st)\<lparr>rec_result_sequence := Some (of_int (ev_sequence row))\<rparr>, rp_after := ev_sequence row\<rparr>"
  | (interrupted) p where "ev_payload_json row = RunInterrupted p" "rp_after st \<noteq> 0" "active (rec_state (rp_replay st))"
      "st' = st\<lparr>rp_replay := (rp_replay st)\<lparr>rec_state := StateInterrupted, rec_terminal := Some (row_event session run row)\<rparr>, rp_after := ev_sequence row\<rparr>"
proof -
  have p: "sv_payload (row_event session run row) = ev_payload_json row" "sv_sequence (row_event session run row) = of_int (ev_sequence row)"
    by (simp_all add: row_event_def stored_event_def)
  show thesis
  proof (cases "ev_payload_json row")
    case (RunAccepted p)
    then show thesis using assms that(1) by (auto simp: replay_row_def replay_event_def is_accepted_def p split: if_splits)
  next
    case (RunHistorySelected p)
    then show thesis using assms that(2) by (auto simp: replay_row_def replay_event_def is_accepted_def p split: if_splits)
  next
    case (RunProviderBound b)
    then show thesis using assms that(3) by (auto simp: replay_row_def replay_event_def is_accepted_def p split: if_splits)
  next
    case (RuntimeObserved e)
    then show thesis using assms that(4) [of e]
      by (auto simp: replay_row_def replay_event_def is_accepted_def p replay_runtime_def split: if_splits sum.splits)
  next
    case (ToolResultRecorded p)
    then show thesis using assms that(5) by (auto simp: replay_row_def replay_event_def is_accepted_def p split: if_splits)
  next
    case (RunResultRecorded r)
    then show thesis using assms that(6,7) [of r]
      by (auto simp: replay_row_def replay_event_def is_accepted_def p replay_result_def Let_def split: if_splits)
  next
    case (RunInterrupted p)
    then show thesis using assms that(8) by (auto simp: replay_row_def replay_event_def is_accepted_def p split: if_splits)
  qed (use assms in \<open>auto simp: replay_row_def replay_event_def p split: if_splits\<close>)
qed

abbreviation is_selected :: "EventRow \<Rightarrow> bool" where
  "is_selected row \<equiv> \<exists>p. ev_payload_json row = RunHistorySelected p"

abbreviation is_bound :: "EventRow \<Rightarrow> bool" where
  "is_bound row \<equiv> \<exists>b. ev_payload_json row = RunProviderBound b"

lemma replay_seen:
  assumes "replay_rows session run t rows (repair_start r) = Some st"
  shows "rp_selection_seen st = list_ex is_selected rows \<and> rp_binding_seen st = list_ex is_bound rows"
  using assms
proof (induction rule: replay_rows_induct)
  case start
  show ?case by (simp add: repair_start_def)
next
  case (step rows row st st')
  from step(2,3) show ?case by (cases rule: replay_row_cases) auto
qed

lemma replay_identity:
  assumes "replay_rows session run t rows (repair_start r) = Some st"
  shows "rec_run_id (rp_replay st) = rec_run_id r \<and> rec_accepted_sequence (rp_replay st) = rec_accepted_sequence r \<and>
    rec_input (rp_replay st) = rec_input r \<and> rec_owner_instance_id (rp_replay st) = rec_owner_instance_id r \<and> rec_result (rp_replay st) = None"
  using assms
proof (induction rule: replay_rows_induct)
  case start
  show ?case by (simp add: repair_start_def)
next
  case (step rows row st st')
  from step(2,3) show ?case by (cases rule: replay_row_cases) (auto split: RunEvent.splits)
qed

lemma replay_after:
  assumes "replay_rows session run t rows (repair_start r) = Some st"
  shows "rp_after st = (if rows = [] then 0 else ev_sequence (last rows)) \<and>
    (rows \<noteq> [] \<longrightarrow> is_accepted (ev_payload_json (hd rows)) \<and> of_int (ev_sequence (hd rows)) = rec_accepted_sequence r)"
  using assms
proof (induction rule: replay_rows_induct)
  case start
  show ?case by (simp add: repair_start_def)
next
  case (step rows row st st')
  from step(2,3) show ?case
    using replay_identity [OF step(1)] by (cases rule: replay_row_cases) (auto simp: is_accepted_def hd_append split: if_splits)
qed

lemma observe_Ok:
  assumes "Correlation_observe t c run e n = Ok c'"
  shows "rec_state run = (if re_event e = RunStarted then StateAccepted else StateRunning)"
    "co_session c = None \<or> co_session c = re_session_id e" "co_session c' = re_session_id e"
    "re_run_id e = rec_run_id run" "rec_last_runtime_sequence run < re_sequence e"
  using assms by (auto simp: Correlation_observe_def wi_results not_le split: if_splits)

definition in_order :: "EventRow list \<Rightarrow> bool" where
  "in_order rows \<longleftrightarrow> sorted_wrt (<) (map ev_sequence rows) \<and> (\<forall>row \<in> set rows. 0 < ev_sequence row \<and> ev_sequence row < 2 ^ 63)"

lemma in_order_snoc: "in_order (rows @ [row]) \<Longrightarrow> in_order rows"
  by (auto simp: in_order_def sorted_wrt_append)

definition is_started :: "EventRow \<Rightarrow> bool" where
  "is_started row \<longleftrightarrow> (\<exists>e. ev_payload_json row = RuntimeObserved e \<and> re_event e = RunStarted)"

text \<open>The first rows of a run with a history selection: acceptance, selection, start, binding.\<close>

definition opens :: "EventRow list \<Rightarrow> repair_state \<Rightarrow> bool" where
  "opens rows st \<longleftrightarrow>
     (length rows \<le> 1 \<longrightarrow> rec_state (rp_replay st) = StateAccepted \<and> \<not> rp_selection_seen st \<and> \<not> rp_binding_seen st) \<and>
     (rp_selection_seen st \<longrightarrow> 2 \<le> length rows \<and> is_selected (rows ! 1)) \<and>
     (rp_selection_seen st \<and> \<not> rp_binding_seen st \<and> rec_state (rp_replay st) = StateAccepted \<longrightarrow> length rows = 2) \<and>
     (rp_selection_seen st \<and> \<not> rp_binding_seen st \<and> rec_state (rp_replay st) = StateRunning \<longrightarrow> length rows = 3 \<and> is_started (rows ! 2)) \<and>
     (rp_binding_seen st \<longrightarrow> rp_selection_seen st \<and> 4 \<le> length rows \<and> is_started (rows ! 2) \<and>
        (\<exists>b. ev_payload_json (rows ! 3) = RunProviderBound b \<and> rec_provider_session_id (rp_replay st) = Some (bind_provider_session_id b) \<and>
           (active (rec_state (rp_replay st)) \<longrightarrow> co_session (rp_correlation st) = Some (bind_provider_session_id b))))"

lemma of_int_u64_inject: "0 \<le> i \<Longrightarrow> i < 2 ^ 63 \<Longrightarrow> 0 \<le> j \<Longrightarrow> j < 2 ^ 63 \<Longrightarrow> (of_int i :: u64) = of_int j \<longleftrightarrow> i = j"
  by (metis sint_of_i64)

lemma last_is_hd:
  assumes "in_order rows" "rows \<noteq> []" "(of_int (ev_sequence (last rows)) :: u64) = of_int (ev_sequence (hd rows))"
  shows "length rows = 1"
proof (rule ccontr)
  assume "length rows \<noteq> 1"
  then obtain a b rest where r: "rows = a # b # rest" using assms(2) by (cases rows rule: list.exhaust; cases "tl rows") auto
  have "last rows \<in> set (b # rest)" by (simp add: r)
  then have "ev_sequence a < ev_sequence (last rows)" using assms(1) unfolding in_order_def r by auto
  moreover have "ev_sequence (last rows) = ev_sequence a"
  proof -
    have "\<And>x. x \<in> set rows \<Longrightarrow> 0 \<le> ev_sequence x \<and> ev_sequence x < 2 ^ 63" using assms(1) by (auto simp: in_order_def)
    from this [of a] this [of "last rows"] assms(2,3) show ?thesis by (simp add: of_int_u64_inject r)
  qed
  ultimately show False by simp
qed

lemma opens_runtime:
  assumes IH: "opens rows st" and "rows \<noteq> []"
    and unbound: "rp_selection_seen st \<and> \<not> rp_binding_seen st \<Longrightarrow> validate_unbound_runtime e = Ok ()"
    and o: "rec_state (rp_replay st) = (if re_event e = RunStarted then StateAccepted else StateRunning)"
      "co_session (rp_correlation st) = None \<or> co_session (rp_correlation st) = re_session_id e" "co_session c = re_session_id e"
    and row: "ev_payload_json row = RuntimeObserved e"
  shows "opens (rows @ [row]) (st\<lparr>rp_replay := (case re_event e of
               RunStarted \<Rightarrow> (rp_replay st)\<lparr>rec_state := StateRunning\<rparr>
             | RunFinished outcome _ \<Rightarrow> (rp_replay st)\<lparr>rec_state := outcome_state outcome, rec_terminal := terminal outcome\<rparr>
             | _ \<Rightarrow> rp_replay st)\<lparr>rec_last_runtime_sequence := re_sequence e, rec_provider_session_id := re_session_id e\<rparr>,
            rp_correlation := c, rp_after := after\<rparr>)" (is "opens _ ?st")
proof -
  have act: "active (rec_state (rp_replay st))" using o(1) by (simp split: if_splits)
  have ne: "outcome_state x \<noteq> StateAccepted" "outcome_state x \<noteq> StateRunning" for x by (metis active_states(1,2,4))+
  have f: "rp_selection_seen ?st = rp_selection_seen st" "rp_binding_seen ?st = rp_binding_seen st"
    "rec_provider_session_id (rp_replay ?st) = re_session_id e" "rp_correlation ?st = c" by (simp_all split: RunEvent.split)
  have len: "2 \<le> length (rows @ [row])" using assms(2) by (cases rows) auto
  consider (plain) "\<not> rp_selection_seen st" "\<not> rp_binding_seen st" | (unbound) "rp_selection_seen st" "\<not> rp_binding_seen st"
    | (bound) "rp_selection_seen st" "rp_binding_seen st" using IH unfolding opens_def by blast
  then show ?thesis
  proof cases
    case plain
    then show ?thesis using assms(2) unfolding opens_def f by simp
  next
    case unbound
    then have sel: "2 \<le> length rows" "is_selected ((rows @ [row]) ! 1)" using IH by (auto simp: opens_def nth_append)
    from unbound(1,2) assms(3) have "validate_unbound_runtime e = Ok ()" by simp
    then consider "re_event e = RunStarted" | o' s where "re_event e = RunFinished o' s"
      unfolding validate_unbound_runtime_def by (auto split: RunEvent.splits)
    then show ?thesis
    proof cases
      case 1
      then have "length rows = 2" using IH unbound o(1) by (auto simp: opens_def)
      then show ?thesis using unbound sel 1 row unfolding opens_def f by (auto simp: is_started_def nth_append)
    next
      case 2
      then show ?thesis using unbound sel ne assms(2) unfolding opens_def f by simp
    qed
  next
    case bound
    with IH obtain b where b: "2 \<le> length rows \<and> is_selected (rows ! 1)" "4 \<le> length rows \<and> is_started (rows ! 2)"
      "ev_payload_json (rows ! 3) = RunProviderBound b" "co_session (rp_correlation st) = Some (bind_provider_session_id b)"
      using act unfolding opens_def by blast
    then have "re_session_id e = Some (bind_provider_session_id b)" using o(2) by simp
    then show ?thesis using bound b o(3) assms(2) unfolding opens_def f by (simp add: nth_append)
  qed
qed

lemma opens_snoc:
  assumes IH: "opens rows st" and "rows \<noteq> []" and f: "rp_selection_seen st' = rp_selection_seen st" "rp_binding_seen st' = rp_binding_seen st"
    and "rp_selection_seen st \<and> \<not> rp_binding_seen st \<Longrightarrow> \<not> active (rec_state (rp_replay st'))"
    and "rp_binding_seen st \<Longrightarrow> rec_provider_session_id (rp_replay st') = rec_provider_session_id (rp_replay st)"
    and "active (rec_state (rp_replay st')) \<Longrightarrow> active (rec_state (rp_replay st)) \<and> co_session (rp_correlation st') = co_session (rp_correlation st)"
  shows "opens (rows @ [row]) st'"
proof (cases "rp_binding_seen st")
  case True
  with IH obtain b where "rp_selection_seen st" "2 \<le> length rows \<and> is_selected (rows ! 1)" "4 \<le> length rows \<and> is_started (rows ! 2)"
    "ev_payload_json (rows ! 3) = RunProviderBound b" "rec_provider_session_id (rp_replay st) = Some (bind_provider_session_id b)"
    "active (rec_state (rp_replay st)) \<longrightarrow> co_session (rp_correlation st) = Some (bind_provider_session_id b)"
    unfolding opens_def by blast
  then show ?thesis using True assms(2,6,7) unfolding opens_def f by (simp add: nth_append)
next
  case False
  have "rp_selection_seen st \<longrightarrow> 2 \<le> length rows \<and> is_selected (rows ! 1)" using IH unfolding opens_def by blast
  moreover have "rp_selection_seen st \<Longrightarrow> rec_state (rp_replay st') \<noteq> StateAccepted \<and> rec_state (rp_replay st') \<noteq> StateRunning"
    using assms(5) False by (metis active_states(1,2))
  ultimately show ?thesis using False assms(2) unfolding opens_def f by (cases "rp_selection_seen st") (simp_all add: nth_append)
qed

lemma replay_opens:
  assumes "replay_rows session run t rows (repair_start r) = Some st"
  shows "in_order rows \<longrightarrow> opens rows st"
  using assms
proof (induction rule: replay_rows_induct)
  case start
  show ?case by (simp add: repair_start_def opens_def)
next
  case (step rows row st st')
  show ?case
  proof
    assume "in_order (rows @ [row])"
    then have ord: "in_order rows" by (rule in_order_snoc)
    with step(3) have IH: "opens rows st" by simp
    note after = replay_after [OF step(1)]
    show "opens (rows @ [row]) st'" using step(2)
    proof (cases rule: replay_row_cases)
      case (accepted p)
      have "rows = []"
      proof (rule ccontr)
        assume ne: "rows \<noteq> []"
        then have "last rows \<in> set rows" by simp
        then have "0 < ev_sequence (last rows)" using ord unfolding in_order_def by blast
        then show False using after ne accepted(2) by simp
      qed
      then show ?thesis using IH accepted by (simp add: opens_def)
    next
      case (selected p)
      have "rows \<noteq> []" using after selected(2) by auto
      moreover from this have "length rows = 1" using after selected(4) replay_identity [OF step(1)] by (intro last_is_hd ord) auto
      ultimately show ?thesis using IH selected by (auto simp: opens_def nth_append)
    next
      case (bound b)
      then have "length rows = 3" "is_started (rows ! 2)" "is_selected (rows ! 1)" using IH unfolding opens_def by blast+
      then show ?thesis using bound unfolding opens_def by (auto simp: nth_append)
    next
      case (runtime e c)
      have "rows \<noteq> []" using after runtime(2) by auto
      then show ?thesis using opens_runtime [OF IH _ runtime(3) observe_Ok(1-3) [OF runtime(4)], of row] runtime(1,5) by simp
    next
      case (tool p)
      then show ?thesis using after by (intro opens_snoc [OF IH]) auto
    next
      case (closing r)
      have "rp_binding_seen st \<Longrightarrow> \<exists>p. rec_provider_session_id (rp_replay st) = Some p" using IH unfolding opens_def by blast
      then show ?thesis using after closing by (intro opens_snoc [OF IH]) auto
    next
      case (result r)
      then show ?thesis using after by (intro opens_snoc [OF IH]) auto
    next
      case (interrupted p)
      then show ?thesis using after by (intro opens_snoc [OF IH]) auto
    qed
  qed
qed

lemma replay_once:
  assumes "replay_rows session run t rows (repair_start r) = Some st"
  shows "length (filter is_bound rows) \<le> 1 \<and> length (filter is_selected rows) \<le> 1"
  using assms
proof (induction rule: replay_rows_induct)
  case (step rows row st st')
  from step(2,3) replay_seen [OF step(1)] show ?case
    by (cases rule: replay_row_cases) (auto simp: list_ex_iff filter_empty_conv [symmetric])
qed simp

definition is_closing :: "StoredEventPayload \<Rightarrow> bool" where
  "is_closing payload = (case payload of
     RunResultRecorded _ \<Rightarrow> True | RunInterrupted _ \<Rightarrow> True
   | RuntimeObserved e \<Rightarrow> (case re_event e of RunFinished _ _ \<Rightarrow> True | _ \<Rightarrow> False) | _ \<Rightarrow> False)"

lemma replay_closed:
  assumes "replay_rows session run t rows (repair_start r) = Some st"
  shows "if active (rec_state (rp_replay st))
    then rec_terminal (rp_replay st) = None \<and> rec_result_sequence (rp_replay st) = None \<and> (\<forall>row \<in> set rows. \<not> is_closing (ev_payload_json row))
    else \<exists>row \<in> set rows. rec_terminal (rp_replay st) = Some (row_event session run row)"
  using assms
proof (induction rule: replay_rows_induct)
  case start
  show ?case by (simp add: repair_start_def)
next
  case (step rows row st st')
  from step(2) show ?case
  proof (cases rule: replay_row_cases)
    case (runtime e c)
    have "active (rec_state (rp_replay st))" using observe_Ok(1) [OF runtime(4)] by (simp split: if_splits)
    then show ?thesis using step(3) runtime(1,5) by (cases "re_event e") (auto simp: is_closing_def)
  qed (use step(3) in \<open>auto simp: is_closing_def split: if_splits\<close>)
qed

section \<open>Reloading the correlation\<close>

definition observed :: "EventRow \<Rightarrow> RunEventEnvelope option" where
  "observed row = (case ev_payload_json row of RuntimeObserved e \<Rightarrow> Some e | _ \<Rightarrow> None)"

abbreviation envelopes :: "EventRow list \<Rightarrow> RunEventEnvelope list" where
  "envelopes rows \<equiv> List.map_filter observed rows"

abbreviation of_kind :: "str option \<Rightarrow> RunEventEnvelope \<Rightarrow> bool" where
  "of_kind kind e \<equiv> kind = None \<or> Some (runtime_type (re_event e)) = kind"

definition last_of :: "'a list \<Rightarrow> 'a option" where
  "last_of xs = (if xs = [] then None else Some (last xs))"

lemma last_of_simps [simp]: "last_of [] = None" "last_of [x] = Some x" "last_of (xs @ [x]) = Some x"
  by (simp_all add: last_of_def)

lemma map_filter_append: "List.map_filter f (xs @ ys) = List.map_filter f xs @ List.map_filter f ys"
  by (simp add: map_filter_def)

lemma envelopes_filter:
  "filter P (envelopes rows) = envelopes (filter (\<lambda>row. \<exists>e. observed row = Some e \<and> P e) rows)"
  by (induction rows) (auto simp: map_filter_simps split: option.splits)

lemma last_envelope:
  "(\<And>row. row \<in> set rows \<Longrightarrow> observed row \<noteq> None) \<Longrightarrow> last_of (envelopes rows) = (if rows = [] then None else observed (last rows))"
  by (induction rows rule: rev_induct) (fastforce simp: map_filter_simps map_filter_append)+

lemma latest_runtime_envelopes:
  assumes log: "log_ok se session t"
  shows "latest_runtime se session t run kind = Ok (last_of (filter (of_kind kind) (envelopes (rows_of t run))))"
proof -
  let ?Q = "\<lambda>row. \<exists>e. observed row = Some e \<and> of_kind kind e"
  let ?rows = "filter ?Q (rows_of t run)"
  have "runtime_row run kind r \<longleftrightarrow> ev_run_id r = Some run \<and> ?Q r" if "r \<in> set (tb_events t)" for r
    using row_type [OF log that] by (cases "ev_payload_json r") (auto simp: runtime_row_def observed_def)
  then have f: "filter (runtime_row run kind) (tb_events t) = ?rows" unfolding filter_filter by (intro filter_cong) auto
  have s: "sort_key ev_sequence ?rows = ?rows" using log_sorted [OF log] unfolding filter_filter by (intro sort_key_id_if_sorted)
  show ?thesis
  proof (cases ?rows rule: rev_cases)
    case Nil
    then show ?thesis by (simp add: latest_runtime_def f s envelopes_filter map_filter_simps)
  next
    case (snoc ys row)
    then have "row \<in> set ?rows" by simp
    then have r: "row \<in> set (tb_events t)" "?Q row" by simp_all
    then obtain e where d: "decode se session row = Ok e" using log unfolding log_ok_def by blast
    have "last_of (envelopes ?rows) = observed row"
    proof -
      have "observed r \<noteq> None" if "r \<in> set ?rows" for r using that by auto
      from last_envelope [OF this] show ?thesis by (simp only: snoc) simp
    qed
    moreover obtain env where env: "observed row = Some env" using r(2) by blast
    then have "sv_payload e = RuntimeObserved env"
      using decode_Ok(3) [OF d] by (auto simp: observed_def split: StoredEventPayload.splits)
    then have "latest_runtime se session t run kind = Ok (Some env)" unfolding latest_runtime_def f s unfolding snoc by (simp add: d)
    ultimately show ?thesis by (simp only: envelopes_filter env)
  qed
qed

definition nested_sequence :: "RunEventEnvelope \<Rightarrow> u64 option" where
  "nested_sequence e = (case re_event e of ProviderEventReceived p \<Rightarrow> Some (env_sequence p) | _ \<Rightarrow> None)"

definition started_turn :: "RunEventEnvelope \<Rightarrow> (str \<times> u64) option" where
  "started_turn e = (case re_event e of TurnStarted n \<Rightarrow> map_option (\<lambda>turn. (turn, n)) (re_turn_id e) | _ \<Rightarrow> None)"

definition in_turn :: "RunEventEnvelope \<Rightarrow> bool" where
  "in_turn e = (case re_event e of RunStarted \<Rightarrow> False | TurnFinished _ _ _ _ \<Rightarrow> False | RunFinished _ _ \<Rightarrow> False | _ \<Rightarrow> True)"

definition current_turn :: "RunEventEnvelope list \<Rightarrow> (str \<times> u64) option" where
  "current_turn es = (if \<exists>e. last_of es = Some e \<and> in_turn e
     then Option.bind (last_of (filter (of_kind (Some ''turn_started'')) es)) started_turn else None)"

text \<open>The correlation in terms of the runtime events seen.\<close>

definition correlated :: "RunEventEnvelope list \<Rightarrow> Correlation \<Rightarrow> bool" where
  "correlated es c \<longleftrightarrow>
     co_request c = Option.bind (last_of es) re_request_id \<and>
     co_provider_sequence c = Option.bind (last_of (filter (of_kind (Some ''provider_event'')) es)) nested_sequence \<and>
     co_turn c = current_turn es \<and>
     (\<forall>e. last_of es = Some e \<and> in_turn e \<longrightarrow> co_turn c \<noteq> None \<and> re_turn_id e = map_option fst (co_turn c))"

lemma current_turn_continues:
  assumes "current_turn es \<noteq> None" "in_turn e" "runtime_type (re_event e) \<noteq> ''turn_started''"
  shows "current_turn (es @ [e]) = current_turn es"
  using assms by (auto simp: current_turn_def split: if_splits)

lemma correlated_observe:
  assumes c: "correlated es c" and v: "runtime_identities_valid e" and start: "rec_state run = StateAccepted \<Longrightarrow> es = []"
    and o: "Correlation_observe t c run e n = Ok c'" and e: "\<And>o' s. re_event e \<noteq> RunFinished o' s"
  shows "correlated (es @ [e]) c'"
proof (cases "re_event e")
  case RunStarted
  then have "es = []" using start observe_Ok(1) [OF o] by simp
  then show ?thesis using RunStarted c v o
    by (auto simp: correlated_def current_turn_def in_turn_def Correlation_observe_def wi_results runtime_identities_valid_def)
next
  case (TurnStarted number)
  then obtain turn where turn: "re_turn_id e = Some turn" "re_request_id e = None" using v by (auto simp: runtime_identities_valid_def)
  then have "c' = c\<lparr>co_turn := Some (turn, number), co_request := None, co_session := re_session_id e\<rparr>"
    using o TurnStarted by (auto simp: Correlation_observe_def wi_results)
  then show ?thesis using c turn TurnStarted by (auto simp: correlated_def current_turn_def in_turn_def started_turn_def)
next
  case (ProviderEventReceived p)
  then obtain turn number where turn: "co_turn c = Some (turn, number)" "re_turn_id e = Some turn"
    and "c' = c\<lparr>co_request := re_request_id e, co_provider_sequence := Some (env_sequence p), co_session := re_session_id e\<rparr>"
    using o by (auto simp: Correlation_observe_def observe_in_turn_def Let_def wi_results)
  moreover have ct: "current_turn es = Some (turn, number)" using turn c by (simp add: correlated_def)
  then have "current_turn (es @ [e]) = current_turn es"
    using ProviderEventReceived by (intro current_turn_continues) (simp_all add: in_turn_def)
  ultimately show ?thesis using c ProviderEventReceived by (simp add: ct correlated_def nested_sequence_def)
next
  case (ToolEvent tool)
  then obtain turn number where turn: "co_turn c = Some (turn, number)" "re_turn_id e = Some turn"
    and "c' = c\<lparr>co_request := re_request_id e, co_session := re_session_id e\<rparr>"
    using o by (auto simp: Correlation_observe_def observe_in_turn_def Let_def wi_results)
  moreover have ct: "current_turn es = Some (turn, number)" using turn c by (simp add: correlated_def)
  then have "current_turn (es @ [e]) = current_turn es"
    using ToolEvent by (intro current_turn_continues) (simp_all add: in_turn_def)
  ultimately show ?thesis using c ToolEvent by (simp add: ct correlated_def)
next
  case (TurnFinished a b c2 d)
  then have "c' = c\<lparr>co_request := re_request_id e, co_turn := None, co_session := re_session_id e\<rparr>"
    using o by (auto simp: Correlation_observe_def observe_in_turn_def Let_def wi_results)
  then show ?thesis using c TurnFinished by (auto simp: correlated_def current_turn_def in_turn_def)
next
  case (RunFinished o' s)
  then show ?thesis using e by simp
qed

definition follows :: "EventRow list \<Rightarrow> repair_state \<Rightarrow> bool" where
  "follows rows st \<longleftrightarrow>
     rec_last_runtime_sequence (rp_replay st) = (case last_of (envelopes rows) of None \<Rightarrow> 0 | Some e \<Rightarrow> re_sequence e) \<and>
     (rec_state (rp_replay st) = StateAccepted \<longrightarrow> envelopes rows = []) \<and>
     (active (rec_state (rp_replay st)) \<longrightarrow> correlated (envelopes rows) (rp_correlation st) \<and>
        co_session (rp_correlation st) = rec_provider_session_id (rp_replay st))"

lemma envelopes_snoc:
  "ev_payload_json row = RuntimeObserved e \<Longrightarrow> envelopes (rows @ [row]) = envelopes rows @ [e]"
  "(\<And>e. ev_payload_json row \<noteq> RuntimeObserved e) \<Longrightarrow> envelopes (rows @ [row]) = envelopes rows"
  by (auto simp: map_filter_simps map_filter_append observed_def split: StoredEventPayload.splits)

lemma correlated_session [simp]: "correlated es (c\<lparr>co_session := p\<rparr>) = correlated es c"
  by (simp add: correlated_def)

lemma follows_snoc:
  assumes "follows rows st" "\<And>e. ev_payload_json row \<noteq> RuntimeObserved e"
    and "rec_last_runtime_sequence (rp_replay st') = rec_last_runtime_sequence (rp_replay st)"
    and "active (rec_state (rp_replay st')) \<Longrightarrow> rec_state (rp_replay st') = rec_state (rp_replay st) \<and>
      rp_correlation st' = rp_correlation st \<and> rec_provider_session_id (rp_replay st') = rec_provider_session_id (rp_replay st)"
  shows "follows (rows @ [row]) st'"
proof (cases "active (rec_state (rp_replay st'))")
  case True
  then show ?thesis using assms(1,3) assms(4) [OF True] unfolding follows_def envelopes_snoc(2) [OF assms(2)] by simp
next
  case False
  then have "rec_state (rp_replay st') \<noteq> StateAccepted" by auto
  then show ?thesis using False assms(1,3) unfolding follows_def envelopes_snoc(2) [OF assms(2)] by simp
qed

lemma replay_follows:
  assumes "replay_rows session run t rows (repair_start r) = Some st"
  shows "(\<forall>e \<in> set (envelopes rows). runtime_identities_valid e) \<longrightarrow> follows rows st"
  using assms
proof (induction rule: replay_rows_induct)
  case start
  show ?case by (simp add: follows_def repair_start_def map_filter_simps correlated_def Correlation_default_def current_turn_def)
next
  case (step rows row st st')
  from step(2) show ?case
  proof (cases rule: replay_row_cases)
    case (runtime e c)
    note o = observe_Ok [OF runtime(4)]
    have ne: "outcome_state x \<noteq> StateAccepted" for x by (metis active_states(1,4))
    show ?thesis
    proof
      assume "\<forall>e \<in> set (envelopes (rows @ [row])). runtime_identities_valid e"
      then have v: "runtime_identities_valid e" and IH: "follows rows st" using step(3) by (simp_all add: envelopes_snoc(1) [OF runtime(1)])
      have "active (rec_state (rp_replay st))" using o(1) by (simp split: if_splits)
      then have c: "correlated (envelopes rows) (rp_correlation st)" and start: "rec_state (rp_replay st) = StateAccepted \<Longrightarrow> envelopes rows = []"
        using IH by (simp_all add: follows_def)
      show "follows (rows @ [row]) st'"
      proof (cases "\<exists>o' s. re_event e = RunFinished o' s")
        case True
        then show ?thesis using runtime(5) ne by (auto simp: follows_def envelopes_snoc(1) [OF runtime(1)])
      next
        case False
        then have "correlated (envelopes rows @ [e]) c" using correlated_observe [OF c v start runtime(4)] by blast
        moreover have "rec_state (rp_replay st') \<noteq> StateAccepted" using runtime(5) o(1) False by (auto split: RunEvent.splits)
        ultimately show ?thesis using runtime(5) o(3) False
          by (auto simp: follows_def envelopes_snoc(1) [OF runtime(1)] split: RunEvent.splits)
      qed
    qed
  next
    case (bound b)
    then show ?thesis using step(3) unfolding follows_def by (simp add: envelopes_snoc(2))
  next
    case (accepted p)
    show ?thesis using step(3) envelopes_snoc(2) [of row] accepted(1) unfolding accepted(4) by (auto intro!: follows_snoc)
  next
    case (selected p)
    show ?thesis using step(3) envelopes_snoc(2) [of row] selected(1) unfolding selected(5) by (auto intro!: follows_snoc)
  next
    case (tool p)
    show ?thesis using step(3) envelopes_snoc(2) [of row] tool(1) unfolding tool(5) by (auto intro!: follows_snoc)
  next
    case (closing r)
    show ?thesis using step(3) envelopes_snoc(2) [of row] closing(1) unfolding closing(5) by (auto intro!: follows_snoc)
  next
    case (result r)
    show ?thesis using step(3) envelopes_snoc(2) [of row] result(1,3) unfolding result(4) by (auto intro!: follows_snoc)
  next
    case (interrupted p)
    show ?thesis using step(3) envelopes_snoc(2) [of row] interrupted(1) unfolding interrupted(4) by (auto intro!: follows_snoc)
  qed
qed

lemma decode_runtime:
  assumes "decode se session row = Ok e" "ev_payload_json row = RuntimeObserved env"
  shows "validate_runtime (se_uuid se) env = Ok ()" "re_sequence env \<noteq> 0" "runtime_identities_valid env"
proof -
  have "sv_payload e = RuntimeObserved env" using decode_Ok(3) [OF assms(1)] assms(2) by simp
  moreover obtain n event created version run kind where "StoredEvent_payload se session n event created run kind (ev_payload_json row) = Ok (sv_payload e)"
    using assms(1) by (auto simp: decode_def StoredEvent_try_from_def wi_results)
  ultimately show v: "validate_runtime (se_uuid se) env = Ok ()"
    using assms(2) by (auto simp: StoredEvent_payload_def wi_results split: if_splits)
  then show "re_sequence env \<noteq> 0" "runtime_identities_valid env" by (auto simp: validate_runtime_def wi_results)
qed

lemma envelopes_valid:
  assumes "log_ok se session t" "e \<in> set (envelopes (rows_of t run))"
  shows "runtime_identities_valid e" "re_sequence e \<noteq> 0"
proof -
  from assms(2) obtain row where row: "row \<in> set (tb_events t)" "observed row = Some e" by (auto simp: map_filter_def)
  from row(2) have p: "ev_payload_json row = RuntimeObserved e" by (auto simp: observed_def split: StoredEventPayload.splits)
  from row(1) assms(1) obtain x where "decode se session row = Ok x" unfolding log_ok_def by blast
  from decode_runtime(2,3) [OF this p] show "runtime_identities_valid e" "re_sequence e \<noteq> 0" by simp_all
qed

lemma Correlation_eqI:
  "co_session c = co_session d \<Longrightarrow> co_turn c = co_turn d \<Longrightarrow> co_request c = co_request d \<Longrightarrow>
     co_provider_sequence c = co_provider_sequence d \<Longrightarrow> c = (d :: Correlation)"
  by simp

lemma current_turn_started:
  assumes "current_turn es = Some (turn, number)"
  obtains s where "last_of (filter (of_kind (Some ''turn_started'')) es) = Some s" "re_event s = TurnStarted number" "re_turn_id s = Some turn"
proof -
  from assms obtain s where s: "last_of (filter (of_kind (Some ''turn_started'')) es) = Some s" "started_turn s = Some (turn, number)"
    unfolding current_turn_def by (auto simp: Option.bind_eq_Some_conv split: if_splits)
  from s(2) have "re_event s = TurnStarted number" "re_turn_id s = Some turn" by (auto simp: started_turn_def split: RunEvent.splits)
  with s(1) that show thesis by blast
qed

lemma last_of_mem: "last_of xs = Some x \<Longrightarrow> x \<in> set xs"
  by (auto simp: last_of_def split: if_splits)

text \<open>Loading the correlation from the log gives the correlation the replay has reached: a batch can be split anywhere.\<close>

lemma Correlation_reload:
  assumes log: "log_ok se session t" and f: "follows (rows_of t (rec_run_id r)) st" and r: "rp_replay st = r\<lparr>rec_result := x\<rparr>" "active (rec_state r)"
  shows "Correlation_load se session t r = Ok (rp_correlation st)"
proof -
  let ?es = "envelopes (rows_of t (rec_run_id r))" and ?c = "rp_correlation st"
  note latest = latest_runtime_envelopes [OF log, of "rec_run_id r"]
  have last: "rec_last_runtime_sequence r = (case last_of ?es of None \<Rightarrow> 0 | Some e \<Rightarrow> re_sequence e)"
    and c: "correlated ?es ?c" and session: "co_session ?c = rec_provider_session_id r"
    using f r by (auto simp: follows_def)
  have turn: "co_turn ?c = current_turn ?es" and req: "co_request ?c = Option.bind (last_of ?es) re_request_id"
    and seq: "co_provider_sequence ?c = Option.bind (last_of (filter (of_kind (Some ''provider_event'')) ?es)) nested_sequence"
    using c by (simp_all add: correlated_def)
  show ?thesis
  proof (cases "last_of ?es")
    case None
    then have "?es = []" by (simp add: last_of_def split: if_splits)
    then have "?c = Correlation_default\<lparr>co_session := rec_provider_session_id r\<rparr>"
      using turn req seq session by (intro Correlation_eqI) (simp_all add: Correlation_default_def current_turn_def)
    then show ?thesis using last None by (simp add: Correlation_load_def Let_def)
  next
    case (Some e)
    have nz: "re_sequence e \<noteq> 0" by (rule envelopes_valid(2) [OF log last_of_mem [OF Some]])
    have all: "filter (of_kind None) ?es = ?es" by simp
    let ?state = "Correlation_default\<lparr>co_session := rec_provider_session_id r, co_request := re_request_id e\<rparr>"
    have t: "(case re_event e of RunStarted \<Rightarrow> Ok ?state | TurnFinished _ _ _ _ \<Rightarrow> Ok ?state | RunFinished _ _ \<Rightarrow> Ok ?state
         | _ \<Rightarrow>
             and_then (latest_runtime se session t (rec_run_id r) (Some ''turn_started'')) (\<lambda>found.
             and_then (ok_or integrity found) (\<lambda>started.
             and_then (case re_event started of TurnStarted number \<Rightarrow> Ok number | _ \<Rightarrow> Err integrity) (\<lambda>number.
             and_then (reject_if (re_turn_id e \<noteq> re_turn_id started) integrity) (\<lambda>_.
             and_then (ok_or integrity (re_turn_id started)) (\<lambda>turn.
             Ok (?state\<lparr>co_turn := Some (turn, number)\<rparr>))))))) = Ok (?state\<lparr>co_turn := co_turn ?c\<rparr>)" (is "?t = _")
    proof (cases "in_turn e")
      case True
      then have "co_turn ?c \<noteq> None" "re_turn_id e = map_option fst (co_turn ?c)" using c Some unfolding correlated_def by blast+
      then obtain turn' number where tn: "co_turn ?c = Some (turn', number)" "re_turn_id e = Some turn'" by auto
      then have "current_turn ?es = Some (turn', number)" using turn by simp
      then obtain s where s: "last_of (filter (of_kind (Some ''turn_started'')) ?es) = Some s" "re_event s = TurnStarted number" "re_turn_id s = Some turn'"
        by (rule current_turn_started)
      from True show ?thesis unfolding latest s(1) using s(2,3) tn by (cases "re_event e") (simp_all add: in_turn_def reject_if_def)
    next
      case False
      then have "co_turn ?c = None" using turn Some by (simp add: current_turn_def)
      then show ?thesis using False by (cases "re_event e") (simp_all add: in_turn_def Correlation_default_def)
    qed
    have p: "nested_sequence s \<noteq> None" if "last_of (filter (of_kind (Some ''provider_event'')) ?es) = Some s" for s
      using last_of_mem [OF that] by (cases "re_event s") (auto simp: nested_sequence_def)
    have "?c = (case last_of (filter (of_kind (Some ''provider_event'')) ?es) of None \<Rightarrow> ?state\<lparr>co_turn := co_turn ?c\<rparr>
       | Some s \<Rightarrow> ?state\<lparr>co_turn := co_turn ?c, co_provider_sequence := nested_sequence s\<rparr>)"
      using req seq session Some by (intro Correlation_eqI) (auto simp: Correlation_default_def split: option.split)
    then show ?thesis using last nz p
      unfolding Correlation_load_def Let_def latest all Some
      by (simp add: t [unfolded latest] reject_ok split: option.splits) (auto simp: nested_sequence_def split: RunEvent.splits)
  qed
qed

end
