(* ===== verification/Repair_Tools.thy ===== *)
theory Repair_Tools
  imports Repair_Replay
begin

text \<open>
  Tool results only advance: a row keeps the call, the tool and the event that started it, and a recorded finish or result
  stays (\<open>tools_kept\<close>).  So the checks of earlier events survive an append, and the effect of an appended record
  establishes the checks of its own event (\<open>record_effect_tools\<close>).
\<close>

section \<open>Tool results only advance\<close>

definition tool_le :: "ToolRow \<Rightarrow> ToolRow \<Rightarrow> bool" where
  "tool_le row row' \<longleftrightarrow>
     tr_run_id row' = tr_run_id row \<and> tr_call_id row' = tr_call_id row \<and> tr_tool_name row' = tr_tool_name row \<and>
     tr_request_id row' = tr_request_id row \<and> tr_started_sequence row' = tr_started_sequence row \<and>
     (\<forall>n. tr_finished_sequence row = Some n \<longrightarrow> tr_finished_sequence row' = Some n) \<and>
     (\<forall>n. tr_result_sequence row = Some n \<longrightarrow> tr_result_sequence row' = Some n)"

definition tools_kept :: "'d tables \<Rightarrow> 'd tables \<Rightarrow> bool" where
  "tools_kept t t' \<longleftrightarrow>
     (\<forall>run call row. tool_row t run call = Some row \<longrightarrow> (\<exists>row'. tool_row t' run call = Some row' \<and> tool_le row row'))"

lemma tool_le_refl: "tool_le row row"
  by (simp add: tool_le_def)

lemma tools_kept_same: "tb_tools t' = tb_tools t \<Longrightarrow> tools_kept t t'"
  by (simp add: tools_kept_def tool_row_def tool_le_refl)

lemma tool_le_trans: "tool_le a b \<Longrightarrow> tool_le b c \<Longrightarrow> tool_le a c"
  by (simp add: tool_le_def)

lemma tools_kept_trans: "tools_kept t t' \<Longrightarrow> tools_kept t' t'' \<Longrightarrow> tools_kept t t''"
  unfolding tools_kept_def by (meson tool_le_trans)

lemma saved_kept:
  assumes s: "stored_tool_result se session t run call = Ok (Some saved)" and k: "tools_kept t t'" and r: "tools_read se session t'"
  obtains saved' where "stored_tool_result se session t' run call = Ok (Some saved')" "rt_started_sequence saved' = rt_started_sequence saved"
    "rt_tool_name saved' = rt_tool_name saved" "rt_request_id saved' = rt_request_id saved"
    "\<And>n. rt_finished_sequence saved = Some n \<Longrightarrow> rt_finished_sequence saved' = Some n"
    "\<And>n. rt_result_sequence saved = Some n \<Longrightarrow> rt_result_sequence saved' = Some n"
proof -
  from s obtain row where row: "tool_row t run call = Some row" "tool_of_row se session t row = Ok saved"
    unfolding stored_tool_result_Some by blast
  with k obtain row' where row': "tool_row t' run call = Some row'" "tool_le row row'" unfolding tools_kept_def by blast
  then have "row' \<in> set (tb_tools t')" unfolding tool_row_def by (auto dest: find_member)
  with r obtain saved' where saved': "tool_of_row se session t' row' = Ok saved'" unfolding tools_read_def by blast
  have f: "tool_fields row saved" "tool_fields row' saved'" using row(2) saved' unfolding tool_of_row_Ok by blast+
  show thesis
  proof (rule that)
    show "stored_tool_result se session t' run call = Ok (Some saved')" unfolding stored_tool_result_Some using row'(1) saved' by blast
  qed (use f row'(2) in \<open>auto simp: tool_fields_def tool_le_def map_transpose_positive split: option.splits\<close>)
qed

text \<open>The checks of one event that read the tool results.\<close>

definition tool_checks :: "('u, 'd) store_env \<Rightarrow> str \<Rightarrow> 'd tables \<Rightarrow> str \<Rightarrow> StoredEvent \<Rightarrow> bool" where
  "tool_checks se session t run stored =
     (case sv_payload stored of
        RuntimeObserved event \<Rightarrow>
          (case re_event event of
             RunFinished outcome _ \<Rightarrow> require_outputs_before t run outcome (sv_sequence stored) = Ok ()
           | ToolEvent tool \<Rightarrow> validate_tool_event se session t run (sv_sequence stored) event tool = Ok ()
           | _ \<Rightarrow> True)
      | ToolResultRecorded payload \<Rightarrow>
          (\<exists>saved. stored_tool_result se session t run (tp_call_id payload) = Ok (Some saved) \<and> rt_result_sequence saved = Some (sv_sequence stored))
      | RunResultRecorded result \<Rightarrow> require_outputs_before t run (result_outcome result) (sv_sequence stored) = Ok ()
      | _ \<Rightarrow> True)"

lemma history_event_kept: "history_event se session t w = Ok e \<Longrightarrow> extends t t' \<Longrightarrow> history_event se session t' w = Ok e"
  using history_event_extends [of t t' se session w] by (simp add: ok_le_def)

lemma validate_tool_event_kept:
  assumes v: "validate_tool_event se session t run n env tool = Ok ()" and k: "tools_kept t t'" and r: "tools_read se session t'" and x: "extends t t'"
  shows "validate_tool_event se session t' run n env tool = Ok ()"
proof -
  from v obtain saved where saved: "stored_tool_result se session t run (tool_event_call tool) = Ok (Some saved)"
    by (auto simp: validate_tool_event_def wi_results)
  obtain saved' where saved': "stored_tool_result se session t' run (tool_event_call tool) = Ok (Some saved')"
    "rt_started_sequence saved' = rt_started_sequence saved" "rt_tool_name saved' = rt_tool_name saved" "rt_request_id saved' = rt_request_id saved"
    "\<And>n. rt_finished_sequence saved = Some n \<Longrightarrow> rt_finished_sequence saved' = Some n"
    "\<And>n. rt_result_sequence saved = Some n \<Longrightarrow> rt_result_sequence saved' = Some n"
    by (rule saved_kept [OF saved k r]) blast
  show ?thesis
  proof (cases tool)
    case (ToolExecutionStarted call name)
    then show ?thesis using v saved saved'(1,2) by (simp add: validate_tool_event_def)
  next
    case (ToolExecutionFinished call name b)
    then show ?thesis using v saved saved'(1,2,5) x by (auto simp: validate_tool_event_def wi_results dest: history_event_kept)
  next
    case (ToolResultReused call name)
    then show ?thesis using v saved saved'(1,3,4,6) by (auto simp: validate_tool_event_def wi_results split: option.splits)
  qed
qed

lemma require_outputs_before_Ok:
  "require_outputs_before t run outcome n = Ok () \<longleftrightarrow>
     (outcome = RunCompleted \<longrightarrow> (\<forall>r \<in> set (tb_tools t). tr_run_id r = run \<longrightarrow> (\<exists>i. tr_result_sequence r = Some i \<and> i < sint n)))"
  by (auto simp: require_outputs_before_def wi_results list_ex_iff not_le split: option.splits)

lemma require_outputs_before_kept:
  assumes "require_outputs_before t run outcome n = Ok ()"
    and "\<And>r. r \<in> set (tb_tools t') \<Longrightarrow> tr_run_id r = run \<Longrightarrow> r \<in> set (tb_tools t)"
  shows "require_outputs_before t' run outcome n = Ok ()"
  using assms unfolding require_outputs_before_Ok by blast

lemma tool_checks_kept:
  assumes c: "tool_checks se session t run e" and k: "tools_kept t t'" and r: "tools_read se session t'" and x: "extends t t'"
    and same: "\<And>r. is_closing (sv_payload e) \<Longrightarrow> r \<in> set (tb_tools t') \<Longrightarrow> tr_run_id r = run \<Longrightarrow> r \<in> set (tb_tools t)"
  shows "tool_checks se session t' run e"
proof (cases "sv_payload e")
  case (RuntimeObserved env)
  show ?thesis
  proof (cases "re_event env")
    case (ToolEvent tool)
    then show ?thesis using c RuntimeObserved validate_tool_event_kept [OF _ k r x] by (simp add: tool_checks_def)
  next
    case (RunFinished outcome summary)
    then show ?thesis using c RuntimeObserved same require_outputs_before_kept [of t run outcome _ t'] by (simp add: tool_checks_def is_closing_def)
  qed (use RuntimeObserved in \<open>simp_all add: tool_checks_def\<close>)
next
  case (ToolResultRecorded payload)
  with c obtain saved where saved: "stored_tool_result se session t run (tp_call_id payload) = Ok (Some saved)" "rt_result_sequence saved = Some (sv_sequence e)"
    by (auto simp: tool_checks_def)
  obtain saved' where "stored_tool_result se session t' run (tp_call_id payload) = Ok (Some saved')" "rt_result_sequence saved' = Some (sv_sequence e)"
    by (rule saved_kept [OF saved(1) k r]) (use saved(2) in blast)
  then show ?thesis using ToolResultRecorded by (simp add: tool_checks_def)
next
  case (RunResultRecorded result)
  then show ?thesis using c same require_outputs_before_kept [of t run "result_outcome result" _ t'] by (simp add: tool_checks_def is_closing_def)
qed (simp_all add: tool_checks_def)

definition tools_change :: "str \<Rightarrow> 'd tables \<Rightarrow> 'd tables \<Rightarrow> bool" where
  "tools_change run t t' \<longleftrightarrow> tools_kept t t' \<and> (\<forall>r. tr_run_id r \<noteq> run \<longrightarrow> r \<in> set (tb_tools t') \<longrightarrow> r \<in> set (tb_tools t))"

lemma tools_change_same: "tb_tools t' = tb_tools t \<Longrightarrow> tools_change run t t'"
  by (simp add: tools_change_def tools_kept_same)

lemma find_map: "(\<And>x. P (g x) = P x) \<Longrightarrow> List.find P (map g xs) = map_option g (List.find P xs)"
  by (induction xs) auto

lemma tools_change_snoc:
  assumes "tool_row t run call = None" "tb_tools t' = tb_tools t @ [row]" "tr_run_id row = run" "tr_call_id row = call"
  shows "tools_change run t t'" "tool_row t' run call = Some row"
proof -
  have "tool_row t' run' call' = Some r" if "tool_row t run' call' = Some r" for run' call' r
    using that unfolding tool_row_def assms(2) by (rule find_append_Some)
  then show "tools_change run t t'" using assms by (auto simp: tools_change_def tools_kept_def intro: tool_le_refl)
  show "tool_row t' run call = Some row" using assms by (simp add: tool_row_def find_append_None)
qed

lemma tools_change_update:
  assumes row: "tool_row t run call = Some row" "distinct (map (\<lambda>r. (tr_run_id r, tr_call_id r)) (tb_tools t))"
    and t': "tb_tools t' = map (\<lambda>r. if tr_run_id r = run \<and> tr_call_id r = call then f r else r) (tb_tools t)"
    and f: "\<And>r. tr_run_id (f r) = tr_run_id r \<and> tr_call_id (f r) = tr_call_id r" "tool_le row (f row)"
  shows "tools_change run t t'" "tool_row t' run call = Some (f row)"
proof -
  let ?g = "\<lambda>r. if tr_run_id r = run \<and> tr_call_id r = call then f r else r"
  have k: "tool_row t' run' call' = map_option ?g (tool_row t run' call')" for run' call'
    unfolding tool_row_def t' by (rule find_map) (use f(1) in auto)
  have key: "tr_run_id r = run' \<and> tr_call_id r = call'" if "tool_row t run' call' = Some r" for run' call' r
    using that unfolding tool_row_def by (auto simp: find_Some_iff)
  show "tool_row t' run call = Some (f row)" using row(1) key [OF row(1)] by (simp add: k)
  have "\<exists>r'. tool_row t' run' call' = Some r' \<and> tool_le r r'" if r: "tool_row t run' call' = Some r" for run' call' r
  proof (cases "run' = run \<and> call' = call")
    case True
    then show ?thesis using r row(1) f(2) key [OF r] by (simp add: k)
  next
    case False
    then show ?thesis using r key [OF r] by (auto simp: k tool_le_refl)
  qed
  then have "tools_kept t t'" unfolding tools_kept_def by blast
  moreover have "r \<in> set (tb_tools t)" if "tr_run_id r \<noteq> run" "r \<in> set (tb_tools t')" for r
    using that f(1) unfolding t' by auto
  ultimately show "tools_change run t t'" by (simp add: tools_change_def)
qed

text \<open>The sequences in the tool results are sequences of the log.\<close>

lemma tool_sequences:
  assumes "schema_ok t" "log_ok se session t" "r \<in> set (tb_tools t)"
  shows "tr_result_sequence r = Some i \<Longrightarrow> 1 \<le> i \<and> i \<le> log_length t" "1 \<le> tr_started_sequence r \<and> tr_started_sequence r \<le> log_length t"
proof -
  have "optional_reference (map ev_sequence (tb_events t)) (tr_result_sequence r)" "tr_started_sequence r \<in> set (map ev_sequence (tb_events t))"
    using assms(1,3) by (auto simp: schema_ok_def tools_schema_def list_all_iff)
  then show "tr_result_sequence r = Some i \<Longrightarrow> 1 \<le> i \<and> i \<le> log_length t" "1 \<le> tr_started_sequence r \<and> tr_started_sequence r \<le> log_length t"
    using log_member [OF assms(2)] by (auto simp: optional_reference_def)
qed

lemma outputs_before:
  assumes "require_outputs run outcome t' = (Ok u, t'')" "schema_ok t" "log_ok se session t" "tb_tools t' = tb_tools t" "appended se session t e t'"
  shows "require_outputs_before t' run outcome (of_int (log_length t')) = Ok ()"
  unfolding require_outputs_before_Ok sint_log [OF assms(5)]
proof (intro impI ballI)
  fix r
  assume o: "outcome = RunCompleted" and r: "r \<in> set (tb_tools t')" "tr_run_id r = run"
  with assms(1) have "tr_result_sequence r \<noteq> None" by (auto simp: require_outputs_def sql_Ok wi_results list_ex_iff)
  then obtain i where i: "tr_result_sequence r = Some i" by blast
  moreover have "i < log_length t'"
    using tool_sequences(1) [OF assms(2,3) _ i] r(1) assms(4,5) by (simp add: appended_def)
  ultimately show "\<exists>i. tr_result_sequence r = Some i \<and> i < log_length t'" by blast
qed

lemma saved_of_row:
  assumes "tools_read se session t" "tool_row t run call = Some row"
  obtains saved where "stored_tool_result se session t run call = Ok (Some saved)" "tool_fields row saved"
proof -
  have "row \<in> set (tb_tools t)" using assms(2) unfolding tool_row_def by (auto dest: find_member)
  then obtain saved where "tool_of_row se session t row = Ok saved" using assms(1) unfolding tools_read_def by blast
  then show thesis using that assms(2) unfolding stored_tool_result_Some tool_of_row_Ok by blast
qed

lemma stored_tool_result_None: "stored_tool_result se session t run call = Ok None \<longleftrightarrow> tool_row t run call = None"
  by (cases "tool_row t run call") (auto simp: stored_tool_result_def wi_results)

lemma runtime_payload_Ok: "(case p of RuntimeObserved e \<Rightarrow> Ok e | _ \<Rightarrow> Err x) = Ok a \<longleftrightarrow> p = RuntimeObserved a"
  by (cases p) auto

lemma fields_sequences:
  assumes "tool_fields row saved"
  shows "rt_started_sequence saved = of_int (tr_started_sequence row)" "rt_finished_sequence saved = map_option of_int (tr_finished_sequence row)"
    "rt_result_sequence saved = map_option of_int (tr_result_sequence row)"
  using assms unfolding tool_fields_def map_transpose_positive by (auto split: option.splits)

lemma tool_started_change:
  assumes run: "tool_started se session run n request call name t = (Ok u, t')" and r: "tools_read se session t'"
  shows "tools_change (rec_run_id run) t t' \<and> validate_tool_event se session t' (rec_run_id run) (of_int n) env (ToolExecutionStarted call name) = Ok ()"
proof -
  let ?row = "\<lparr>tr_run_id = rec_run_id run, tr_call_id = call, tr_tool_name = name,
       tr_request_id = Some request, tr_started_sequence = n, tr_finished_sequence = None,
       tr_result_sequence = None, tr_is_error = None, tr_output = None\<rparr>"
  from run have none: "tool_row t (rec_run_id run) call = None" and t': "tb_tools t' = tb_tools t @ [?row]"
    by (auto simp: tool_started_def sql_Ok stored_tool_result_None)
  note c = tools_change_snoc [OF none t']
  obtain saved where "stored_tool_result se session t' (rec_run_id run) call = Ok (Some saved)" "tool_fields ?row saved"
    by (rule saved_of_row [OF r c(2)]) simp_all
  then show ?thesis using c(1) by (simp add: validate_tool_event_def tool_fields_def reject_ok)
qed

lemma tool_finished_change:
  assumes run: "tool_finished se session run n env request call name b t = (Ok u, t')" and r: "tools_read se session t'" and ok: "schema_ok t"
  shows "tools_change (rec_run_id run) t t' \<and> validate_tool_event se session t' (rec_run_id run) (of_int n) env (ToolExecutionFinished call name b) = Ok ()"
proof -
  let ?f = "\<lambda>r. r\<lparr>tr_finished_sequence := Some n, tr_is_error := Some (flag_to_i64 b)\<rparr>"
  from run obtain row saved started env' where row: "tool_row t (rec_run_id run) call = Some row" "tool_of_row se session t row = Ok saved"
    and s: "rt_finished_sequence saved = None" "history_event se session t (rt_started_sequence saved) = Ok started"
      "sv_payload started = RuntimeObserved env'" "re_turn_id env' = re_turn_id env"
    and t': "t' = t\<lparr>tb_tools := map (\<lambda>r. if tr_run_id r = rec_run_id run \<and> tr_call_id r = call then ?f r else r) (tb_tools t)\<rparr>"
    by (auto simp: tool_finished_def update_tool_def sql_Ok wi_results stored_tool_result_Some runtime_payload_Ok)
  have f: "tool_fields row saved" using row(2) unfolding tool_of_row_Ok by blast
  then have "tr_finished_sequence row = None" using s(1) fields_sequences(2) by simp
  then have le: "tool_le row (?f row)" by (simp add: tool_le_def)
  have c: "tools_change (rec_run_id run) t t'" "tool_row t' (rec_run_id run) call = Some (?f row)"
    by (rule tools_change_update [OF row(1) tools_distinct [OF ok]]; use le in \<open>simp add: t'\<close>)+
  obtain saved' where saved': "stored_tool_result se session t' (rec_run_id run) call = Ok (Some saved')" "tool_fields (?f row) saved'"
    by (rule saved_of_row [OF r c(2)])
  have "rt_started_sequence saved' = rt_started_sequence saved" "rt_finished_sequence saved' = Some (of_int n)"
    using fields_sequences [OF f] fields_sequences [OF saved'(2)] by simp_all
  moreover have "history_event se session t' = history_event se session t" by (rule history_event_log) (simp add: t')
  ultimately show ?thesis using c(1) saved'(1) s by (simp add: validate_tool_event_def reject_ok)
qed

lemma tool_reused_change:
  assumes run: "tool_reused se session run call name t' = (Ok u, t'')" and a: "appended se session t e t'" and ok: "schema_ok t" "tb_tools t' = tb_tools t"
  shows "t'' = t' \<and> validate_tool_event se session t' (rec_run_id run) (of_int (log_length t')) env (ToolResultReused call name) = Ok ()"
proof -
  from run obtain row saved where row: "tool_row t' (rec_run_id run) call = Some row" "tool_of_row se session t' row = Ok saved"
    and s: "rt_tool_name saved = name" "rt_request_id saved \<noteq> None" "rt_result_sequence saved \<noteq> None" and t'': "t'' = t'"
    by (auto simp: tool_reused_def sql_Ok wi_results stored_tool_result_Some)
  have log: "log_ok se session t" "log_length t' = log_length t + 1" "log_length t' < 2 ^ 63" using a by (auto simp: appended_def log_ok_def)
  have "tool_fields row saved" using row(2) unfolding tool_of_row_Ok by blast
  with s(3) obtain i where i: "tr_result_sequence row = Some i" "rt_result_sequence saved = Some (of_int i)"
    by (auto simp: fields_sequences(3))
  have "row \<in> set (tb_tools t)" using row(1) ok(2) unfolding tool_row_def by (auto dest: find_member)
  from tool_sequences(1) [OF ok(1) log(1) this i(1)] have "(of_int i :: u64) < of_int (log_length t')"
    using log by (subst of_i64_less) auto
  moreover have "stored_tool_result se session t' (rec_run_id run) call = Ok (Some saved)" using row unfolding stored_tool_result_Some by blast
  ultimately show ?thesis using t'' s(1,2) i(2) by (simp add: validate_tool_event_def reject_ok)
qed

lemma append_tool_result_change:
  assumes run: "append_tool_result se session run n request call out b t = (Ok run', t')" and r: "tools_read se session t'" and ok: "schema_ok t"
  shows "tools_change (rec_run_id run) t t' \<and>
    (\<exists>saved. stored_tool_result se session t' (rec_run_id run) call = Ok (Some saved) \<and> rt_result_sequence saved = Some (of_int n))"
proof -
  let ?f = "\<lambda>r. r\<lparr>tr_result_sequence := Some n, tr_output := Some out, tr_is_error := Some (flag_to_i64 b)\<rparr>"
  from run obtain row saved where row: "tool_row t (rec_run_id run) call = Some row" "tool_of_row se session t row = Ok saved"
    and s: "rt_result_sequence saved = None"
    and t': "t' = t\<lparr>tb_tools := map (\<lambda>r. if tr_run_id r = rec_run_id run \<and> tr_call_id r = call then ?f r else r) (tb_tools t)\<rparr>"
    by (auto simp: append_tool_result_def update_tool_def sql_Ok wi_results stored_tool_result_Some)
  have "tool_fields row saved" using row(2) unfolding tool_of_row_Ok by blast
  then have "tr_result_sequence row = None" using s fields_sequences(3) by simp
  then have le: "tool_le row (?f row)" by (simp add: tool_le_def)
  have c: "tools_change (rec_run_id run) t t'" "tool_row t' (rec_run_id run) call = Some (?f row)"
    by (rule tools_change_update [OF row(1) tools_distinct [OF ok]]; use le in \<open>simp add: t'\<close>)+
  obtain saved' where "stored_tool_result se session t' (rec_run_id run) call = Ok (Some saved')" "tool_fields (?f row) saved'"
    by (rule saved_of_row [OF r c(2)])
  then show ?thesis using c(1) fields_sequences by fastforce
qed

section \<open>One appended record\<close>

definition runtime_run :: "RecordedRun \<Rightarrow> RunEventEnvelope \<Rightarrow> RecordedRun" where
  "runtime_run run e = (case re_event e of
       RunStarted \<Rightarrow> run\<lparr>rec_state := StateRunning\<rparr>
     | RunFinished outcome _ \<Rightarrow> run\<lparr>rec_state := outcome_state outcome\<rparr>
     | _ \<Rightarrow> run)\<lparr>rec_last_runtime_sequence := re_sequence e, rec_provider_session_id := re_session_id e\<rparr>"

lemma append_runtime_run:
  assumes "append_runtime se session run n e t = (Ok run', t')"
  shows "run' = runtime_run run e"
  using assms by (cases "re_event e") (auto simp: append_runtime_def runtime_run_def sql_Ok terminalize_Ok)

lemma append_result_run:
  assumes "append_result se session run n result t = (Ok run', t')"
  shows "rec_result_sequence run = None"
    "active (rec_state run) \<Longrightarrow> \<not> result_events_complete result \<and>
       (rec_provider_session_id run = None \<or> rec_provider_session_id run = result_session_id result) \<and>
       run' = run\<lparr>rec_state := outcome_state (result_outcome result), rec_provider_session_id := result_session_id result,
         rec_result_sequence := Some (of_int n)\<rparr>"
    "\<not> active (rec_state run) \<Longrightarrow> run' = run\<lparr>rec_result_sequence := Some (of_int n)\<rparr> \<and>
       (\<exists>x y. rec_terminal run = Some x \<and> history_event se session t (sv_sequence x) = Ok y \<and>
          terminal_outcome y = Some (result_outcome result, result_session_id result))"
  using assms by (auto simp: append_result_def sql_Ok terminalize_Ok require_outputs_def wi_results split: if_splits prod.splits)

lemma append_runtime_tools:
  assumes a: "appended se session t e t1" "schema_ok t" "schema_ok t1" "tb_tools t1 = tb_tools t"
    and e: "sv_payload e = RuntimeObserved env"
    and run: "append_runtime se session run (log_length t1) env t1 = (Ok run', t2)" and r: "tools_read se session t2"
  shows "tools_change (rec_run_id run) t1 t2 \<and> tool_checks se session t2 (rec_run_id run) e"
proof -
  have log: "log_ok se session t" and seq: "sv_sequence e = of_int (log_length t1)"
    using a(1) unfolding appended_def by blast+
  show ?thesis
  proof (cases "re_event env")
    case (RunFinished outcome summary)
    with run obtain u s where o: "require_outputs (rec_run_id run) outcome t1 = (Ok u, s)" and s: "tb_tools t2 = tb_tools s"
      by (auto simp: append_runtime_def sql_Ok terminalize_Ok)
    have t2: "tb_tools t2 = tb_tools t1" using require_outputs_Ok [OF o] s by simp
    from outputs_before [OF o a(2) log(1) a(4,1)] have "require_outputs_before t2 (rec_run_id run) outcome (of_int (log_length t1)) = Ok ()"
      by (rule require_outputs_before_kept) (simp add: t2)
    then show ?thesis using RunFinished e seq t2 by (simp add: tool_checks_def tools_change_same)
  next
    case (ToolEvent tool)
    with run obtain u where tool: "record_tool_event se session run (log_length t1) env tool t1 = (Ok u, t2)"
      by (auto simp: append_runtime_def sql_Ok)
    have "tools_change (rec_run_id run) t1 t2 \<and> validate_tool_event se session t2 (rec_run_id run) (of_int (log_length t1)) env tool = Ok ()"
    proof (cases tool)
      case (ToolExecutionStarted call name)
      with tool obtain request u where "tool_started se session run (log_length t1) request call name t1 = (Ok u, t2)"
        by (auto simp: record_tool_event_def sql_Ok)
      from tool_started_change [OF this r] show ?thesis by (simp add: ToolExecutionStarted)
    next
      case (ToolExecutionFinished call name b)
      with tool obtain request u where "tool_finished se session run (log_length t1) env request call name b t1 = (Ok u, t2)"
        by (auto simp: record_tool_event_def sql_Ok)
      from tool_finished_change [OF this r a(3)] show ?thesis by (simp add: ToolExecutionFinished)
    next
      case (ToolResultReused call name)
      with tool obtain u where "tool_reused se session run call name t1 = (Ok u, t2)"
        by (auto simp: record_tool_event_def sql_Ok)
      from tool_reused_change [OF this a(1,2,4), of env] show ?thesis by (simp add: ToolResultReused tools_change_same)
    qed
    then show ?thesis using ToolEvent e seq by (simp add: tool_checks_def)
  qed (use run e in \<open>auto simp: append_runtime_def sql_Ok tool_checks_def tools_change_same\<close>)
qed

lemma append_result_tools:
  assumes a: "appended se session t e t1" "schema_ok t" "tb_tools t1 = tb_tools t"
    and e: "sv_payload e = RunResultRecorded result"
    and run: "append_result se session run (log_length t1) result t1 = (Ok run', t2)"
    and closed: "\<not> active (rec_state run) \<Longrightarrow> require_outputs_before t (rec_run_id run) (result_outcome result) (of_int (log_length t1)) = Ok ()"
  shows "tb_tools t2 = tb_tools t1 \<and> tool_checks se session t2 (rec_run_id run) e"
proof -
  have log: "log_ok se session t" and seq: "sv_sequence e = of_int (log_length t1)" using a(1) unfolding appended_def by blast+
  have t2: "tb_tools t2 = tb_tools t1"
    using run by (auto simp: append_result_def sql_Ok terminalize_Ok split: if_splits prod.splits dest: require_outputs_Ok)
  have "require_outputs_before t1 (rec_run_id run) (result_outcome result) (of_int (log_length t1)) = Ok ()"
  proof (cases "active (rec_state run)")
    case True
    with run obtain u t3 where "require_outputs (rec_run_id run) (result_outcome result) t1 = (Ok u, t3)" by (auto simp: append_result_def sql_Ok)
    then show ?thesis by (rule outputs_before [OF _ a(2) log a(3,1)])
  next
    case False
    from closed [OF False] show ?thesis by (rule require_outputs_before_kept) (simp add: a(3))
  qed
  then have "require_outputs_before t2 (rec_run_id run) (result_outcome result) (of_int (log_length t1)) = Ok ()"
    by (rule require_outputs_before_kept) (simp add: t2)
  then show ?thesis using t2 e seq by (simp add: tool_checks_def)
qed

lemma record_effect_tools:
  assumes a: "appended se session t e t1" "schema_ok t" "schema_ok t1" "tb_tools t1 = tb_tools t"
    and e: "sv_payload e = record_payload record"
    and run: "record_effect se session run (log_length t1) record t1 = (Ok run', t2)" and r: "tools_read se session t2"
    and closed: "\<And>result. record = AppendResult result \<Longrightarrow> \<not> active (rec_state run) \<Longrightarrow>
      require_outputs_before t (rec_run_id run) (result_outcome result) (of_int (log_length t1)) = Ok ()"
  shows "tools_change (rec_run_id run) t1 t2 \<and> tool_checks se session t2 (rec_run_id run) e \<and>
    ((\<exists>result. record = AppendResult result) \<longrightarrow> tb_tools t2 = tb_tools t1)"
proof (cases "record")
  case (AppendProviderBinding b)
  then show ?thesis using run e by (auto simp: record_effect_def sql_Ok tool_checks_def tools_change_same)
next
  case (AppendRuntime env)
  then show ?thesis using append_runtime_tools [OF a _ _ r] run e by (simp add: record_effect_def)
next
  case (AppendToolResult request call out b)
  then have "append_tool_result se session run (log_length t1) request call out b t1 = (Ok run', t2)" using run by (simp add: record_effect_def)
  from append_tool_result_change [OF this r a(3)] show ?thesis
    using e AppendToolResult appended_sequence [OF a(1)] by (simp add: tool_checks_def)
next
  case (AppendResult result)
  then have "append_result se session run (log_length t1) result t1 = (Ok run', t2)" using run by (simp add: record_effect_def)
  from append_result_tools [OF a(1,2,4) _ this closed] show ?thesis using AppendResult e by (simp add: tools_change_same)
qed

end
