(* ===== verification/Repair_Steps.thy ===== *)
theory Repair_Steps
  imports Repair_Tools
begin

text \<open>
  Appending keeps every run replayable.  \<open>replayed\<close> says that the rows of a run replay to the run its row reads as;
  \<open>batch_agrees\<close> that the state of a batch is the state of the replay.  Each record, acceptance, selection, interruption and
  rename keeps \<open>all_replay\<close>, so it holds in every reachable store.
\<close>

lemma observe_result [simp]: "Correlation_observe t c (run\<lparr>rec_result := x\<rparr>) e n = Correlation_observe t c run e n"
proof -
  have f: "rec_run_id (run\<lparr>rec_result := x\<rparr>) = rec_run_id run" "rec_last_runtime_sequence (run\<lparr>rec_result := x\<rparr>) = rec_last_runtime_sequence run"
    "rec_state (run\<lparr>rec_result := x\<rparr>) = rec_state run" "rec_input (run\<lparr>rec_result := x\<rparr>) = rec_input run" by simp_all
  show ?thesis unfolding Correlation_observe_def observe_in_turn_def f ..
qed

lemma row_event_fields [simp]:
  "sv_payload (row_event session run row) = ev_payload_json row" "sv_sequence (row_event session run row) = of_int (ev_sequence row)"
  by (simp_all add: row_event_def stored_event_def)

lemma replay_runtime_row:
  assumes st: "rp_replay st = run\<lparr>rec_result := None\<rparr>" "rp_after st \<noteq> 0" "rec_terminal run = None"
    and row: "ev_payload_json row = RuntimeObserved e" "sint (of_int (ev_sequence row) :: u64) = n"
    and unbound: "rp_selection_seen st \<and> \<not> rp_binding_seen st \<longrightarrow> validate_unbound_runtime e = Ok ()"
    and o: "Correlation_observe t (rp_correlation st) run e n = Ok c"
  shows "replay_row session run_id t row st = Some (st\<lparr>rp_replay := (closing (row_event session run_id row) (runtime_run run e))\<lparr>rec_result := None\<rparr>,
    rp_correlation := c, rp_after := ev_sequence row\<rparr>)"
proof -
  have "active (rec_state run)" using observe_Ok(1) [OF o] by (simp split: if_splits)
  then show ?thesis using assms
    by (cases "re_event e") (auto simp: replay_row_def replay_event_def replay_runtime_def runtime_run_def closing_def)
qed

lemma replay_result_row:
  assumes st: "rp_replay st = run\<lparr>rec_result := None\<rparr>" "rp_after st \<noteq> 0" "active (rec_state run) \<Longrightarrow> rec_terminal run = None"
    and row: "ev_payload_json row = RunResultRecorded result" "ev_sequence row = n"
    and unbound: "rp_selection_seen st \<and> \<not> rp_binding_seen st \<longrightarrow> validate_unbound_result result = Ok ()"
    and run: "append_result se session run n result t1 = (Ok run', t2)" "rec_state run \<noteq> StateInterrupted"
    and terminal: "\<And>x. rec_terminal run = Some x \<Longrightarrow> history_event se session t1 (sv_sequence x) = Ok x"
  shows "replay_row session run_id t row st = Some (st\<lparr>rp_replay := (closing (row_event session run_id row) run')\<lparr>rec_result := None\<rparr>, rp_after := n\<rparr>)"
proof (cases "active (rec_state run)")
  case True
  then show ?thesis using assms(1-7) append_result_run(1,2) [OF run(1)] run(2)
    by (auto simp: replay_row_def replay_event_def replay_result_def Let_def closing_def)
next
  case False
  from append_result_run(3) [OF run(1) False] obtain x y where x: "rec_terminal run = Some x" "history_event se session t1 (sv_sequence x) = Ok y"
    "terminal_outcome y = Some (result_outcome result, result_session_id result)" and run': "run' = run\<lparr>rec_result_sequence := Some (of_int n)\<rparr>" by blast
  have "y = x" using terminal [OF x(1)] x(2) by simp
  then show ?thesis using False x run' st(1,2) row unbound append_result_run(1) [OF run(1)] run(2)
    by (auto simp: replay_row_def replay_event_def replay_result_def Let_def closing_def)
qed

lemma replay_binding_row:
  assumes st: "rp_replay st = run\<lparr>rec_result := None\<rparr>" "rp_after st \<noteq> 0" and row: "ev_payload_json row = RunProviderBound b"
    and b: "rp_selection_seen st" "\<not> rp_binding_seen st" "rec_state run = StateRunning"
  shows "replay_row session run_id t row st = Some (st\<lparr>
    rp_replay := (closing e (run\<lparr>rec_provider_session_id := Some (bind_provider_session_id b)\<rparr>))\<lparr>rec_result := None\<rparr>,
    rp_correlation := (rp_correlation st)\<lparr>co_session := Some (bind_provider_session_id b)\<rparr>, rp_binding_seen := True, rp_after := ev_sequence row\<rparr>)"
  using assms by (simp add: replay_row_def replay_event_def closing_def)

lemma replay_tool_row:
  assumes st: "rp_replay st = run\<lparr>rec_result := None\<rparr>" "rp_after st \<noteq> 0" and row: "ev_payload_json row = ToolResultRecorded p"
    and b: "rp_selection_seen st \<longrightarrow> rp_binding_seen st" "rec_state run = StateRunning"
  shows "replay_row session run_id t row st = Some (st\<lparr>rp_replay := (closing e run)\<lparr>rec_result := None\<rparr>, rp_after := ev_sequence row\<rparr>)"
  using assms by (simp add: replay_row_def replay_event_def closing_def)

section \<open>A run whose replay agrees with its row\<close>

definition replayed :: "('u, 'd) store_env \<Rightarrow> str \<Rightarrow> 'd tables \<Rightarrow> RecordedRun \<Rightarrow> repair_state \<Rightarrow> bool" where
  "replayed se session t run st \<longleftrightarrow>
     (let run_id = rec_run_id run; rows = rows_of t run_id in
      rows \<noteq> [] \<and> replay_rows session run_id t rows (repair_start run) = Some st \<and> rp_replay st = run\<lparr>rec_result := None\<rparr> \<and>
      (\<forall>row \<in> set rows. tool_checks se session t run_id (row_event session run_id row)) \<and>
      (\<forall>row \<in> set rows. \<forall>b. ev_payload_json row = RunProviderBound b \<longrightarrow> bind_run_id b = run_id \<and> binding_matches_input b (rec_input run)))"

lemma rows_in_order:
  assumes "log_ok se session t"
  shows "in_order (filter P (tb_events t))"
proof -
  have "ev_sequence row < 2 ^ 63 \<and> 0 < ev_sequence row" if "row \<in> set (tb_events t)" for row
    using log_member [OF assms that] assms by (simp add: log_ok_def)
  moreover have "sorted_wrt (<) (map ev_sequence (filter P (tb_events t)))"
    using log_strict [OF assms] by (simp add: sorted_wrt_map sorted_wrt_filter)
  ultimately show ?thesis by (simp add: in_order_def)
qed

lemma replayed_after: "replayed se session t run st \<Longrightarrow> log_ok se session t \<Longrightarrow> rp_after st \<noteq> 0"
  using replay_after [of session "rec_run_id run" t "rows_of t (rec_run_id run)" run st] rows_in_order [of se session t "\<lambda>r. ev_run_id r = Some (rec_run_id run)"]
  unfolding replayed_def Let_def in_order_def by (metis last_in_set less_irrefl)

lemma run_row_id: "run_row t run = Some row \<Longrightarrow> rn_run_id row = run"
  by (auto simp: run_row_def find_Some_iff)

lemma append_record_effect:
  assumes t: "store_reads se session t" "tracks se session t run"
    and e: "event_ok se (log_length t + 1) fresh timestamp (rec_run_id run) (record_payload record)"
    and run: "append_record se session run (log_length t + 1) fresh timestamp record t = (Ok run'', t'')"
  obtains t1 run' t2 where
    "appended se session t (stored_event session (log_length t + 1) fresh timestamp (rec_run_id run) (record_payload record)) t1"
    "schema_ok t1" "tb_tools t1 = tb_tools t" "record_effect se session run (log_length t1) record t1 = (Ok run', t2)" "tools_read se session t2"
    "run'' = closing (stored_event session (log_length t + 1) fresh timestamp (rec_run_id run) (record_payload record)) run'"
    "tb_tools t'' = tb_tools t2" "tb_events t'' = tb_events t1" "tb_events t2 = tb_events t1" "\<And>other. other \<noteq> rec_run_id run \<Longrightarrow> run_row t'' other = run_row t other"
    "rec_state run \<noteq> StateInterrupted" "active (rec_state run) \<or> (\<exists>result. record = AppendResult result)"
proof -
  let ?e = "stored_event session (log_length t + 1) fresh timestamp (rec_run_id run) (record_payload record)"
  from t(2) obtain row where row: "run_row t (rec_run_id run) = Some row" "reads_as se session t row run" by (auto simp: tracks_def)
  have id: "rn_run_id row = rec_run_id run" using row(1) by (auto simp: run_row_def find_Some_iff)
  obtain t1 run' t2 t3 e' where act: "rec_state run \<noteq> StateInterrupted" "active (rec_state run) \<or> (\<exists>result. record = AppendResult result)"
    and ins: "insert_event (log_length t + 1) fresh timestamp (rec_run_id run) (record_payload record) (record_source record) t = (Ok (), t1)"
    and eff: "record_effect se session run (log_length t + 1) record t1 = (Ok run', t2)"
    and t3: "schema_ok t3" "t3 = t2\<lparr>tb_runs := map (\<lambda>r. if rn_run_id r = rec_run_id run' then settle run' r else r) (tb_runs t2)\<rparr>"
    and out: "run'' = closing e' run'" "\<not> active (rec_state run') \<and> rec_terminal run' = None \<longrightarrow> history_event se session t3 (of_int (log_length t + 1)) = Ok e'"
      "same_records t3 t''"
    by (rule append_record_Ok [OF run])
  note t1 = insert_event_Ok [OF ins t(1) e record_columns]
  have len: "log_length t1 = log_length t + 1" using t1(3) by (simp add: appended_def)
  have fx: "effect_reads se session ?e row run t1 run' t2"
    by (rule record_effect_reads [OF t1(3) _ _ t1(2) row(2) id _ _ _ act(2) eff [folded len]])
      (use t(1) t1(1) e in \<open>auto simp: stored_event_def store_reads_def event_ok_def dest: runtime_small\<close>)
  then obtain g where g: "\<And>r. rn_run_id (g r) = rn_run_id r"
      "tb_runs t2 = map (\<lambda>r. if rn_run_id r = rec_run_id run then g r else r) (tb_runs t1)"
    and t2: "same_log t1 t2" "tools_read se session t2" "rec_run_id run' = rec_run_id run" by (auto simp: effect_reads_def)
  have ev: "tb_events t3 = tb_events t1" using t2(1) by (simp add: t3(2) same_log_def)
  have cl: "closing e' run' = closing ?e run'"
    using out(2) appended_event [OF t1(3)] history_event_log [OF ev, of se session] by (auto simp: closing_def len)
  have upd: "tb_runs t'' = map (\<lambda>r. if rn_run_id r = rec_run_id run then settle run' (g r) else r) (tb_runs t)"
    using g(2) out(3) by (simp add: same_records_def t3(2) t2(3) t1(1) o_def g(1) if_distrib cong: if_cong)
  have other: "run_row t'' other = run_row t other" if "other \<noteq> rec_run_id run" for other
  proof -
    have "run_row t'' other = map_option (\<lambda>r. if rn_run_id r = rec_run_id run then settle run' (g r) else r) (run_row t other)"
      unfolding run_row_def upd by (rule find_map) (simp add: settle_def g(1))
    then show ?thesis using that by (cases "run_row t other") (auto dest: run_row_id)
  qed
  show thesis
    by (rule that [OF t1(3,2) _ eff [folded len] t2(2) _ _ _ _ other act])
      (use t1(1) t2(1) out(1,3) cl in \<open>simp_all add: same_records_def same_log_def t3(2)\<close>)
qed

lemma binding_unseen:
  assumes log: "log_ok se session t" and r: "replayed se session t run st" and n: "n = log_length t + 1" "n < 2 ^ 63"
    and b: "validate_binding se session t run b (of_int n) = Ok ()"
  shows "rp_selection_seen st" "\<not> rp_binding_seen st"
proof -
  let ?rows = "rows_of t (rec_run_id run)"
  have rr: "replay_rows session (rec_run_id run) t ?rows (repair_start run) = Some st" using r by (simp add: replayed_def Let_def)
  from b have sel: "\<exists>x. history_selection se session t (rec_run_id run) = Ok (Some x)" by (auto simp: validate_binding_def wi_results)
  have "\<exists>row \<in> set ?rows. is_selected row"
  proof (rule ccontr)
    assume "\<not> (\<exists>row \<in> set ?rows. is_selected row)"
    then have "history_selection se session t (rec_run_id run) = Ok None" by (intro history_selection_None log) auto
    with sel show False by simp
  qed
  then show "rp_selection_seen st" using replay_seen [OF rr] by (simp add: list_ex_iff)
  show "\<not> rp_binding_seen st"
  proof
    assume bind: "rp_binding_seen st"
    note ord = rows_in_order [OF log, of "\<lambda>r. ev_run_id r = Some (rec_run_id run)"]
    have "4 \<le> length ?rows" using replay_opens [OF rr] ord bind by (simp add: opens_def)
    then obtain r0 r1 r2 r3 rest where rows: "?rows = r0 # r1 # r2 # r3 # rest"
      by (auto simp: Suc_le_length_iff eval_nat_numeral)
    have "of_int (ev_sequence r0) = rec_accepted_sequence run" using replay_after [OF rr] rows by simp
    then have a: "rec_accepted_sequence run + 1 = of_int (ev_sequence r0 + 1)" by simp
    have seq: "ev_sequence r0 < ev_sequence r1" "ev_sequence r1 < ev_sequence r2" "ev_sequence r1 < ev_sequence r3" "0 < ev_sequence r0"
      using ord unfolding rows in_order_def by simp_all
    have mem: "r2 \<in> set (tb_events t)" "r3 \<in> set (tb_events t)" using arg_cong [OF rows, of set] by auto
    have m: "ev_sequence r2 < n" "ev_sequence r3 < n" using log_member [OF log mem(1)] log_member [OF log mem(2)] n by auto
    have s: "sint (of_int n :: u64) = n" "sint (of_int (ev_sequence r0 + 1) :: u64) = ev_sequence r0 + 1"
      using n m seq by (intro sint_of_i64; simp)+
    let ?P = "\<lambda>r. ev_sequence r > sint (rec_accepted_sequence run + 1) \<and> ev_sequence r < sint (of_int n :: u64)"
    have "run_events t (rec_run_id run) ?P = filter ?P ?rows" unfolding run_events_filter [OF log] filter_filter by simp
    then have "2 \<le> length (run_events t (rec_run_id run) ?P)" using seq m s unfolding rows a by simp
    moreover from b obtain row where "take 2 (run_events t (rec_run_id run) ?P) = [row]"
      by (auto simp: validate_binding_def wi_results Let_def split: list.splits)
    then have "length (take 2 (run_events t (rec_run_id run) ?P)) = 1" by simp
    ultimately show False by simp
  qed
qed

lemma replayed_rows:
  assumes "replayed se session t run st"
  shows "replay_rows session (rec_run_id run) t (rows_of t (rec_run_id run)) (repair_start run) = Some st" "rp_replay st = run\<lparr>rec_result := None\<rparr>"
  using assms by (simp_all add: replayed_def Let_def)

lemma closed_outputs:
  assumes log: "log_ok se session t" and r: "replayed se session t run st" and na: "\<not> active (rec_state run)"
    and x: "rec_terminal run = Some x" "terminal_outcome x = Some (outcome, p)" and n: "log_length t < n" "n < 2 ^ 63"
  shows "require_outputs_before t (rec_run_id run) outcome (of_int n) = Ok ()"
proof -
  obtain row where row: "row \<in> set (rows_of t (rec_run_id run))" "rec_terminal run = Some (row_event session (rec_run_id run) row)"
    using replay_closed [OF replayed_rows(1) [OF r]] na replayed_rows(2) [OF r] by auto
  have x': "x = row_event session (rec_run_id run) row" using x(1) row(2) by simp
  have c: "tool_checks se session t (rec_run_id run) x" using r row(1) unfolding x' by (simp add: replayed_def Let_def)
  have "require_outputs_before t (rec_run_id run) outcome (sv_sequence x) = Ok ()"
    using c x(2) by (auto simp: tool_checks_def terminal_outcome_def split: StoredEventPayload.splits RunEvent.splits)
  moreover have "sint (sv_sequence x) \<le> sint (of_int n :: u64)"
  proof -
    have "1 \<le> ev_sequence row" "ev_sequence row \<le> log_length t" using log_member [OF log] row(1) by auto
    then show ?thesis using n unfolding x' row_event_fields by (subst (1 2) sint_of_i64) auto
  qed
  ultimately show ?thesis unfolding require_outputs_before_Ok by fastforce
qed

lemma rows_of_grown:
  assumes "tb_events t' = tb_events t @ [new_event n fresh timestamp run payload]"
  shows "rows_of t' run = rows_of t run @ [new_event n fresh timestamp run payload]" "other \<noteq> run \<Longrightarrow> rows_of t' other = rows_of t other"
  using assms by (auto simp: new_event_def)

lemma stored_row_event: "row_event session run (new_event n fresh timestamp run payload) = stored_event session n fresh timestamp run payload"
  by (simp add: row_event_def new_event_def)

text \<open>One more row keeps \<open>replayed\<close> when it replays, its checks hold and the earlier checks are kept.\<close>

lemma replayed_snoc:
  assumes r: "replayed se session t run st" and log: "log_ok se session t" "log_ok se session t'" and x: "extends t t'"
    and rows: "rows_of t' (rec_run_id run) = rows_of t (rec_run_id run) @ [row]"
    and st': "replay_row session (rec_run_id run) t' row st = Some st'" "rp_replay st' = run'\<lparr>rec_result := None\<rparr>"
    and same: "rec_run_id run' = rec_run_id run" "repair_start run' = repair_start run" "rec_input run' = rec_input run"
    and tools: "tools_kept t t'" "tools_read se session t'" "tool_checks se session t' (rec_run_id run) (row_event session (rec_run_id run) row)"
    and closed: "\<And>r. \<not> active (rec_state run) \<Longrightarrow> r \<in> set (tb_tools t') \<Longrightarrow> tr_run_id r = rec_run_id run \<Longrightarrow> r \<in> set (tb_tools t)"
    and bind: "\<And>b. ev_payload_json row = RunProviderBound b \<Longrightarrow> bind_run_id b = rec_run_id run \<and> binding_matches_input b (rec_input run)"
  shows "replayed se session t' run' st'"
proof -
  let ?rows = "rows_of t (rec_run_id run)"
  note rr = replayed_rows [OF r]
  have "replay_rows session (rec_run_id run) t' ?rows (repair_start run) = Some st"
    using rr(1) replay_rows_extends [OF log x, of ?rows] by auto
  then have "replay_rows session (rec_run_id run) t' (?rows @ [row]) (repair_start run) = Some st'"
    unfolding replay_rows_snoc using st'(1) by blast
  moreover have "tool_checks se session t' (rec_run_id run) (row_event session (rec_run_id run) old)" if old: "old \<in> set ?rows" for old
  proof (rule tool_checks_kept [OF _ tools(1,2) x])
    show "tool_checks se session t (rec_run_id run) (row_event session (rec_run_id run) old)" using r old by (simp add: replayed_def Let_def)
    fix r assume "is_closing (sv_payload (row_event session (rec_run_id run) old))" "r \<in> set (tb_tools t')" "tr_run_id r = rec_run_id run"
    moreover from this have "\<not> active (rec_state run)" using replay_closed [OF rr(1)] rr(2) old by (auto split: if_splits)
    ultimately show "r \<in> set (tb_tools t)" using closed by blast
  qed
  ultimately show ?thesis using r st'(2) same tools(3) bind unfolding replayed_def Let_def same(1) rows by auto
qed

text \<open>The replay of a run another run's record was appended to.\<close>

lemma replayed_other:
  assumes r: "replayed se session t run st" and log: "log_ok se session t" "log_ok se session t'" and x: "extends t t'"
    and rows: "rows_of t' (rec_run_id run) = rows_of t (rec_run_id run)"
    and tools: "tools_kept t t'" "tools_read se session t'" "\<And>r. r \<in> set (tb_tools t') \<Longrightarrow> tr_run_id r = rec_run_id run \<Longrightarrow> r \<in> set (tb_tools t)"
  shows "replayed se session t' run st"
proof -
  let ?rows = "rows_of t (rec_run_id run)"
  have "replay_rows session (rec_run_id run) t' ?rows (repair_start run) = Some st"
    using replayed_rows(1) [OF r] replay_rows_extends [OF log x, of ?rows] by auto
  moreover have "tool_checks se session t' (rec_run_id run) (row_event session (rec_run_id run) old)" if old: "old \<in> set ?rows" for old
    by (rule tool_checks_kept [OF _ tools(1,2) x]) (use r old tools(3) in \<open>auto simp: replayed_def Let_def\<close>)
  ultimately show ?thesis using r unfolding replayed_def Let_def rows by auto
qed

text \<open>The state of a batch agrees with the replay.\<close>

definition batch_agrees :: "RecordedRun \<Rightarrow> Correlation \<Rightarrow> bool \<Rightarrow> repair_state \<Rightarrow> bool" where
  "batch_agrees run correlation unbound st \<longleftrightarrow>
     (active (rec_state run) \<longrightarrow> correlation = rp_correlation st) \<and> unbound = (rp_selection_seen st \<and> \<not> rp_binding_seen st)"

lemma tracks_active: "tracks se session t run \<Longrightarrow> active (rec_state run) \<Longrightarrow> rec_terminal run = None"
  by (auto simp: tracks_def reads_as_def dest: active_reads(3))

lemma tracks_terminal:
  assumes "tracks se session t run" "log_ok se session t" "rec_terminal run = Some x"
  shows "history_event se session t (sv_sequence x) = Ok x"
  using assms terminal_event by (auto simp: tracks_def)

lemma check_binding_Ok:
  "check_binding se session run n (AppendProviderBinding b) t = (Ok u, t') \<Longrightarrow>
     rec_state run = StateRunning \<and> validate_binding se session t run b (of_int n) = Ok ()"
  by (auto simp: check_binding_def sql_Ok)

lemma append_record_binding:
  assumes "append_record se session run n fresh timestamp (AppendProviderBinding b) t = (Ok run', t')"
  shows "rec_state run = StateRunning" "validate_binding se session t run b (of_int n) = Ok ()"
proof -
  from assms obtain u t1 where "check_binding se session run n (AppendProviderBinding b) t = (Ok u, t1)"
    unfolding append_record_def by (auto simp: then_do_Ok)
  from check_binding_Ok [OF this] show "rec_state run = StateRunning" "validate_binding se session t run b (of_int n) = Ok ()" by simp_all
qed

lemma same_start:
  "repair_start (closing e run) = repair_start run" "repair_start (runtime_run run env) = repair_start run"
  "repair_start (run\<lparr>rec_state := s\<rparr>) = repair_start run" "repair_start (run\<lparr>rec_provider_session_id := p\<rparr>) = repair_start run"
  "repair_start (run\<lparr>rec_result_sequence := n\<rparr>) = repair_start run"
  "rec_input (closing e run) = rec_input run" "rec_input (runtime_run run env) = rec_input run"
  by (auto simp: closing_def runtime_run_def repair_start_def split: RunEvent.splits)

lemma record_effect_same:
  assumes "record_effect se session run n record t = (Ok run', t')"
  shows "repair_start run' = repair_start run" "rec_input run' = rec_input run" "rec_run_id run' = rec_run_id run"
proof -
  show "repair_start run' = repair_start run"
  proof (cases "record")
    case (AppendProviderBinding b)
    then show ?thesis using assms by (auto simp: record_effect_def sql_Ok same_start)
  next
    case (AppendRuntime env)
    then show ?thesis using assms append_runtime_run by (fastforce simp: record_effect_def same_start)
  next
    case (AppendToolResult request call out b)
    then show ?thesis using assms by (auto simp: record_effect_def append_tool_result_def sql_Ok)
  next
    case (AppendResult result)
    then show ?thesis using assms append_result_run(2,3) [of se session run n result t run' t']
      by (cases "active (rec_state run)") (auto simp: record_effect_def same_start)
  qed
  then show "rec_input run' = rec_input run" "rec_run_id run' = rec_run_id run" by (simp_all add: repair_start_def)
qed

lemma replay_appended_row:
  fixes t t' :: "'d tables"
  assumes t: "log_ok se session t" "tracks se session t run" "replayed se session t run st" "batch_agrees run correlation unbound st"
    and a: "appended se session t e t1" and ev: "tb_events t' = tb_events t1"
    and row: "ev_payload_json row = record_payload record" "ev_sequence row = log_length t1" and e: "e = row_event session (rec_run_id run) row"
    and eff: "record_effect se session run (log_length t1) record t1 = (Ok run', t2)" "rec_state run \<noteq> StateInterrupted"
      "active (rec_state run) \<or> (\<exists>result. record = AppendResult result)"
    and u: "unbound \<longrightarrow> check_unbound record = Ok ()"
    and bind: "\<And>b. record = AppendProviderBinding b \<Longrightarrow> rec_state run = StateRunning \<and> validate_binding se session t run b (of_int (log_length t + 1)) = Ok ()"
    and c: "case record of
        AppendRuntime event \<Rightarrow> Correlation_observe t correlation run event (log_length t1) = Ok correlation' \<and> unbound' = unbound
      | AppendProviderBinding binding \<Rightarrow> correlation' = correlation\<lparr>co_session := Some (bind_provider_session_id binding)\<rparr> \<and> \<not> unbound'
      | _ \<Rightarrow> correlation' = correlation \<and> unbound' = unbound"
  shows "\<exists>st'. replay_row session (rec_run_id run) t' row st = Some st' \<and> rp_replay st' = (closing e run')\<lparr>rec_result := None\<rparr> \<and>
    batch_agrees (closing e run') correlation' unbound' st'"
proof -
  have log1: "log_ok se session t1" "log_length t1 = log_length t + 1" "log_length t1 < 2 ^ 63" "extends t t1"
    using a by (auto simp: appended_def log_ok_def)
  have log': "log_ok se session t'" "extends t t'" using log1(1,4) ev by (simp_all add: log_ok_def extends_def)
  have n: "sint (of_int (ev_sequence row) :: u64) = log_length t1" unfolding row(2) by (rule sint_log [OF a])
  note st = replayed_rows(2) [OF t(3)] replayed_after [OF t(3,1)]
  show ?thesis
  proof (cases "record")
    case (AppendProviderBinding b)
    have s: "rp_selection_seen st" "\<not> rp_binding_seen st" "rec_state run = StateRunning"
      using binding_unseen [OF t(1,3) refl _ conjunct2 [OF bind [OF AppendProviderBinding]]] bind [OF AppendProviderBinding] log1 by auto
    have "run' = run\<lparr>rec_provider_session_id := Some (bind_provider_session_id b)\<rparr>"
      using eff(1) AppendProviderBinding by (auto simp: record_effect_def sql_Ok)
    then show ?thesis using replay_binding_row [OF st _ s, of row b session "rec_run_id run" t' e] row(1) AppendProviderBinding t(4) c s(3)
      by (simp add: batch_agrees_def)
  next
    case (AppendRuntime env)
    have act: "active (rec_state run)" using eff(3) AppendRuntime by auto
    have "Correlation_observe t' (rp_correlation st) run env (log_length t1) = Ok correlation'"
      using c AppendRuntime t(4) act observe_extends [OF t(1) log', of "log_length t1"] log1(2) by (simp add: batch_agrees_def)
    moreover have "run' = runtime_run run env" using eff(1) AppendRuntime append_runtime_run by (auto simp: record_effect_def)
    moreover have "rp_selection_seen st \<and> \<not> rp_binding_seen st \<longrightarrow> validate_unbound_runtime env = Ok ()"
      using u t(4) AppendRuntime by (simp add: batch_agrees_def check_unbound_def)
    ultimately show ?thesis
      using replay_runtime_row [OF st tracks_active [OF t(2) act] _ n, of env t' correlation' session "rec_run_id run"] row(1) AppendRuntime t(4) c e
      by (simp add: batch_agrees_def)
  next
    case (AppendToolResult request call out b)
    have s: "rec_state run = StateRunning" "run' = run" using eff(1) AppendToolResult by (auto simp: record_effect_def append_tool_result_def sql_Ok)
    have "rp_selection_seen st \<longrightarrow> rp_binding_seen st" using u t(4) AppendToolResult by (auto simp: batch_agrees_def check_unbound_def)
    from replay_tool_row [OF st _ this s(1), of row _ session "rec_run_id run" t' e] show ?thesis
      using row(1) AppendToolResult t(4) c s by (simp add: batch_agrees_def closing_def)
  next
    case (AppendResult result)
    have run: "append_result se session run (log_length t1) result t1 = (Ok run', t2)" using eff(1) AppendResult by (simp add: record_effect_def)
    have "rp_selection_seen st \<and> \<not> rp_binding_seen st \<longrightarrow> validate_unbound_result result = Ok ()"
      using u t(4) AppendResult by (simp add: batch_agrees_def check_unbound_def)
    moreover have "history_event se session t1 (sv_sequence x) = Ok x" if "rec_terminal run = Some x" for x
      by (rule history_event_kept [OF tracks_terminal [OF t(2,1) that] log1(4)])
    ultimately have "replay_row session (rec_run_id run) t' row st = Some (st\<lparr>rp_replay := (closing e run')\<lparr>rec_result := None\<rparr>, rp_after := log_length t1\<rparr>)"
      unfolding e using row AppendResult tracks_active [OF t(2)] by (intro replay_result_row [OF st _ _ _ _ run eff(2)]) auto
    moreover have "\<not> active (rec_state run')" using append_result_run(2,3) [OF run] by (cases "active (rec_state run)") auto
    ultimately show ?thesis using AppendResult t(4) c by (simp add: batch_agrees_def closing_def)
  qed
qed

definition others_replay :: "('u, 'd) store_env \<Rightarrow> str \<Rightarrow> 'd tables \<Rightarrow> str \<Rightarrow> bool" where
  "others_replay se session t run \<longleftrightarrow>
     (\<forall>other row. other \<noteq> run \<longrightarrow> run_row t other = Some row \<longrightarrow> (\<exists>r st. run_of_row se session t row = Ok r \<and> replayed se session t r st))"

lemma run_of_row_kept: "run_of_row se session t row = Ok r \<Longrightarrow> extends t t' \<Longrightarrow> run_of_row se session t' row = Ok r"
  using run_of_row_extends [of t t' se session row] by (simp add: ok_le_def)

lemma run_of_row_id: "run_of_row se session t row = Ok r \<Longrightarrow> rec_run_id r = rn_run_id row"
  by (auto elim: run_of_row_OkE)

lemma others_replay_kept:
  assumes o: "others_replay se session t run" and log: "log_ok se session t" "log_ok se session t'" and x: "extends t t'"
    and rows: "\<And>other. other \<noteq> run \<Longrightarrow> rows_of t' other = rows_of t other" and runs: "\<And>other. other \<noteq> run \<Longrightarrow> run_row t' other = run_row t other"
    and tools: "tools_change run t t'" "tools_read se session t'"
  shows "others_replay se session t' run"
  unfolding others_replay_def
proof (intro allI impI)
  fix other row
  assume "other \<noteq> run" "run_row t' other = Some row"
  moreover from this have "run_row t other = Some row" using runs by simp
  ultimately obtain r st where r: "run_of_row se session t row = Ok r" "replayed se session t r st" using o unfolding others_replay_def by blast
  have "rec_run_id r \<noteq> run" using run_of_row_id [OF r(1)] run_row_id [OF \<open>run_row t other = Some row\<close>] \<open>other \<noteq> run\<close> by simp
  then have "replayed se session t' r st"
    using tools rows by (intro replayed_other [OF r(2) log x]) (auto simp: tools_change_def)
  then show "\<exists>r st. run_of_row se session t' row = Ok r \<and> replayed se session t' r st" using run_of_row_kept [OF r(1) x] by blast
qed

lemma append_step_replays:
  assumes t: "store_reads se session t" "tracks se session t run" "replayed se session t run st" "batch_agrees run correlation unbound st"
    and ok: "ids_ok se fresh" "0 \<le> timestamp" "parse_run_id (se_uuid se) (rec_run_id run) = Ok (rec_run_id run)" "log_length t + 1 < 2 ^ 63"
    and v: "AppendRunRecord_validate (se_uuid se) record = Ok ()" "record_typed se record"
    and run: "append_step se session (log_length t + 1) (fresh (log_length t + 1)) timestamp record (run, correlation, unbound) t
      = (Ok (run'', correlation', unbound'), t'')"
  shows "\<exists>st'. replayed se session t'' run'' st' \<and> batch_agrees run'' correlation' unbound' st'"
    "others_replay se session t (rec_run_id run) \<Longrightarrow> others_replay se session t'' (rec_run_id run)"
proof -
  let ?n = "log_length t + 1"
  let ?e = "stored_event session ?n (fresh ?n) timestamp (rec_run_id run) (record_payload record)"
  let ?row = "new_event ?n (fresh ?n) timestamp (rec_run_id run) (record_payload record)"
  note step = append_step_Ok [OF run] and keeps = append_step_keeps [OF t(1,2) ok v run]
  have log: "log_ok se session t" "log_ok se session t''" "schema_ok t" using t(1) keeps(1) by (simp_all add: store_reads_def)
  have tr: "tools_read se session t''" using keeps(1) by (simp add: store_reads_def)
  have ev: "tb_events t'' = tb_events t @ [?row]" using keeps(4) by (simp add: grown_def)
  then have x: "extends t t''" by (auto simp: extends_def)
  have "payload_ok se ?n (rec_run_id run) (record_payload record)"
    using step(3) by (intro append_record_payload [OF step(1) v]) (auto dest: observe_same_run)
  then have e: "event_ok se ?n (fresh ?n) timestamp (rec_run_id run) (record_payload record)" using ok by (simp add: event_ok_def ids_ok_def)
  obtain t1 run' t2 where a: "appended se session t ?e t1" and s1: "schema_ok t1" "tb_tools t1 = tb_tools t"
    and eff: "record_effect se session run (log_length t1) record t1 = (Ok run', t2)" and tr2: "tools_read se session t2"
    and out: "run'' = closing ?e run'" "tb_tools t'' = tb_tools t2" "tb_events t'' = tb_events t1" "tb_events t2 = tb_events t1"
      "\<And>other. other \<noteq> rec_run_id run \<Longrightarrow> run_row t'' other = run_row t other"
    and act: "rec_state run \<noteq> StateInterrupted" "active (rec_state run) \<or> (\<exists>result. record = AppendResult result)"
    by (rule append_record_effect [OF t(1,2) e step(1)]) blast
  have len: "log_length t1 = ?n" using a by (simp add: appended_def)
  have closed: "require_outputs_before t (rec_run_id run) (result_outcome result) (of_int (log_length t1)) = Ok ()"
    if r: "record = AppendResult result" and na: "\<not> active (rec_state run)" for result
  proof -
    have "append_result se session run (log_length t1) result t1 = (Ok run', t2)" using eff r by (simp add: record_effect_def)
    from append_result_run(3) [OF this na] obtain x y where x: "rec_terminal run = Some x" "history_event se session t1 (sv_sequence x) = Ok y"
      "terminal_outcome y = Some (result_outcome result, result_session_id result)" by blast
    have "history_event se session t1 (sv_sequence x) = Ok x"
      by (rule history_event_kept [OF tracks_terminal [OF t(2) log(1) x(1)]]) (use a in \<open>simp add: appended_def\<close>)
    then have "terminal_outcome x = Some (result_outcome result, result_session_id result)" using x by simp
    then show ?thesis by (rule closed_outputs [OF log(1) t(3) na x(1)]) (use len ok(4) in linarith)+
  qed
  have fx: "tools_change (rec_run_id run) t1 t2" "tool_checks se session t2 (rec_run_id run) ?e"
    "(\<exists>result. record = AppendResult result) \<longrightarrow> tb_tools t2 = tb_tools t1"
    using record_effect_tools [OF a log(3) s1 _ eff tr2 closed] by (simp_all add: stored_event_def)
  have tools: "tools_change (rec_run_id run) t t''" using fx(1) s1(2) out(2) by (simp add: tools_change_def tools_kept_def tool_row_def)
  have checks: "tool_checks se session t'' (rec_run_id run) ?e"
    by (rule tool_checks_kept [OF fx(2) tools_kept_same tr]) (use out in \<open>simp_all add: extends_def\<close>)
  have bind: "rec_state run = StateRunning \<and> validate_binding se session t run b (of_int ?n) = Ok ()" if "record = AppendProviderBinding b" for b
    using append_record_binding step(1) that by blast
  have er: "?e = row_event session (rec_run_id run) ?row" by (simp add: stored_row_event)
  have "\<exists>st'. replay_row session (rec_run_id run) t'' ?row st = Some st' \<and> rp_replay st' = (closing ?e run')\<lparr>rec_result := None\<rparr> \<and>
    batch_agrees (closing ?e run') correlation' unbound' st'"
    by (rule replay_appended_row [OF log(1) t(2-4) a out(3) _ _ er eff act step(2) bind step(3) [folded len]]) (simp_all add: new_event_def len)
  then obtain st' where st': "replay_row session (rec_run_id run) t'' ?row st = Some st'" "rp_replay st' = (closing ?e run')\<lparr>rec_result := None\<rparr>"
    "batch_agrees (closing ?e run') correlation' unbound' st'" by blast
  have bound: "bind_run_id b = rec_run_id run \<and> binding_matches_input b (rec_input run)" if "ev_payload_json ?row = RunProviderBound b" for b
  proof -
    have "record = AppendProviderBinding b" using that by (cases "record") (simp_all add: new_event_def)
    then show ?thesis using bind by (auto simp: validate_binding_def wi_results)
  qed
  have "replayed se session t'' run'' st'"
  proof (rule replayed_snoc [OF t(3) log(1,2) x rows_of_grown(1) [OF ev] st'(1)])
    show "rp_replay st' = run''\<lparr>rec_result := None\<rparr>" using st'(2) out(1) by simp
    show "rec_run_id run'' = rec_run_id run" by (rule keeps(3))
    show "repair_start run'' = repair_start run" "rec_input run'' = rec_input run"
      using record_effect_same [OF eff] by (simp_all add: out(1) same_start)
    show "tools_kept t t''" using tools by (simp add: tools_change_def)
    show "tool_checks se session t'' (rec_run_id run) (row_event session (rec_run_id run) ?row)" using checks by (simp add: stored_row_event)
    show "r \<in> set (tb_tools t)" if "\<not> active (rec_state run)" "r \<in> set (tb_tools t'')" for r
      using that fx(3) act(2) out(2) s1(2) by auto
  qed (use tr bound in auto)
  then show "\<exists>st'. replayed se session t'' run'' st' \<and> batch_agrees run'' correlation' unbound' st'" using st'(3) out(1) by blast
  show "others_replay se session t (rec_run_id run) \<Longrightarrow> others_replay se session t'' (rec_run_id run)"
    by (rule others_replay_kept [OF _ log(1,2) x rows_of_grown(2) [OF ev] out(5) tools tr])
qed

lemma append_records_replays:
  assumes "store_reads se session t" "tracks se session t run" "replayed se session t run st" "batch_agrees run correlation unbound st"
    and "others_replay se session t (rec_run_id run)"
    and "ids_ok se fresh" "0 \<le> timestamp" "parse_run_id (se_uuid se) (rec_run_id run) = Ok (rec_run_id run)"
    and "log_length t + int (length records) < 2 ^ 63"
    and "\<And>record. record \<in> set records \<Longrightarrow> AppendRunRecord_validate (se_uuid se) record = Ok () \<and> record_typed se record"
    and "append_records se session (log_length t + 1) fresh timestamp records (run, correlation, unbound) t
      = (Ok (run', correlation', unbound'), t')"
  shows "(\<exists>st'. replayed se session t' run' st') \<and> others_replay se session t' (rec_run_id run)"
  using assms
proof (induction records arbitrary: t run correlation unbound st)
  case Nil
  then show ?case by (auto simp: prog_Ok)
next
  case (Cons r records)
  obtain run1 c1 u1 t1 where step: "append_step se session (log_length t + 1) (fresh (log_length t + 1)) timestamp r
        (run, correlation, unbound) t = (Ok (run1, c1, u1), t1)"
    and rest: "append_records se session (log_length t + 1 + 1) fresh timestamp records (run1, c1, u1) t1
        = (Ok (run', correlation', unbound'), t')"
    using Cons.prems(11) by (auto simp: prog_Ok)
  have v: "AppendRunRecord_validate (se_uuid se) r = Ok ()" "record_typed se r" "log_length t + 1 < 2 ^ 63"
    using Cons.prems(9,10) by auto
  note first = append_step_keeps [OF Cons.prems(1,2,6-8) v(3,1,2) step]
  have len: "log_length t1 = log_length t + 1" using grown_length [OF first(4)] by simp
  obtain st1 where st1: "replayed se session t1 run1 st1" "batch_agrees run1 c1 u1 st1"
    using append_step_replays(1) [OF Cons.prems(1-4,6-8) v(3,1,2) step] by blast
  have o: "others_replay se session t1 (rec_run_id run)" by (rule append_step_replays(2) [OF Cons.prems(1-4,6-8) v(3,1,2) step Cons.prems(5)])
  show ?case
    using Cons.IH [OF first(1,2) st1 _ Cons.prems(6,7)] o Cons.prems(8-10) first(3) rest len by auto
qed

section \<open>Every run replays\<close>

definition all_replay :: "('u, 'd) store_env \<Rightarrow> str \<Rightarrow> 'd tables \<Rightarrow> bool" where
  "all_replay se session t \<longleftrightarrow>
     (\<forall>run row. run_row t run = Some row \<longrightarrow> (\<exists>r st. run_of_row se session t row = Ok r \<and> replayed se session t r st)) \<and>
     (\<forall>e \<in> set (tb_events t). \<forall>run. ev_run_id e = Some run \<longrightarrow> run_row t run \<noteq> None)"

lemma all_replay_others: "all_replay se session t \<Longrightarrow> others_replay se session t run"
  unfolding all_replay_def others_replay_def by blast

lemma all_replayI:
  assumes "others_replay se session t run" "run_row t run = Some row" "run_of_row se session t row = Ok r" "replayed se session t r st"
    and "\<And>e run'. e \<in> set (tb_events t) \<Longrightarrow> ev_run_id e = Some run' \<Longrightarrow> run_row t run' \<noteq> None"
  shows "all_replay se session t"
  unfolding all_replay_def
proof (intro conjI allI impI ballI)
  fix run' row'
  assume "run_row t run' = Some row'"
  then show "\<exists>r st. run_of_row se session t row' = Ok r \<and> replayed se session t r st"
    using assms(1-4) unfolding others_replay_def by (cases "run' = run") auto
qed (use assms(5) in blast)

lemma replayed_result:
  assumes "replayed se session t (r\<lparr>rec_result := x\<rparr>) st"
  shows "replayed se session t r st"
  using assms by (simp add: replayed_def Let_def repair_start_def)

lemma history_selection_Some_row:
  assumes "log_ok se session t" "history_selection se session t run = Ok (Some x)"
  shows "list_ex is_selected (rows_of t run)"
proof (rule ccontr)
  assume "\<not> list_ex is_selected (rows_of t run)"
  then have "history_selection se session t run = Ok None" by (intro history_selection_None assms(1)) (auto simp: list_ex_iff)
  then show False using assms(2) by simp
qed

lemma metadata_event_None:
  assumes "log_ok se session t" "metadata_event se session t run kind = Ok None" "row \<in> set (rows_of t run)"
  shows "stored_event_type (ev_payload_json row) \<noteq> kind"
proof
  assume k: "stored_event_type (ev_payload_json row) = kind"
  have "ev_event_type row = kind" using row_type [OF assms(1)] assms(3) k by auto
  then have "run_events t run (\<lambda>r. ev_event_type r = kind) \<noteq> []"
    unfolding run_events_filter [OF assms(1)] using assms(3) by (auto simp: filter_empty_conv)
  then show False using assms(2) by (auto simp: metadata_event_def Let_def wi_results split: list.splits)
qed

lemma load_batch_agrees:
  assumes log: "log_ok se session t" and load: "load_batch se session run t = Ok (r, correlation, unbound)"
    and r: "replayed se session t r st" "rec_run_id r = run"
  shows "batch_agrees r correlation unbound st"
proof -
  from load obtain selection where c: "Correlation_load se session t r = Ok correlation" and s: "history_selection se session t run = Ok selection"
    and u: "(if selection \<noteq> None then map_ok (\<lambda>b. b = None) (provider_binding se session t run) else Ok False) = Ok unbound"
    by (auto simp: load_batch_def wi_results)
  note rr = replayed_rows [OF r(1), unfolded r(2)]
  have "follows (rows_of t run) st" using replay_follows [OF rr(1)] envelopes_valid(1) [OF log] by blast
  then have "correlation = rp_correlation st" if "active (rec_state r)" using Correlation_reload [OF log _ rr(2) that] c r(2) by simp
  moreover have sel: "rp_selection_seen st \<longleftrightarrow> selection \<noteq> None"
  proof (cases selection)
    case None
    then have "metadata_event se session t run ''run.history.selected'' = Ok None"
      using s by (auto simp: history_selection_def wi_results Let_def split: option.splits)
    then have "\<not> list_ex is_selected (rows_of t run)" using metadata_event_None [OF log] type_selected unfolding list_ex_iff by metis
    then show ?thesis using None replay_seen [OF rr(1)] by simp
  next
    case (Some x)
    then show ?thesis using history_selection_Some_row [OF log] s replay_seen [OF rr(1)] by simp
  qed
  moreover have "unbound \<longleftrightarrow> \<not> rp_binding_seen st" if "selection \<noteq> None"
  proof -
    from u that obtain b where b: "provider_binding se session t run = Ok b" "unbound \<longleftrightarrow> b = None" by (auto simp: wi_results)
    show ?thesis
    proof (cases b)
      case None
      then have "metadata_event se session t run ''run.provider.bound'' = Ok None"
        using b(1) by (auto simp: provider_binding_def wi_results split: option.splits)
      then have "\<not> list_ex is_bound (rows_of t run)" using metadata_event_None [OF log] type_bound unfolding list_ex_iff by metis
      then show ?thesis using None b(2) replay_seen [OF rr(1)] by simp
    next
      case (Some x)
      then obtain e where "metadata_event se session t run ''run.provider.bound'' = Ok (Some e)"
        using b(1) by (auto simp: provider_binding_def wi_results split: option.splits)
      then have "run_events t run (\<lambda>r. ev_event_type r = ''run.provider.bound'') \<noteq> []" by (auto simp: metadata_event_def wi_results)
      then obtain row where "row \<in> set (rows_of t run)" "ev_event_type row = ''run.provider.bound''"
        unfolding run_events_filter [OF log] by (auto simp: filter_empty_conv)
      then have "list_ex is_bound (rows_of t run)" using row_type [OF log] type_bound by (auto simp: list_ex_iff)
      then show ?thesis using Some b(2) replay_seen [OF rr(1)] by simp
    qed
  qed
  moreover have "selection = None \<Longrightarrow> \<not> unbound" using u by simp
  ultimately show ?thesis by (auto simp: batch_agrees_def)
qed

lemma run_row_kept:
  assumes "runs_kept t t'" "run_row t run \<noteq> None"
  shows "run_row t' run \<noteq> None"
proof -
  obtain row where row: "List.find (\<lambda>r. rn_run_id r = run) (tb_runs t) = Some row" using assms(2) unfolding run_row_def by blast
  obtain rest where rest: "map run_key (tb_runs t') = map run_key (tb_runs t) @ rest" using assms(1) unfolding runs_kept_def by blast
  from find_key [OF row rest [symmetric], of fst] show ?thesis unfolding run_row_def by auto
qed

lemma known_runs:
  assumes all: "all_replay se session t" and k: "runs_kept t t'" and ev: "tb_events t' = tb_events t @ rows"
    and rows: "\<And>row. row \<in> set rows \<Longrightarrow> ev_run_id row = Some run" "run_row t' run \<noteq> None"
    and e: "e \<in> set (tb_events t')" "ev_run_id e = Some run'"
  shows "run_row t' run' \<noteq> None"
proof (cases "e \<in> set (tb_events t)")
  case True
  then have "run_row t run' \<noteq> None" using all e(2) unfolding all_replay_def by blast
  then show ?thesis by (rule run_row_kept [OF k])
next
  case False
  then show ?thesis using rows(1) [of e] rows(2) e ev by auto
qed

lemma run_record_row:
  assumes "run_record se session t run = Ok (Some r)"
  obtains row where "run_row t run = Some row" "run_of_row se session t row = Ok r"
  using assms by (cases "run_row t run") (auto simp: run_record_def wi_results)

lemma accept_run_replays:
  assumes t: "store_reads se session t" "all_replay se session t"
    and e: "event_ok se (log_length t + 1) fresh timestamp run (acceptance run input owner)"
    and run: "accept_run se owner (log_length t + 1) fresh timestamp run input t = (Ok u, t')"
  defines "r \<equiv> accepted_run run (log_length t + 1) input owner"
  shows "replayed se session t' r ((repair_start r)\<lparr>rp_after := log_length t + 1\<rparr>)" "others_replay se session t' run" "runs_kept t t'" "tb_tools t' = tb_tools t"
proof -
  let ?row = "new_event (log_length t + 1) fresh timestamp run (acceptance run input owner)"
  note keeps = accept_run_keeps [OF t(1) e run]
  have log: "log_ok se session t" "log_ok se session t'" and tr: "tools_read se session t'" using t(1) keeps(1) by (simp_all add: store_reads_def)
  have ev: "tb_events t' = tb_events t @ [?row]" using keeps(3) by (simp add: grown_def)
  obtain t1 t2 u1 where none: "run_row t run = None" and ins: "insert_event (log_length t + 1) fresh timestamp run (acceptance run input owner) None t = (Ok u1, t1)"
    and t2: "t2 = t1\<lparr>tb_runs := tb_runs t1 @ [accepted_row run (log_length t + 1) owner]\<rparr>" and same: "same_records t2 t'"
    by (rule accept_run_Ok [OF run])
  have t1: "tb_runs t1 = tb_runs t" "tb_tools t1 = tb_tools t"
    using insert_event_Ok(1) [OF ins t(1) e] by (simp_all add: run_columns)
  have runs: "tb_runs t' = tb_runs t @ [accepted_row run (log_length t + 1) owner]" and tools: "tb_tools t' = tb_tools t"
    using same t1 by (simp_all add: same_records_def t2)
  then show "runs_kept t t'" "tb_tools t' = tb_tools t" by (simp_all add: runs_kept_def)
  have "rows_of t run = []" using t(2) none by (auto simp: all_replay_def filter_empty_conv)
  then have rows: "rows_of t' run = [?row]" using rows_of_grown(1) [OF ev] by simp
  have id: "rec_run_id r = run" by (simp add: r_def accepted_run_def)
  have "ev_payload_json ?row = acceptance run input owner" "ev_sequence ?row = log_length t + 1" by (simp_all add: new_event_def)
  then have "replay_row session run t' ?row (repair_start r) = Some ((repair_start r)\<lparr>rp_after := log_length t + 1\<rparr>)"
    by (simp add: replay_row_def replay_event_def is_accepted_def repair_start_def r_def accepted_run_def)
  then show "replayed se session t' r ((repair_start r)\<lparr>rp_after := log_length t + 1\<rparr>)"
    unfolding replayed_def Let_def id rows by (simp add: repair_start_def r_def accepted_run_def tool_checks_def new_event_def)
  have "run_row t' other = run_row t other" if "other \<noteq> run" for other
    unfolding run_row_def runs using that by (cases "List.find (\<lambda>r. rn_run_id r = other) (tb_runs t)")
      (simp_all add: find_append_Some find_append_None accepted_row_def)
  then show "others_replay se session t' run"
    using rows_of_grown(2) [OF ev] tools tr ev
    by (intro others_replay_kept [OF all_replay_others [OF t(2)] log]) (auto simp: extends_def tools_change_same)
qed

lemma select_history_replays:
  assumes t: "store_reads se session t" "replayed se session t r st" "others_replay se session t run" "rec_run_id r = run"
    and st: "\<not> rp_selection_seen st" "of_int (rp_after st) = rec_accepted_sequence r" "run_record se session t run = Ok (Some r)"
    and e: "event_ok se (log_length t + 1) fresh timestamp run (RunHistorySelected \<lparr>hp_run_id = run, hp_selection = selection\<rparr>)"
    and run: "select_history se (log_length t + 1) fresh timestamp run selection t = (Ok u, t')" and tools: "tb_tools t' = tb_tools t"
  shows "\<exists>st. replayed se session t' r st" "others_replay se session t' run" "run_record se session t' run = Ok (Some r)"
proof -
  let ?row = "new_event (log_length t + 1) fresh timestamp run (RunHistorySelected \<lparr>hp_run_id = run, hp_selection = selection\<rparr>)"
  note keeps = select_history_keeps [OF t(1) e run]
  have log: "log_ok se session t" "log_ok se session t'" and tr: "tools_read se session t'" using t(1) keeps(1) by (simp_all add: store_reads_def)
  have ev: "tb_events t' = tb_events t @ [?row]" using keeps(3) by (simp add: grown_def)
  then have x: "extends t t'" by (auto simp: extends_def)
  let ?st = "st\<lparr>rp_selection_seen := True, rp_after := log_length t + 1\<rparr>"
  have p: "ev_payload_json ?row = RunHistorySelected \<lparr>hp_run_id = run, hp_selection = selection\<rparr>" "ev_sequence ?row = log_length t + 1"
    by (simp_all add: new_event_def)
  have r: "replay_row session (rec_run_id r) t' ?row st = Some ?st"
    using p st replayed_after [OF t(2) log(1)] replayed_rows(2) [OF t(2)] by (simp add: replay_row_def replay_event_def)
  have "replayed se session t' r ?st"
    by (rule replayed_snoc [OF t(2) log x _ r])
      (use rows_of_grown(1) [OF ev] replayed_rows(2) [OF t(2)] tools tr p t(4) in \<open>simp_all add: tools_kept_same tool_checks_def\<close>)
  then show "\<exists>st. replayed se session t' r st" by blast
  show "others_replay se session t' run"
    using rows_of_grown(2) [OF ev] tools tr keeps(2)
    by (intro others_replay_kept [OF t(3) log x]) (auto simp: tools_change_same run_row_def)
  show "run_record se session t' run = Ok (Some r)" by (rule extends_record [OF st(3) x keeps(2)])
qed

lemma select_history_tools:
  assumes "select_history se n fresh timestamp run selection t = (Ok u, t')"
  shows "tb_tools t' = tb_tools t"
proof -
  from assms obtain t1 u1 where t1: "insert_event n fresh timestamp run (RunHistorySelected \<lparr>hp_run_id = run, hp_selection = selection\<rparr>) None t = (Ok u1, t1)"
    and p: "projector_apply se (of_int n) (Some run) ProjectHistorySelected t1 = (Ok u, t')" by (auto simp: select_history_def prog_Ok)
  from t1 have "tb_tools t1 = tb_tools t" by (auto simp: insert_event_def insert_event_row_def execute_Ok)
  then show ?thesis using display.keptD [OF display_projector p] by (simp add: same_records_def)
qed

lemma mutation_effect_replays:
  assumes t: "store_reads se session t" "all_replay se session t" and call: "call_ok se owner now fresh operation run mutation" "now = Ok timestamp"
    and checks: "mutation_checks se session run manifest mutation t = Ok ()" "sm_head_sequence manifest = of_int (log_length t)"
    and range: "0 < mutation_count mutation" "final = log_length t + int (mutation_count mutation)" "final < 2 ^ 63"
    and eff: "mutation_effect se session owner run (log_length t + 1) final fresh timestamp mutation t = (Ok u, t')"
  shows "all_replay se session t'"
proof -
  have c: "ids_ok se fresh" "0 \<le> timestamp" "parse_run_id (se_uuid se) owner = Ok owner" "parse_run_id (se_uuid se) run = Ok run"
      "mutation_typed se mutation"
    using call by (auto simp: call_ok_def)
  have keeps: "store_reads se session t'" "grown t (mutation_rows (log_length t + 1) fresh timestamp run owner mutation) t'"
    using mutation_effect_keeps [OF t(1) call checks range eff] by simp_all
  have k: "runs_kept t t'" by (rule rk.keptD [OF rk_mutation_effect eff])
  have ev: "tb_events t' = tb_events t @ mutation_rows (log_length t + 1) fresh timestamp run owner mutation" using keeps(2) by (simp add: grown_def)
  have rows: "ev_run_id row = Some run" if "row \<in> set (mutation_rows (log_length t + 1) fresh timestamp run owner mutation)" for row
    using mutation_rows_run that unfolding run_rows_def by blast
  have finish: "all_replay se session t'" if r: "run_record se session t' run = Ok (Some r)" "replayed se session t' r st" "others_replay se session t' run" for r st
  proof -
    obtain row where row: "run_row t' run = Some row" "run_of_row se session t' row = Ok r" by (rule run_record_row [OF r(1)])
    show ?thesis by (rule all_replayI [OF r(3) row r(2)]) (use known_runs [OF t(2) k ev rows] row(1) in auto)
  qed
  show ?thesis
  proof (cases mutation)
    case (Accept input)
    have e: "event_ok se (log_length t + 1) (fresh (log_length t + 1)) timestamp run (acceptance run input owner)"
      using c range Accept by (intro accept_event_ok) auto
    have a: "accept_run se owner (log_length t + 1) (fresh (log_length t + 1)) timestamp run input t = (Ok u, t')"
      using eff Accept by (simp add: mutation_effect_def)
    show ?thesis by (rule finish [OF accept_run_keeps(2) [OF t(1) e a] accept_run_replays(1,2) [OF t e a]])
  next
    case (AcceptHistory input selection)
    then have final: "final = log_length t + 2" and through: "sel_through_sequence selection = of_int (log_length t)"
      using range(2) checks by (auto simp: mutation_checks_def wi_results)
    have e: "event_ok se (log_length t + 1) (fresh (log_length t + 1)) timestamp run (acceptance run input owner)"
      using c range AcceptHistory by (intro accept_event_ok) auto
    from eff AcceptHistory obtain u1 t1 where
        acc: "accept_run se owner (log_length t + 1) (fresh (log_length t + 1)) timestamp run input t = (Ok u1, t1)"
      and sel: "select_history se final (fresh final) timestamp run selection t1 = (Ok u, t')"
      by (auto simp: mutation_effect_def prog_Ok)
    note k1 = accept_run_keeps [OF t(1) e acc] and r1 = accept_run_replays [OF t e acc]
    have len: "final = log_length t1 + 1" "log_length t1 = log_length t + 1" using grown_length [OF k1(3)] final by simp_all
    have e2: "event_ok se final (fresh final) timestamp run (RunHistorySelected \<lparr>hp_run_id = run, hp_selection = selection\<rparr>)"
      unfolding final using c AcceptHistory range(3) final through by (intro select_event_ok) auto
    have s: "\<exists>st. replayed se session t' (accepted_run run (log_length t + 1) input owner) st" "others_replay se session t' run"
      "run_record se session t' run = Ok (Some (accepted_run run (log_length t + 1) input owner))"
      by (rule select_history_replays [OF k1(1) r1(1,2) _ _ _ k1(2) e2 [unfolded len(1)] sel [unfolded len(1)] select_history_tools [OF sel]];
          simp add: accepted_run_def repair_start_def)+
    then show ?thesis using finish by blast
  next
    case (Append records)
    from eff Append obtain r correlation unbound st where load: "load_batch se session run t = Ok (r, correlation, unbound)"
      and batch: "append_records se session (log_length t + 1) fresh timestamp records (r, correlation, unbound) t = (Ok st, t')"
      by (auto simp: mutation_effect_def sql_Ok)
    obtain run' c' b' where st: "st = (run', c', b')" by (cases st)
    note tr = load_batch_tracks [OF t(1) load]
    have log: "log_ok se session t" using t(1) by (simp add: store_reads_def)
    have "run_record se session t run = Ok (Some r)" using load by (auto simp: load_batch_def wi_results)
    then obtain row where row: "run_row t run = Some row" "run_of_row se session t row = Ok r" by (rule run_record_row)
    then obtain rs where rs: "replayed se session t r rs" using t(2) unfolding all_replay_def by fastforce
    have valid: "AppendRunRecord_validate (se_uuid se) r = Ok () \<and> record_typed se r" if "r \<in> set records" for r
      using that c(5) Append append_validated [OF checks(1) [unfolded Append] that] by (auto simp: list_all_iff)
    have len: "log_length t + int (length records) < 2 ^ 63" using range Append by simp
    note all = all_replay_others [OF t(2)]
    have out: "(\<exists>st. replayed se session t' run' st) \<and> others_replay se session t' (rec_run_id r)"
      by (rule append_records_replays [OF t(1) tr(1) rs load_batch_agrees [OF log load rs tr(2)] all c(1,2) _ len valid batch [unfolded st]])
        (simp add: tr(2) c(4))
    have "tracks se session t' run' \<and> rec_run_id run' = rec_run_id r"
      using append_records_keeps [OF t(1) tr(1) c(1,2) _ len valid batch [unfolded st]] c(4) tr(2) by simp
    then obtain row' r' x where row': "run_row t' run = Some row'" "run_of_row se session t' row' = Ok r'" "run' = r'\<lparr>rec_result := x\<rparr>"
      unfolding tracks_def reads_as_def using tr(2) by auto
    then have "run_record se session t' run = Ok (Some r')" by (simp add: run_record_def)
    then show ?thesis using finish out replayed_result row'(3) tr(2) by blast
  qed
qed

lemma all_replay_extends:
  assumes all: "all_replay se session t" and log: "log_ok se session t" "log_ok se session t'" and tr: "tools_read se session t'"
    and ev: "tb_events t' = tb_events t @ rows" "\<And>row. row \<in> set rows \<Longrightarrow> ev_run_id row = None"
    and same: "tb_runs t' = tb_runs t" "tb_tools t' = tb_tools t"
  shows "all_replay se session t'"
  unfolding all_replay_def
proof (intro conjI allI impI ballI)
  have x: "extends t t'" using ev(1) by (auto simp: extends_def)
  have r: "run_row t' = run_row t" by (simp add: run_row_def same fun_eq_iff)
  have rows: "rows_of t' run = rows_of t run" for run using ev by (auto simp: filter_empty_conv)
  fix run row
  assume "run_row t' run = Some row"
  then obtain a st where a: "run_of_row se session t row = Ok a" "replayed se session t a st" using all unfolding all_replay_def r by blast
  have "replayed se session t' a st"
    by (rule replayed_other [OF a(2) log x rows]) (use tr same in \<open>simp_all add: tools_kept_same\<close>)
  then show "\<exists>r st. run_of_row se session t' row = Ok r \<and> replayed se session t' r st" using run_of_row_kept [OF a(1) x] by blast
next
  fix e run
  assume "e \<in> set (tb_events t')" "ev_run_id e = Some run"
  then have "e \<in> set (tb_events t)" using ev by auto
  then have "run_row t run \<noteq> None" using all \<open>ev_run_id e = Some run\<close> unfolding all_replay_def by blast
  then show "run_row t' run \<noteq> None" by (simp add: run_row_def same)
qed

lemma new_command_replays:
  assumes t: "store_ok se provenance t" "all_replay se (pv_session_id provenance) t" and call: "call_ok se owner now fresh operation run mutation"
    and cmd: "new_command se provenance owner now fresh operation run mutation t = (Ok receipt, t')"
  shows "all_replay se (pv_session_id provenance) t'"
proof -
  let ?s = "pv_session_id provenance"
  from t(1) obtain row proj where reads: "store_reads se ?s t" and m: "manifest_ok se provenance t row proj" by (auto simp: store_ok_def)
  have log: "log_ok se ?s t" "0 < log_length t" using reads by (simp_all add: store_reads_def)
  have valid: "validate_manifest se ?s (Some provenance) t = Ok (manifest_of row)" by (rule manifest_ok_validates [OF log m])
  have head: "sm_head_sequence (manifest_of row) = of_int (log_length t)" using m by (simp add: manifest_of_def manifest_ok_def)
  from cmd obtain first final timestamp t1 where
      checks: "mutation_checks se ?s run (manifest_of row) mutation t = Ok ()"
    and range: "sequence_range (of_int (log_length t)) (mutation_count mutation) = Ok (first, final)" and now: "now = Ok timestamp"
    and eff: "mutation_effect se ?s owner run first final fresh timestamp mutation t = (Ok (), t1)"
    and t': "tb_events t' = tb_events t1" "tb_runs t' = tb_runs t1" "tb_tools t' = tb_tools t1"
    unfolding new_command_def Let_def by (auto simp: sql_Ok valid head update_manifest_def insert_command_def)
  note r = sequence_range_log [OF log(1) range]
  have all: "all_replay se ?s t1" by (rule mutation_effect_replays [OF reads t(2) call now checks head r(3,2,4) eff [unfolded r(1)]])
  have "store_reads se ?s t1" using mutation_effect_keeps [OF reads call now checks head r(3,2,4) eff [unfolded r(1)]] by simp
  moreover have "store_reads se ?s t'" using new_command_keeps(1) [OF t(1) call cmd] by (simp add: store_ok_def)
  ultimately show ?thesis using t' by - (rule all_replay_extends [OF all, where rows = "[]"]; simp add: store_reads_def)
qed

lemma interrupted_replays:
  assumes t: "store_reads se session t" "all_replay se session t" "store_reads se session t'" and i: "interrupted_to t t'"
  shows "all_replay se session t'"
proof -
  from i obtain fresh timestamp row where row: "run_row t (rn_run_id row) = Some row" "unfinished row"
    and ev: "tb_events t' = tb_events t @ [new_event (log_length t + 1) fresh timestamp (rn_run_id row) (interruption (rn_run_id row))]"
    and tools: "tb_tools t' = tb_tools t"
    and runs: "tb_runs t' = map (\<lambda>r. if rn_run_id r = rn_run_id row then r\<lparr>rn_state := ''interrupted'',
        rn_terminal_sequence := Some (log_length t + 1), rn_terminal_json := Some (interruption (rn_run_id row))\<rparr> else r) (tb_runs t)"
    unfolding interrupted_to_def by blast
  let ?run = "rn_run_id row" and ?n = "log_length t + 1"
  let ?new = "new_event ?n fresh timestamp ?run (interruption ?run)"
  let ?row = "row\<lparr>rn_state := ''interrupted'', rn_terminal_sequence := Some ?n, rn_terminal_json := Some (interruption ?run)\<rparr>"
  let ?e = "row_event session ?run ?new"
  have log: "log_ok se session t" "log_ok se session t'" and tr: "tools_read se session t'" using t(1,3) by (simp_all add: store_reads_def)
  have x: "extends t t'" using ev by (auto simp: extends_def)
  obtain r st where r: "run_of_row se session t row = Ok r" "replayed se session t r st" using t(2) row(1) unfolding all_replay_def by blast
  have act: "active (rec_state r)" using unfinished_active [OF r(1)] row(2) by simp
  have id: "rec_run_id r = ?run" by (rule run_of_row_id [OF r(1)])
  obtain e where d: "decode se session ?new = Ok e" using log(2) unfolding log_ok_def ev by auto
  have e: "e = ?e" by (rule decode_row_event [OF d]) (simp add: new_event_def)
  have a: "appended se session t ?e t'"
    by (rule appended_row [OF log(1) d [unfolded e] _ _ ev]) (use log(2) ev in \<open>simp_all add: new_event_def log_ok_def\<close>)
  have p: "sv_payload ?e = interruption ?run" "sv_run_id ?e = Some ?run" by (simp_all add: row_event_def new_event_def stored_event_def)
  have len: "log_length t' = ?n" using ev by simp
  have acc: "rec_accepted_sequence r < of_int ?n"
  proof -
    obtain w where "accepted_as se session t row (rec_accepted_sequence r) w" by (rule run_of_row_OkE [OF r(1)])
    then obtain old where "history_event se session t (rec_accepted_sequence r) = Ok old" unfolding accepted_as_def by blast
    from appended_new [OF a this] show ?thesis unfolding len .
  qed
  have h: "history_event se session t' (of_int ?n) = Ok ?e" using appended_event [OF a] unfolding len .
  have row': "run_of_row se session t' ?row = Ok (r\<lparr>rec_state := StateInterrupted, rec_terminal := Some ?e\<rparr>)"
    using row_interrupted [OF r(1) act x h _ acc p(2,1)] p(1) by simp
  let ?st = "st\<lparr>rp_replay := (rp_replay st)\<lparr>rec_state := StateInterrupted, rec_terminal := Some ?e\<rparr>, rp_after := ?n\<rparr>"
  have new: "ev_payload_json ?new = interruption ?run" "ev_sequence ?new = ?n" by (simp_all add: new_event_def)
  have rep: "replay_row session (rec_run_id r) t' ?new st = Some ?st"
    using act replayed_after [OF r(2) log(1)] replayed_rows(2) [OF r(2)] new by (simp add: replay_row_def replay_event_def id)
  have rep: "replayed se session t' (r\<lparr>rec_state := StateInterrupted, rec_terminal := Some ?e\<rparr>) ?st"
    by (rule replayed_snoc [OF r(2) log x _ rep])
      (use rows_of_grown(1) [OF ev] replayed_rows(2) [OF r(2)] tools tr new id in \<open>simp_all add: tools_kept_same tool_checks_def repair_start_def\<close>)
  let ?g = "\<lambda>r. if rn_run_id r = ?run then r\<lparr>rn_state := ''interrupted'', rn_terminal_sequence := Some ?n, rn_terminal_json := Some (interruption ?run)\<rparr> else r"
  have g: "run_row t' other = map_option ?g (run_row t other)" for other
    unfolding run_row_def runs by (rule find_map) simp
  have self: "run_row t' ?run = Some ?row" by (simp add: g row(1))
  have oth: "run_row t' other = run_row t other" if "other \<noteq> ?run" for other
    unfolding g using that by (cases "run_row t other") (auto dest: run_row_id)
  have "runs_kept t t'" unfolding runs_kept_def runs by (auto simp: o_def if_distrib cong: if_cong)
  note known = known_runs [OF t(2) this ev, of ?run]
  have "others_replay se session t' ?run"
    using rows_of_grown(2) [OF ev] oth tools tr
    by (intro others_replay_kept [OF all_replay_others [OF t(2)] log x]) (auto simp: tools_change_same)
  then show ?thesis by (rule all_replayI [OF _ self row' rep]) (use known self in \<open>auto simp: new_event_def\<close>)
qed

lemma step_replays:
  assumes s: "store_step se provenance t t'" and t: "store_ok se provenance t" "all_replay se (pv_session_id provenance) t"
  shows "all_replay se (pv_session_id provenance) t'"
proof -
  have reads: "store_reads se (pv_session_id provenance) t" "store_reads se (pv_session_id provenance) t'"
    using t(1) step_cases(1) [OF s t(1)] by (simp_all add: store_ok_def)
  from step_cases(2) [OF s t(1)] consider "t' = t" | "renamed_to t t'" | "interrupted_to t t'"
    | owner now fresh operation run mutation receipt where "call_ok se owner now fresh operation run mutation"
      "new_command se provenance owner now fresh operation run mutation t = (Ok receipt, t')" by blast
  then show ?thesis
  proof cases
    case 2
    then obtain row where "tb_events t' = tb_events t @ [row]" "ev_run_id row = None" "tb_runs t' = tb_runs t" "tb_tools t' = tb_tools t"
      by (auto simp: renamed_to_def renamed_row_def)
    then show ?thesis using reads by - (rule all_replay_extends [OF t(2), where rows = "[row]"]; simp add: store_reads_def)
  next
    case 3
    then show ?thesis by (rule interrupted_replays [OF reads(1) t(2) reads(2)])
  next
    case 4
    then show ?thesis by (rule new_command_replays [OF t])
  qed (use t(2) in simp)
qed

lemma reachable_replays: "reachable se provenance t \<Longrightarrow> all_replay se (pv_session_id provenance) t"
proof (induction rule: reachable.induct)
  case (created manifest t)
  obtain input where "t = created_tables se provenance input" by (rule initialize_Ok [OF created(1)])
  then show ?case by (simp add: all_replay_def created_tables_def empty_tables_def run_row_def created_row_def)
next
  case (stepped t t')
  then show ?case using step_replays reachable_ok by blast
qed

end
