(* ===== verification/Repair_Complete.thy ===== *)
theory Repair_Complete
  imports Repair_Steps
begin

text \<open>
  The repair check on the stores the operations can produce: only the digests of the history selections decide.  On top of the replay of each run, this theory shows what the
  remaining passes of \<open>validate_history\<close> need: the manifest's title is the last title in the log, every command that accepted a run with
  a history left its selection, an acceptance is at the sequence its run names, and the running digest over the log
  is compared with exactly the digests the selections carry.
\<close>

section \<open>The repair check of the runs\<close>

lemma filter_single:
  assumes "length (filter P xs) \<le> 1" "x \<in> set xs" "P x"
  shows "filter P xs = [x]"
proof -
  have "x \<in> set (filter P xs)" using assms(2,3) by simp
  then show ?thesis using assms(1) by (cases "filter P xs") auto
qed

lemma selection_read:
  assumes inv: "store_inv se provenance t" and row: "row \<in> set (rows_of t run)" "is_selected row"
  shows "\<exists>x. history_selection se (pv_session_id provenance) t run = Ok (Some x)"
proof -
  obtain p where p: "ev_payload_json row = RunHistorySelected p" using row(2) by blast
  have ok: "store_ok se provenance t" "commands_ordered t" "selections_ok se (pv_session_id provenance) t" using inv by (simp_all add: store_inv_def)
  have "ev_run_id row = Some (hp_run_id p)" using ok(3) row(1) p unfolding selections_ok_def selection_ok_def by auto
  then have "hp_run_id p = run" using row(1) by simp
  then show ?thesis using history_selection_Some [OF ok _ p] row(1) by auto
qed

lemma selection_follows_acceptance:
  assumes inv: "store_inv se provenance t" and row: "row \<in> set (rows_of t run)" "is_selected row"
    and r: "run_record se (pv_session_id provenance) t run = Ok (Some r)"
  shows "rec_accepted_sequence r = of_int (ev_sequence row - 1)"
proof -
  obtain p where p: "ev_payload_json row = RunHistorySelected p" using row(2) by blast
  have "selection_ok se (pv_session_id provenance) t row p" using inv row(1) p unfolding store_inv_def selections_ok_def by auto
  then show ?thesis using r row(1) unfolding selection_ok_def by auto
qed

lemma binding_read:
  assumes inv: "store_inv se provenance t" and rr: "run_record se (pv_session_id provenance) t run = Ok (Some r)"
    and rep: "replayed se (pv_session_id provenance) t r st" and row: "row \<in> set (rows_of t run)" "is_bound row"
  shows "\<exists>x. provider_binding se (pv_session_id provenance) t run = Ok (Some x)"
proof -
  let ?s = "pv_session_id provenance"
  have log: "log_ok se ?s t" using inv by (simp add: store_inv_def store_ok_def store_reads_def)
  obtain rrow where "run_row t run = Some rrow" "run_of_row se ?s t rrow = Ok r" by (rule run_record_row [OF rr])
  then have id: "rec_run_id r = run" using run_of_row_id run_row_id by metis
  note rep' = replayed_rows [OF rep, unfolded id]
  note ord = rows_in_order [OF log, of "\<lambda>r. ev_run_id r = Some run"]
  have bind: "rp_binding_seen st" using replay_seen [OF rep'(1)] row by (auto simp: list_ex_iff)
  have op: "opens (rows_of t run) st" using replay_opens [OF rep'(1)] ord by blast
  then have "4 \<le> length (rows_of t run)" using bind by (simp add: opens_def)
  then obtain r0 r1 r2 r3 rest where rows: "rows_of t run = r0 # r1 # r2 # r3 # rest" by (auto simp: Suc_le_length_iff eval_nat_numeral)
  obtain b where b: "ev_payload_json r3 = RunProviderBound b" "rec_provider_session_id r = Some (bind_provider_session_id b)"
    and sel: "is_selected r1" and start: "is_started r2"
    using op bind rep'(2) unfolding opens_def rows by (auto simp: numeral_3_eq_3 numeral_2_eq_2)
  have "r3 \<in> set (rows_of t run)" "r2 \<in> set (rows_of t run)" "r1 \<in> set (rows_of t run)" unfolding rows by simp_all
  then have mem: "r3 \<in> set (tb_events t)" "ev_run_id r3 = Some run" "r2 \<in> set (tb_events t)" "r1 \<in> set (rows_of t run)" by simp_all
  have one: "ev_sequence x = ev_sequence r3" if x: "x \<in> set (tb_events t)" "ev_run_id x = Some run" "ev_event_type x = ''run.provider.bound''" for x
  proof -
    have "is_bound x" using row_type [OF log x(1)] x(3) type_bound by metis
    then have "x \<in> set (filter is_bound (rows_of t run))" using x(1,2) by simp
    moreover have "filter is_bound (rows_of t run) = [r3]"
      by (rule filter_single) (use replay_once [OF rep'(1)] mem(1,2) b(1) in auto)
    ultimately have "x \<in> set [r3]" by (simp only:)
    then show ?thesis by simp
  qed
  have ty: "ev_event_type r3 = ''run.provider.bound''" using row_type [OF log mem(1)] b(1) by simp
  obtain e where e: "metadata_event se ?s t run ''run.provider.bound'' = Ok (Some e)" "decode se ?s r3 = Ok e"
    by (rule metadata_event_one [OF log mem(1,2) ty one])
  have acc: "of_int (ev_sequence r0) = rec_accepted_sequence r" using replay_after [OF rep'(1)] unfolding rows by simp
  have seq: "ev_sequence r0 < ev_sequence r1" "ev_sequence r1 < ev_sequence r2" "ev_sequence r2 < ev_sequence r3" "0 < ev_sequence r0"
    "ev_sequence r3 < 2 ^ 63" "\<And>x. x \<in> set rest \<Longrightarrow> ev_sequence r3 < ev_sequence x" using ord unfolding rows in_order_def by auto
  have "(of_int (ev_sequence r0) :: u64) = of_int (ev_sequence r1 - 1)"
    using selection_follows_acceptance [OF inv mem(4) sel rr] acc by simp
  then have succ: "ev_sequence r1 = ev_sequence r0 + 1" using seq by (simp add: of_int_u64_inject del: of_int_diff)
  have s1: "sint (rec_accepted_sequence r + 1) = ev_sequence r1"
    using sint_of_i64 [of "ev_sequence r0 + 1"] seq unfolding acc [symmetric] succ by simp
  have s2: "sint (sv_sequence e) = ev_sequence r3" by (rule decode_sequence [OF e(2)])
  have between: "run_events t run (\<lambda>x. ev_sequence x > sint (rec_accepted_sequence r + 1) \<and> ev_sequence x < sint (sv_sequence e)) = [r2]"
  proof -
    have "run_events t run (\<lambda>x. ev_sequence x > ev_sequence r1 \<and> ev_sequence x < ev_sequence r3)
      = filter (\<lambda>x. ev_sequence x > ev_sequence r1 \<and> ev_sequence x < ev_sequence r3) (rows_of t run)"
      unfolding run_events_filter [OF log] filter_filter by simp
    also have "\<dots> = [r2]" unfolding rows using seq by (auto simp: filter_empty_conv) (meson less_asym)+
    finally show ?thesis unfolding s1 s2 .
  qed
  obtain e2 where e2: "decode se ?s r2 = Ok e2" using log mem(3) unfolding log_ok_def by blast
  obtain x where x: "history_selection se ?s t run = Ok (Some x)" using selection_read [OF inv mem(4) sel] by blast
  have "bind_run_id b = run \<and> binding_matches_input b (rec_input r)"
    using rep b(1) unfolding replayed_def Let_def id rows by simp
  then have "validate_binding se ?s t r b (sv_sequence e) = Ok ()"
    unfolding validate_binding_def id between x using e2 decode_Ok(3) [OF e2] start by (auto simp: reject_if_def is_started_def)
  then show ?thesis unfolding provider_binding_def e(1) using decode_Ok(3) [OF e(2)] b rr by (simp add: reject_if_def)
qed


lemma row_checks:
  assumes inv: "store_inv se provenance t" and rr: "run_record se (pv_session_id provenance) t run = Ok (Some r)"
    and rep: "replayed se (pv_session_id provenance) t r st" "rec_run_id r = run" and row: "row \<in> set (rows_of t run)"
  shows "event_checks se (pv_session_id provenance) t run (row_event (pv_session_id provenance) run row)"
proof -
  have "tool_checks se (pv_session_id provenance) t run (row_event (pv_session_id provenance) run row)"
    using rep row by (simp add: replayed_def Let_def)
  then show ?thesis using selection_read [OF inv row] binding_read [OF inv rr rep(1) row]
    by (cases "ev_payload_json row") (simp_all add: event_checks_def tool_checks_def)
qed

lemma repair_calls_reads:
  assumes "tools_read se session t"
  shows "repair_calls se session t run after = Ok ()"
  using assms
proof (induction se session t run after rule: repair_calls.induct)
  case (1 se session t run after)
  show ?case
  proof (cases "next_call t run after")
    case None
    then show ?thesis by (simp add: repair_calls.simps [of _ _ _ _ after])
  next
    case (Some call)
    obtain row where "row \<in> set (tb_tools t)" "tr_run_id row = run" "tr_call_id row = call" using next_call_Some(1) [OF Some] by blast
    then have "tool_row t run call \<noteq> None" by (auto simp: tool_row_def find_None_iff)
    then obtain row where row: "tool_row t run call = Some row" by blast
    obtain saved where "stored_tool_result se session t run call = Ok (Some saved)" by (rule saved_of_row [OF 1(2) row])
    then show ?thesis using 1(1) [OF Some] 1(2) Some by (simp add: repair_calls.simps [of _ _ _ _ after])
  qed
qed

lemma validate_run_reachable:
  assumes t: "reachable se provenance t" and run: "run_row t run \<noteq> None"
  shows "validate_run se (pv_session_id provenance) t run = Ok ()"
proof -
  let ?s = "pv_session_id provenance"
  have inv: "store_inv se provenance t" by (rule reachable_inv [OF t])
  then have reads: "store_reads se ?s t" by (simp add: store_inv_def store_ok_def)
  then have log: "log_ok se ?s t" and tr: "tools_read se ?s t" by (simp_all add: store_reads_def)
  obtain row where row: "run_row t run = Some row" using run by blast
  obtain r st where r: "run_of_row se ?s t row = Ok r" "replayed se ?s t r st"
    using reachable_replays [OF t] row unfolding all_replay_def by blast
  have id: "rec_run_id r = run" using run_of_row_id [OF r(1)] run_row_id [OF row] by simp
  have rr: "run_record se ?s t run = Ok (Some r)" by (simp add: run_record_def row r(1))
  note rep = replayed_rows [OF r(2), unfolded id]
  have "rows_after t run (rp_after (repair_start r)) = rows_of t run"
    using log_member [OF log] by (intro filter_cong) (auto simp: repair_start_def dest: log_member [OF log])
  then have "repair_events se ?s t run (repair_start r) = Ok st"
    using rep(1) row_checks [OF inv rr r(2) id] by (intro repair_events_replay [OF log]) auto
  then show ?thesis unfolding validate_run_def rr
    by (simp add: rep(2) repair_calls_reads [OF tr] terminal_sequence_def reject_ok)
qed

section \<open>The title and the history commands\<close>

definition row_title :: "EventRow \<Rightarrow> str option" where
  "row_title row = (case ev_payload_json row of SessionCreated p \<Rightarrow> Some (cp_title p) | SessionRenamed title \<Rightarrow> Some title | _ \<Rightarrow> None)"

definition log_title :: "EventRow list \<Rightarrow> str option" where
  "log_title rows = last_of (List.map_filter row_title rows)"

lemma log_title_untitled: "(\<And>row. row \<in> set rows' \<Longrightarrow> row_title row = None) \<Longrightarrow> log_title (rows @ rows') = log_title rows"
  by (induction rows' arbitrary: rows) (auto simp: log_title_def map_filter_simps map_filter_append)

lemma log_title_snoc: "row_title row = Some title \<Longrightarrow> log_title (rows @ [row]) = Some title"
  by (simp add: log_title_def map_filter_simps map_filter_append)

definition title_ok :: "'d tables \<Rightarrow> bool" where
  "title_ok t \<longleftrightarrow> (\<forall>row \<in> set (tb_manifest t). log_title (tb_events t) = Some (mf_title row))"

text \<open>A command that accepted a run with a history left the selection in the log.\<close>

definition selected_commands :: "('u, 'd) store_env \<Rightarrow> 'd tables \<Rightarrow> bool" where
  "selected_commands se t \<longleftrightarrow> (\<forall>cmd \<in> set (tb_commands t). cm_method cmd = ''accept_history_run'' \<longrightarrow>
     storage_id_from_str (se_uuid se) (cm_operation_id cmd) = Ok (cm_operation_id cmd) \<and>
     (\<exists>run. rc_run_id (cm_receipt_json cmd) = Some run \<and>
        (\<exists>row \<in> set (tb_events t). ev_run_id row = Some run \<and> is_selected row)))"

lemma mutation_rows_untitled: "row \<in> set (mutation_rows n fresh timestamp run owner mutation) \<Longrightarrow> row_title row = None"
proof (cases mutation)
  case (Append records)
  moreover have "row \<in> set (batch_rows n fresh timestamp run rs) \<Longrightarrow> row_title row = None" for n rs
  proof (induction rs arbitrary: n)
    case (Cons r rs)
    then show ?case by (cases r) (auto simp: row_title_def new_event_def)
  qed simp
  ultimately show "row \<in> set (mutation_rows n fresh timestamp run owner mutation) \<Longrightarrow> row_title row = None" by simp
qed (auto simp: row_title_def new_event_def)

lemma title_ok_extends:
  assumes t: "title_ok t" and ev: "tb_events t' = tb_events t @ rows" "\<And>row. row \<in> set rows \<Longrightarrow> row_title row = None"
    and m: "map mf_title (tb_manifest t') = map mf_title (tb_manifest t)"
  shows "title_ok t'"
  unfolding title_ok_def
proof
  fix row'
  assume "row' \<in> set (tb_manifest t')"
  then have "mf_title row' \<in> set (map mf_title (tb_manifest t))" unfolding m [symmetric] by simp
  then obtain row where "row \<in> set (tb_manifest t)" "mf_title row' = mf_title row" by auto
  then show "log_title (tb_events t') = Some (mf_title row')" using t log_title_untitled [OF ev(2)] by (simp add: title_ok_def ev(1))
qed

lemma selected_commands_extends:
  assumes "selected_commands se t" "set (tb_events t) \<subseteq> set (tb_events t')" "tb_commands t' = tb_commands t @ cmds"
    and "\<And>cmd. cmd \<in> set cmds \<Longrightarrow> cm_method cmd = ''accept_history_run'' \<Longrightarrow>
      storage_id_from_str (se_uuid se) (cm_operation_id cmd) = Ok (cm_operation_id cmd) \<and>
      (\<exists>run. rc_run_id (cm_receipt_json cmd) = Some run \<and> (\<exists>row \<in> set (tb_events t'). ev_run_id row = Some run \<and> is_selected row))"
  shows "selected_commands se t'"
  unfolding selected_commands_def
proof (intro ballI impI)
  fix cmd
  assume "cmd \<in> set (tb_commands t')" and m: "cm_method cmd = ''accept_history_run''"
  then consider "cmd \<in> set (tb_commands t)" | "cmd \<in> set cmds" using assms(3) by auto
  then show "storage_id_from_str (se_uuid se) (cm_operation_id cmd) = Ok (cm_operation_id cmd) \<and>
     (\<exists>run. rc_run_id (cm_receipt_json cmd) = Some run \<and> (\<exists>row \<in> set (tb_events t'). ev_run_id row = Some run \<and> is_selected row))"
  proof cases
    case 1
    then show ?thesis using assms(1,2) m unfolding selected_commands_def by blast
  next
    case 2
    then show ?thesis using assms(4) m by blast
  qed
qed

lemma step_titles:
  assumes s: "store_step se provenance t t'" and t: "store_ok se provenance t" "title_ok t" "selected_commands se t"
  shows "title_ok t' \<and> selected_commands se t'"
proof -
  from step_cases(2) [OF s t(1)] consider "t' = t" | "renamed_to t t'" | "interrupted_to t t'"
    | owner now fresh operation run mutation receipt where "call_ok se owner now fresh operation run mutation"
      "new_command se provenance owner now fresh operation run mutation t = (Ok receipt, t')" by blast
  then show ?thesis
  proof cases
    case 1
    then show ?thesis using t by simp
  next
    case 2
    then obtain fresh timestamp title cmd where ev: "tb_events t' = tb_events t @ [renamed_row (log_length t + 1) fresh timestamp title]"
      and c: "tb_commands t' = tb_commands t @ [cmd]" "cm_method cmd = ''rename''" and m: "map mf_title (tb_manifest t') = map (\<lambda>_. title) (tb_manifest t)"
      unfolding renamed_to_def by blast
    have "mf_title row = title" if "row \<in> set (tb_manifest t')" for row
      using that arg_cong [OF m, of set] by fastforce
    moreover have "row_title (renamed_row (log_length t + 1) fresh timestamp title) = Some title" by (simp add: row_title_def renamed_row_def)
    ultimately have "title_ok t'" by (simp add: title_ok_def ev log_title_snoc)
    moreover have "selected_commands se t'" by (rule selected_commands_extends [OF t(3) _ c(1)]) (simp_all add: ev c(2) subset_insertI)
    ultimately show ?thesis ..
  next
    case 3
    then obtain fresh timestamp run where ev: "tb_events t' = tb_events t @ [new_event (log_length t + 1) fresh timestamp run (interruption run)]"
      and c: "tb_commands t' = tb_commands t" and m: "map mf_title (tb_manifest t') = map mf_title (tb_manifest t)"
      unfolding interrupted_to_def by blast
    have "title_ok t'" by (rule title_ok_extends [OF t(2) ev _ m]) (simp add: row_title_def new_event_def)
    moreover have "selected_commands se t'" by (rule selected_commands_extends [OF t(3), where cmds = "[]"]) (simp_all add: ev c subset_insertI)
    ultimately show ?thesis ..
  next
    case 4
    note k = new_command_keeps [OF t(1) 4]
    obtain timestamp where ev: "tb_events t' = tb_events t @ mutation_rows (log_length t + 1) fresh timestamp run owner mutation" using k(4) by blast
    have "title_ok t'" by (rule title_ok_extends [OF t(2) ev mutation_rows_untitled k(7)])
    moreover have "selected_commands se t'"
    proof (rule selected_commands_extends [OF t(3) _ k(2)])
      fix cmd
      assume cmd: "cmd \<in> set [\<lparr>cm_operation_id = operation, cm_method = Mutation_method mutation,
        cm_payload_hash = command_hash se (pv_session_id provenance) run mutation, cm_first_sequence = log_length t + 1,
        cm_last_sequence = log_length t', cm_receipt_json = receipt\<rparr>]" "cm_method cmd = ''accept_history_run''"
      then obtain input selection where m: "mutation = AcceptHistory input selection" by (cases mutation) auto
      show "storage_id_from_str (se_uuid se) (cm_operation_id cmd) = Ok (cm_operation_id cmd) \<and>
        (\<exists>run. rc_run_id (cm_receipt_json cmd) = Some run \<and> (\<exists>row \<in> set (tb_events t'). ev_run_id row = Some run \<and> is_selected row))"
        using cmd 4(1) k(3) by (auto simp: call_ok_def ev m new_event_def)
    qed (simp add: ev)
    ultimately show ?thesis ..
  qed
qed

lemma reachable_titles: "reachable se provenance t \<Longrightarrow> title_ok t \<and> selected_commands se t"
proof (induction rule: reachable.induct)
  case (created manifest t)
  obtain input where "t = created_tables se provenance input" by (rule initialize_Ok [OF created(1)])
  then show ?case by (simp add: title_ok_def selected_commands_def created_tables_def empty_tables_def created_row_def log_title_def row_title_def map_filter_simps)
next
  case (stepped t t')
  then show ?case using step_titles reachable_ok by blast
qed

section \<open>The passes over the log\<close>

definition row_selection :: "EventRow \<Rightarrow> (u64 \<times> str) option" where
  "row_selection row = (case ev_payload_json row of
     RunHistorySelected p \<Rightarrow> Some (sel_through_sequence (hp_selection p), sel_history_digest (hp_selection p)) | _ \<Rightarrow> None)"

definition later_title :: "str option \<Rightarrow> EventRow list \<Rightarrow> str option" where
  "later_title title rows = (case log_title rows of None \<Rightarrow> title | Some t \<Rightarrow> Some t)"

lemma last_of_Cons: "last_of (x # xs) = (case last_of xs of None \<Rightarrow> Some x | Some y \<Rightarrow> Some y)"
  by (cases xs) (auto simp: last_of_def)

lemma later_title_Cons: "later_title title (row # rows) = later_title (case row_title row of None \<Rightarrow> title | Some t \<Rightarrow> Some t) rows"
  by (auto simp: later_title_def log_title_def map_filter_simps last_of_Cons split: option.splits)

lemma checked_next: "0 \<le> k \<Longrightarrow> k < 2 ^ 63 \<Longrightarrow> checked_add_u64 (of_int k) 1 = Some (of_int (k + 1))"
  by (simp add: checked_add_u64_def unat_eq_nat_uint uint_word_of_int_eq take_bit_int_eq_self)

lemma decode_created_first:
  assumes "decode se session row = Ok e" "ev_payload_json row = SessionCreated p"
  shows "sv_sequence e = 1"
  using assms by (auto simp: decode_def StoredEvent_try_from_def StoredEvent_payload_def Let_def wi_results split: if_splits)

lemma history_rows_reads:
  assumes "map ev_sequence rows = [k + 1..k + int (length rows)]" "0 \<le> k" "k + int (length rows) < 2 ^ 63" "2 \<le> version"
    and "\<And>row. row \<in> set rows \<Longrightarrow> \<exists>e. decode se session row = Ok e"
  shows "history_rows se session version rows (of_int k) title checkpoints
    = Ok (of_int (k + int (length rows)), later_title title rows, checkpoints @ List.map_filter row_selection rows)"
  using assms
proof (induction rows arbitrary: k title checkpoints)
  case Nil
  show ?case by (simp add: later_title_def log_title_def map_filter_simps)
next
  case (Cons row rows)
  have k: "ev_sequence row = k + 1" "map ev_sequence rows = [k + 1 + 1..k + 1 + int (length rows)]"
    using Cons.prems(1) by (simp_all add: upto_rec1 algebra_simps)
  obtain e where e: "decode se session row = Ok e" using Cons.prems(5) by auto
  define head :: u64 where "head = of_int (k + 1)"
  define final :: u64 where "final = of_int (k + int (length (row # rows)))"
  have IH: "history_rows se session version rows head title' cps = Ok (final, later_title title' rows, cps @ List.map_filter row_selection rows)" for title' cps
    using Cons.IH [of "k + 1" title' cps] Cons.prems k(2) by (simp add: head_def final_def algebra_simps)
  have IH1: "head = 1 \<Longrightarrow> history_rows se session version rows 1 title' cps = Ok (final, later_title title' rows, cps @ List.map_filter row_selection rows)" for title' cps
    using IH by simp
  have h: "checked_add_u64 (of_int k) 1 = Some head" unfolding head_def using Cons.prems by (intro checked_next) auto
  have s: "sv_sequence e = head" "sv_payload e = ev_payload_json row" using decode_Ok [OF e] k(1) by (simp_all add: head_def)
  have first: "head = 1" if "ev_payload_json row = SessionCreated p" for p
    using decode_created_first [OF e that] s(1) by simp
  show ?case
    unfolding final_def [symmetric]
    using Cons.prems(4) first
    by (cases "ev_payload_json row")
      (simp_all add: e h s IH IH1 later_title_Cons row_title_def row_selection_def [of row] map_filter_simps wi_results)
qed

text \<open>What the digest of a history prefix covers.\<close>

definition prefix_text :: "(StoredEventPayload \<Rightarrow> Value) \<Rightarrow> crates \<Rightarrow> EventRow list \<Rightarrow> str" where
  "prefix_text payload_value cr rows = ''wi.history-prefix.v1'' @ [CHR 0x00] @
     concat (map (\<lambda>row. case canonical_row payload_value cr row of Inl _ \<Rightarrow> [] | Inr json \<Rightarrow> be_bytes (of_nat (length json)) @ json) rows)"

definition prefix_hash :: "(StoredEventPayload \<Rightarrow> Value) \<Rightarrow> crates \<Rightarrow> EventRow list \<Rightarrow> str" where
  "prefix_hash payload_value cr rows = hex_bytes (sha256 cr (prefix_text payload_value cr rows))"

lemma prefix_rows_decided:
  assumes "map ev_sequence rows = [int (length fed) + 1..int (length fed) + int (length rows)]" "int (length fed) + int (length rows) < 2 ^ 63"
    and "\<And>row. row \<in> set rows \<Longrightarrow> \<exists>json. canonical_row payload_value cr row = Ok json"
  shows "prefix_rows payload_value cr expected rows (of_int (int (length fed))) (prefix_text payload_value cr fed) =
    (if \<forall>n digest. length fed < n \<and> n \<le> length (fed @ rows) \<and> expected (of_int (int n)) = Some digest \<longrightarrow>
          digest = prefix_hash payload_value cr (take n (fed @ rows))
     then Ok (of_int (int (length (fed @ rows))), prefix_text payload_value cr (fed @ rows)) else Err integrity)"
  using assms
proof (induction rows arbitrary: fed)
  case Nil
  then show ?case by auto
next
  case (Cons row rows)
  define m where "m = length (fed @ [row])"
  define full where "full = fed @ row # rows"
  define agree where "agree n = (\<forall>digest. expected (of_int (int n)) = Some digest \<longrightarrow> digest = prefix_hash payload_value cr (take n full))" for n
  have k: "ev_sequence row = int m" "map ev_sequence rows = [int m + 1..int m + int (length rows)]"
    using Cons.prems(1) by (simp_all add: m_def upto_rec1 algebra_simps)
  obtain json where json: "canonical_row payload_value cr row = Ok json" using Cons.prems(3) by auto
  define ctx where "ctx = prefix_text payload_value cr (fed @ [row])"
  have c: "prefix_text payload_value cr fed @ be_bytes (of_nat (length json)) @ json = ctx" by (simp add: ctx_def prefix_text_def json)
  have h: "of_int (int (length fed)) + 1 = (of_int (int m) :: u64)" by (simp add: m_def)
  have hash: "hex_bytes (sha256 cr ctx) = prefix_hash payload_value cr (take m full)" by (simp add: ctx_def prefix_hash_def m_def full_def)
  have ok: "(case expected (of_int (int m)) of None \<Rightarrow> False | Some digest \<Rightarrow> hex_bytes (sha256 cr ctx) \<noteq> digest) \<longleftrightarrow> \<not> agree m"
    by (auto simp: agree_def hash split: option.splits)
  have IH: "prefix_rows payload_value cr expected rows (of_int (int m)) ctx =
    (if \<forall>n. m < n \<and> n \<le> length full \<longrightarrow> agree n then Ok (of_int (int (length full)), prefix_text payload_value cr full) else Err integrity)"
    using Cons.IH [of "fed @ [row]"] Cons.prems k(2) by (simp add: m_def ctx_def full_def agree_def del: of_int_of_nat_eq)
  have split: "(\<forall>n. length fed < n \<and> n \<le> length full \<longrightarrow> agree n) \<longleftrightarrow> agree m \<and> (\<forall>n. m < n \<and> n \<le> length full \<longrightarrow> agree n)"
  proof -
    have "length fed < n \<and> n \<le> length full \<longleftrightarrow> n = m \<or> m < n \<and> n \<le> length full" for n by (auto simp: m_def full_def)
    then show ?thesis by auto
  qed
  have goal: "(\<forall>n digest. length fed < n \<and> n \<le> length (fed @ row # rows) \<and> expected (of_int (int n)) = Some digest \<longrightarrow>
      digest = prefix_hash payload_value cr (take n (fed @ row # rows))) \<longleftrightarrow> (\<forall>n. length fed < n \<and> n \<le> length full \<longrightarrow> agree n)"
    unfolding agree_def full_def by blast
  have "prefix_rows payload_value cr expected (row # rows) (of_int (int (length fed))) (prefix_text payload_value cr fed) =
    (if agree m then prefix_rows payload_value cr expected rows (of_int (int m)) ctx else Err integrity)"
    unfolding prefix_rows.simps h k(1) json and_then.simps Let_def c ok by (simp add: reject_if_def)
  then have step: "prefix_rows payload_value cr expected (row # rows) (of_int (int (length fed))) (prefix_text payload_value cr fed) =
    (if agree m \<and> (\<forall>n. m < n \<and> n \<le> length full \<longrightarrow> agree n) then Ok (of_int (int (length full)), prefix_text payload_value cr full) else Err integrity)"
    unfolding IH by argo
  show ?case unfolding goal split step unfolding full_def ..
qed

lemma prefix_checkpoints_all:
  assumes "distinct (map fst checkpoints)" "\<And>n. n \<in> set (map fst checkpoints) \<Longrightarrow> expected n = None"
    and "\<And>n digest. (n, digest) \<in> set checkpoints \<Longrightarrow> n \<noteq> 0 \<and> n \<le> through \<and> valid_digest digest"
  shows "prefix_checkpoints through expected checkpoints = Ok (expected ++ map_of checkpoints)"
  using assms
proof (induction checkpoints arbitrary: expected)
  case (Cons c cs)
  obtain n digest where c: "c = (n, digest)" by (cases c)
  have d: "n \<noteq> 0 \<and> n \<le> through \<and> valid_digest digest" by (rule Cons.prems(3)) (simp add: c)
  have e: "expected n = None" using Cons.prems(2) by (simp add: c)
  have n: "map_of cs n = None" using Cons.prems(1) by (simp add: c map_of_eq_None_iff)
  have "prefix_checkpoints through (expected(n \<mapsto> digest)) cs = Ok (expected(n \<mapsto> digest) ++ map_of cs)"
    using Cons.prems by (intro Cons.IH) (auto simp: c)
  moreover have "expected(n \<mapsto> digest) ++ map_of cs = expected ++ map_of (c # cs)"
    using n by (auto simp: c map_add_def fun_eq_iff split: option.splits)
  moreover define full where "full = expected ++ map_of (c # cs)"
  ultimately have "prefix_checkpoints through (expected(n \<mapsto> digest)) cs = Ok full" by (simp only:)
  then show ?case unfolding full_def [symmetric] using d e by (simp add: c reject_if_def not_less)
qed (simp add: map_add_def)

section \<open>The check of a whole history\<close>

lemma decode_run:
  assumes "decode se session row = Ok e" "ev_run_id row = Some run"
  shows "parse_run_id (se_uuid se) run = Ok run"
  using assms decode_Ok(2) [OF assms(1)]
  by (auto simp: decode_def StoredEvent_try_from_def wi_results)

lemma replay_accepted:
  assumes "replay_rows session run t rows (repair_start r) = Some st"
  shows "\<forall>row \<in> set rows. is_accepted (ev_payload_json row) \<longrightarrow> of_int (ev_sequence row) = rec_accepted_sequence r"
  using assms
proof (induction rule: replay_rows_induct)
  case (step rows row st st')
  from step(2,3) show ?case
    using replay_identity [OF step(1)] by (cases rule: replay_row_cases) (auto simp: is_accepted_def)
qed simp

lemma find_by_key: "distinct (map key xs) \<Longrightarrow> x \<in> set xs \<Longrightarrow> List.find (\<lambda>y. key y = key x) xs = Some x"
  by (induction xs) (auto simp: image_iff)

lemma run_row_of: "schema_ok t \<Longrightarrow> row \<in> set (tb_runs t) \<Longrightarrow> run_row t (rn_run_id row) = Some row"
  unfolding run_row_def by (rule find_by_key) (simp_all add: schema_ok_def runs_schema_def)

lemma run_row_parsed:
  assumes t: "reachable se provenance t" and row: "row \<in> set (tb_runs t)"
  shows "parse_run_id (se_uuid se) (rn_run_id row) = Ok (rn_run_id row)" "run_row t (rn_run_id row) = Some row"
proof -
  let ?s = "pv_session_id provenance"
  have reads: "store_reads se ?s t" using reachable_ok [OF t] by (simp add: store_ok_def)
  then have log: "log_ok se ?s t" and sch: "schema_ok t" by (simp_all add: store_reads_def)
  show rr: "run_row t (rn_run_id row) = Some row" by (rule run_row_of [OF sch row])
  obtain r st where r: "run_of_row se ?s t row = Ok r" "replayed se ?s t r st"
    using reachable_replays [OF t] rr unfolding all_replay_def by blast
  have "rows_of t (rn_run_id row) \<noteq> []" using r(2) run_of_row_id [OF r(1)] by (simp add: replayed_def Let_def)
  then obtain e where e: "e \<in> set (tb_events t)" "ev_run_id e = Some (rn_run_id row)" by (auto simp: filter_empty_conv)
  then show "parse_run_id (se_uuid se) (rn_run_id row) = Ok (rn_run_id row)"
    using log decode_run unfolding log_ok_def by blast
qed

lemma acceptance_known:
  assumes t: "reachable se provenance t" and e: "e \<in> set (tb_events t)" "ev_run_id e = Some run"
  shows "\<exists>row \<in> set (tb_runs t). rn_run_id row = run \<and> (ev_event_type e = ''run.accepted'' \<longrightarrow> rn_accepted_sequence row = ev_sequence e)"
proof -
  let ?s = "pv_session_id provenance"
  have reads: "store_reads se ?s t" using reachable_ok [OF t] by (simp add: store_ok_def)
  then have log: "log_ok se ?s t" and sch: "schema_ok t" by (simp_all add: store_reads_def)
  have all: "all_replay se ?s t" by (rule reachable_replays [OF t])
  obtain row where row: "run_row t run = Some row" using all e unfolding all_replay_def by blast
  then have mem: "row \<in> set (tb_runs t)" "rn_run_id row = run" by (auto simp: run_row_def find_Some_iff)
  obtain r st where r: "run_of_row se ?s t row = Ok r" "replayed se ?s t r st" using all row unfolding all_replay_def by blast
  have id: "rec_run_id r = run" using run_of_row_id [OF r(1)] mem(2) by simp
  have "rn_accepted_sequence row = ev_sequence e" if acc: "ev_event_type e = ''run.accepted''"
  proof -
    have "is_accepted (ev_payload_json e)" using row_type [OF log e(1)] acc by (cases "ev_payload_json e") (simp_all add: is_accepted_def)
    then have "of_int (ev_sequence e) = rec_accepted_sequence r"
      using replay_accepted [OF replayed_rows(1) [OF r(2)]] e id by simp
    moreover have "rec_accepted_sequence r = of_int (rn_accepted_sequence row)" using r(1) by (auto simp: run_of_row_def positive_def wi_results split: if_splits)
    moreover have "rn_accepted_sequence row \<in> set (map ev_sequence (tb_events t))" using sch mem(1) by (auto simp: schema_ok_def runs_schema_def list_all_iff)
    then obtain e' where "e' \<in> set (tb_events t)" "rn_accepted_sequence row = ev_sequence e'" by auto
    moreover have "log_length t < 2 ^ 63" using log by (simp add: log_ok_def)
    ultimately show ?thesis using log_member [OF log, of e] log_member [OF log, of e'] e(1) of_int_u64_inject [of "ev_sequence e" "ev_sequence e'"] by simp
  qed
  then show ?thesis using mem by blast
qed

lemma history_runs_reads: "(\<And>row. row \<in> set rows \<Longrightarrow> parse_run_id (se_uuid se) (rn_run_id row) = Ok (rn_run_id row) \<and>
    validate_run se session t (rn_run_id row) = Ok ()) \<Longrightarrow> history_runs se session t rows = Ok ()"
  by (induction rows) simp_all

lemma history_commands_reads:
  assumes t: "reachable se provenance t"
    and "\<And>operation. operation \<in> set operations \<Longrightarrow> \<exists>cmd \<in> set (tb_commands t). cm_operation_id cmd = operation \<and> cm_method cmd = ''accept_history_run''"
  shows "history_commands se (pv_session_id provenance) t operations = Ok ()"
  using assms(2)
proof (induction operations)
  case (Cons operation operations)
  let ?s = "pv_session_id provenance"
  have inv: "store_inv se provenance t" by (rule reachable_inv [OF t])
  then have ok: "store_ok se provenance t" by (simp add: store_inv_def)
  then obtain mrow proj where m: "manifest_ok se provenance t mrow proj" by (auto simp: store_ok_def)
  have sch: "schema_ok t" using ok by (simp add: store_ok_def store_reads_def)
  obtain cmd where cmd: "cmd \<in> set (tb_commands t)" "cm_operation_id cmd = operation" "cm_method cmd = ''accept_history_run''" using Cons.prems by auto
  have "command_row t operation = Some cmd"
    unfolding cmd(2) [symmetric] by (rule find_by_key) (use sch cmd in \<open>simp_all add: schema_ok_def commands_schema_def\<close>)
  then have c: "command ?s t operation = Ok (Some (command_of cmd))"
    using ok by (simp add: command_Ok [OF _ m] store_ok_def)
  obtain run row where r: "storage_id_from_str (se_uuid se) operation = Ok operation" "rc_run_id (cm_receipt_json cmd) = Some run"
    "row \<in> set (tb_events t)" "ev_run_id row = Some run" "is_selected row"
    using reachable_titles [OF t] cmd unfolding selected_commands_def by blast
  obtain x where "history_selection se ?s t run = Ok (Some x)" using selection_read [OF inv _ r(5), of run] r(3,4) by auto
  then show ?case using Cons r(1,2) c by (simp add: command_of_def)
qed simp

lemma foreign_keys_hold: "schema_ok t \<Longrightarrow> foreign_keys t"
  by (auto simp: schema_ok_def foreign_keys_def Let_def commands_schema_def runs_schema_def tools_schema_def list_all_iff)

lemma observe_session_reads:
  assumes t: "reachable se provenance t"
  obtains row summary where "observe_session se (pv_session_id provenance) t = Ok summary" "tb_manifest t = [row]" "su_schema_version summary = 3"
    "su_manifest summary = manifest_of row" "mf_head_sequence row = log_length t"
proof -
  let ?s = "pv_session_id provenance"
  have ok: "store_ok se provenance t" by (rule reachable_ok [OF t])
  then have reads: "store_reads se ?s t" by (simp add: store_ok_def)
  obtain row proj where m: "manifest_ok se provenance t row proj" using ok by (auto simp: store_ok_def)
  have man: "validate_manifest se ?s None t = Ok (manifest_of row)"
    using reads by (intro manifest_ok_validates(2) [OF _ _ m]) (auto simp: store_reads_def)
  have ver: "schema_version t = Ok 3" using m by (simp add: schema_version_def manifest_ok_def)
  have "\<exists>run state. (case rev (sort_key rn_accepted_sequence (tb_runs t)) of
        [] \<Rightarrow> Ok (None, None)
      | row # _ \<Rightarrow>
          and_then (map_err (\<lambda>_. integrity) (parse_run_id (se_uuid se) (rn_run_id row))) (\<lambda>run_id.
          and_then (run_record se ?s t run_id) (\<lambda>found.
          and_then (ok_or integrity found) (\<lambda>run.
          Ok (Some run_id, Some (rec_state run)))))) = Ok (run, state)"
  proof (cases "rev (sort_key rn_accepted_sequence (tb_runs t))")
    case (Cons rrow rest)
    have "rrow \<in> set (rev (sort_key rn_accepted_sequence (tb_runs t)))" unfolding Cons by simp
    then have mem: "rrow \<in> set (tb_runs t)" by simp
    note rr = run_row_parsed [OF t mem]
    obtain r where "run_of_row se ?s t rrow = Ok r" using reads mem by (auto simp: store_reads_def runs_read_def)
    then show ?thesis by (simp add: Cons rr run_record_def)
  qed simp
  then obtain run state where "observe_session se ?s t = Ok \<lparr>su_manifest = manifest_of row, su_schema_version = 3, su_availability = SessionReady,
      su_fault_code = None, su_last_run_id = run, su_last_run_state = state\<rparr>"
    unfolding observe_session_def man ver by auto
  moreover have "tb_manifest t = [row]" "mf_head_sequence row = log_length t" using m by (simp_all add: manifest_ok_def)
  ultimately show thesis using that by simp
qed

lemma unat_of_i64: "0 \<le> i \<Longrightarrow> i < 2 ^ 63 \<Longrightarrow> unat (of_int i :: u64) = nat i"
  by (simp add: unat_eq_nat_uint uint_word_of_int_eq take_bit_int_eq_self)

lemma decode_selection:
  assumes "decode se session row = Ok e" "ev_payload_json row = RunHistorySelected p"
  shows "sel_through_sequence (hp_selection p) \<noteq> 0" "valid_digest (sel_history_digest (hp_selection p))" "ev_sequence row \<noteq> 1"
proof -
  from assms obtain p' where "decode_selected se p = Ok p'" and "sv_sequence e \<noteq> 1"
    by (auto simp: decode_def StoredEvent_try_from_def StoredEvent_payload_def wi_results split: if_splits)
  then show "sel_through_sequence (hp_selection p) \<noteq> 0" "valid_digest (sel_history_digest (hp_selection p))" "ev_sequence row \<noteq> 1"
    using decode_Ok(1) [OF assms(1)] by (auto simp: decode_selected_def StoredHistorySelection_try_from_def StoredHistorySelection_new_def wi_results)
qed

lemma selection_checkpoint:
  assumes log: "log_ok se session t" and inv: "selections_ok se session t" and row: "row \<in> set (tb_events t)" "ev_payload_json row = RunHistorySelected p"
  shows "sel_through_sequence (hp_selection p) = of_int (ev_sequence row - 2)" "3 \<le> ev_sequence row" "valid_digest (sel_history_digest (hp_selection p))"
proof -
  show through: "sel_through_sequence (hp_selection p) = of_int (ev_sequence row - 2)"
    using inv row unfolding selections_ok_def selection_ok_def by blast
  obtain e where "decode se session row = Ok e" using log row(1) by (auto simp: log_ok_def)
  note d = decode_selection [OF this row(2)]
  show "valid_digest (sel_history_digest (hp_selection p))" by (rule d(2))
  show "3 \<le> ev_sequence row" using d(1,3) through log_member [OF log row(1)] by (cases "ev_sequence row = 2") auto
qed

definition digests_match :: "(StoredEventPayload \<Rightarrow> Value) \<Rightarrow> crates \<Rightarrow> EventRow list \<Rightarrow> bool" where
  "digests_match payload_value cr rows \<longleftrightarrow> (\<forall>row \<in> set rows. \<forall>p. ev_payload_json row = RunHistorySelected p \<longrightarrow>
     sel_history_digest (hp_selection p) = prefix_hash payload_value cr (take (nat (ev_sequence row - 2)) rows))"

lemma checkpoint_member:
  assumes log: "log_ok se session t" "selections_ok se session t" and c: "(n, digest) \<in> set (List.map_filter row_selection (tb_events t))"
  obtains row p where "row \<in> set (tb_events t)" "ev_payload_json row = RunHistorySelected p" "digest = sel_history_digest (hp_selection p)"
    "unat n = nat (ev_sequence row - 2)" "3 \<le> ev_sequence row" "ev_sequence row \<le> log_length t" "valid_digest digest"
proof -
  obtain row p where row: "row \<in> set (tb_events t)" "ev_payload_json row = RunHistorySelected p" "n = sel_through_sequence (hp_selection p)"
    "digest = sel_history_digest (hp_selection p)"
    using c by (auto simp: map_filter_def row_selection_def split: StoredEventPayload.splits)
  note s = selection_checkpoint [OF log row(1,2)]
  have b: "ev_sequence row \<le> log_length t" "log_length t < 2 ^ 63" using log_member [OF log(1) row(1)] log(1) by (simp_all add: log_ok_def)
  have "unat n = nat (ev_sequence row - 2)" unfolding row(3) s(1) by (rule unat_of_i64) (use s(2) b in auto)
  then show thesis using that row s b by blast
qed

lemma selection_keys:
  assumes "n \<in> set (map fst (List.map_filter row_selection rows))"
  shows "\<exists>row \<in> set rows. \<exists>p. ev_payload_json row = RunHistorySelected p \<and> n = sel_through_sequence (hp_selection p)"
  using assms
proof (induction rows)
  case (Cons row rows)
  then show ?case by (cases "ev_payload_json row") (auto simp: map_filter_simps row_selection_def [of row])
qed (simp add: map_filter_simps)

lemma checkpoints_distinct:
  assumes log: "log_ok se session t" "selections_ok se session t"
  shows "distinct (map fst (List.map_filter row_selection (tb_events t)))"
proof -
  have through: "sel_through_sequence (hp_selection p) = of_int (ev_sequence row - 2)" "3 \<le> ev_sequence row" "ev_sequence row < 2 ^ 63"
    if "row \<in> set (tb_events t)" "ev_payload_json row = RunHistorySelected p" for row p
    using selection_checkpoint [OF log that] log_member [OF log(1) that(1)] log(1) by (auto simp: log_ok_def simp del: of_int_diff)
  have "distinct (map fst (List.map_filter row_selection rows))"
    if "set rows \<subseteq> set (tb_events t)" "sorted_wrt (<) (map ev_sequence rows)" for rows
    using that
  proof (induction rows)
    case (Cons row rows)
    show ?case
    proof (cases "ev_payload_json row")
      case (RunHistorySelected p)
      have "sel_through_sequence (hp_selection p') \<noteq> sel_through_sequence (hp_selection p)"
        if r: "row' \<in> set rows" "ev_payload_json row' = RunHistorySelected p'" for row' p'
      proof -
        have m: "row \<in> set (tb_events t)" "row' \<in> set (tb_events t)" "ev_sequence row < ev_sequence row'" using r(1) Cons.prems by auto
        note u = through [OF m(1) RunHistorySelected] through [OF m(2) r(2)]
        show ?thesis unfolding u(1,4) using u(2,3,5,6) m(3) by (subst of_int_u64_inject) auto
      qed
      then have "sel_through_sequence (hp_selection p) \<notin> set (map fst (List.map_filter row_selection rows))"
        using selection_keys [of "sel_through_sequence (hp_selection p)" rows] by metis
      moreover have "distinct (map fst (List.map_filter row_selection rows))" using Cons.IH Cons.prems by simp
      ultimately show ?thesis by (simp add: map_filter_simps row_selection_def [of row] RunHistorySelected)
    qed (use Cons in \<open>simp_all add: map_filter_simps row_selection_def [of row]\<close>)
  qed (simp add: map_filter_simps)
  then show ?thesis using log_strict [OF log(1)] by blast
qed

lemma map_filter_member: "x \<in> set xs \<Longrightarrow> f x = Some y \<Longrightarrow> y \<in> set (List.map_filter f xs)"
  by (induction xs) (auto simp: map_filter_simps split: option.splits)

lemma prefix_digest_decided:
  assumes log: "log_ok se session t" "selections_ok se session t" "0 < log_length t" and m: "tb_manifest t = [row]" "mf_head_sequence row = log_length t"
    and json: "\<And>row. row \<in> set (tb_events t) \<Longrightarrow> \<exists>json. canonical_row payload_value cr row = Ok json"
  shows "prefix_digest payload_value cr t (of_int (log_length t)) (List.map_filter row_selection (tb_events t)) =
    (if digests_match payload_value cr (tb_events t) then Ok (prefix_hash payload_value cr (tb_events t)) else Err integrity)"
proof -
  let ?rows = "tb_events t" and ?n = "of_int (log_length t) :: u64" and ?cs = "List.map_filter row_selection (tb_events t)"
  have small: "log_length t < 2 ^ 63" and seqs: "map ev_sequence ?rows = [1..log_length t]" using log(1) by (simp_all add: log_ok_def)
  have n: "unat ?n = nat (log_length t)" "sint ?n = log_length t" using small by (simp_all only: unat_of_i64 sint_of_i64 of_nat_0_le_iff)
  have cp: "c \<noteq> 0 \<and> c \<le> ?n \<and> valid_digest digest" if "(c, digest) \<in> set ?cs" for c digest
    by (rule checkpoint_member [OF log(1,2) that]) (use n(1) in \<open>auto simp: word_le_nat_alt unat_eq_0 [symmetric]\<close>)
  have e: "prefix_checkpoints ?n Map.empty ?cs = Ok (map_of ?cs)"
    using prefix_checkpoints_all [OF checkpoints_distinct [OF log(1,2)], of Map.empty ?n] cp by simp
  have agree: "(\<forall>k digest. 0 < k \<and> k \<le> length ?rows \<and> map_of ?cs (of_int (int k)) = Some digest \<longrightarrow> digest = prefix_hash payload_value cr (take k ?rows))
    \<longleftrightarrow> digests_match payload_value cr ?rows" (is "?all \<longleftrightarrow> _")
  proof
    assume all: ?all
    show "digests_match payload_value cr ?rows"
      unfolding digests_match_def
    proof (intro ballI allI impI)
      fix row p
      assume row: "row \<in> set ?rows" "ev_payload_json row = RunHistorySelected p"
      note s = selection_checkpoint [OF log(1,2) row]
      have b: "ev_sequence row \<le> log_length t" using log_member [OF log(1) row(1)] by simp
      have "row_selection row = Some (of_int (ev_sequence row - 2), sel_history_digest (hp_selection p))"
        using row(2) s(1) by (simp add: row_selection_def)
      then have "(of_int (ev_sequence row - 2), sel_history_digest (hp_selection p)) \<in> set ?cs"
        by (rule map_filter_member [OF row(1)])
      then have "map_of ?cs (of_int (int (nat (ev_sequence row - 2)))) = Some (sel_history_digest (hp_selection p))"
        using checkpoints_distinct [OF log(1,2)] s(2) by (simp del: of_int_diff)
      then show "sel_history_digest (hp_selection p) = prefix_hash payload_value cr (take (nat (ev_sequence row - 2)) ?rows)"
        using all s(2) b by (auto simp del: of_int_diff)
    qed
  next
    assume d: "digests_match payload_value cr ?rows"
    show ?all
    proof (intro allI impI, elim conjE)
      fix k digest
      assume k: "0 < k" "k \<le> length ?rows" "map_of ?cs (of_int (int k)) = Some digest"
      have "int k < 2 ^ 63" using k(2) small by linarith
      then have u: "unat (of_int (int k) :: u64) = k" by (simp only: unat_of_i64 of_nat_0_le_iff nat_int)
      from map_of_SomeD [OF k(3)] show "digest = prefix_hash payload_value cr (take k ?rows)"
        by (rule checkpoint_member [OF log(1,2)]) (use d u in \<open>auto simp: digests_match_def\<close>)
    qed
  qed
  have pr: "prefix_rows payload_value cr (map_of ?cs) ?rows 0 (prefix_text payload_value cr []) =
    (if digests_match payload_value cr ?rows then Ok (?n, prefix_text payload_value cr ?rows) else Err integrity)"
    using prefix_rows_decided [of ?rows "[]" payload_value cr "map_of ?cs"] seqs small json agree by simp
  have so: "sort_key ev_sequence (filter (\<lambda>r. ev_sequence r \<le> sint ?n) ?rows) = ?rows"
  proof -
    have "filter (\<lambda>r. ev_sequence r \<le> sint ?n) ?rows = ?rows" using log_member [OF log(1)] unfolding n(2) filter_id_conv by blast
    moreover have "sort_key ev_sequence ?rows = ?rows" using log_sorted [OF log(1), of "\<lambda>_. True"] by (simp add: sort_key_id_if_sorted)
    ultimately show ?thesis by (simp only:)
  qed
  have start: "''wi.history-prefix.v1'' @ [CHR 0x00] = prefix_text payload_value cr []" by (simp add: prefix_text_def)
  have nz: "?n \<noteq> 0" using n(1) log(3) by auto
  have g: "reject_if (?n = 0 \<or> ?n > i64_max) invalid = Ok ()" "reject_if (log_length t < 1 \<or> ?n > ?n) invalid = Ok ()"
    using nz log(3) of_i64_small [of "log_length t"] small by (auto simp: reject_if_def)
  show ?thesis unfolding prefix_digest_def g and_then.simps e m list.case ok_or.simps so start pr prod.case prefix_hash_def
    by (simp add: reject_ok)
qed

lemma validate_history_decided:
  assumes t: "reachable se provenance t"
    and json: "\<And>row. row \<in> set (tb_events t) \<Longrightarrow> \<exists>json. canonical_row payload_value (se_crates se) row = Ok json"
  shows "\<exists>summary. observe_session se (pv_session_id provenance) t = Ok summary \<and>
    validate_history se payload_value ''ok'' (pv_session_id provenance) summary t =
      (if digests_match payload_value (se_crates se) (tb_events t) then Ok () else Err integrity)"
proof -
  let ?s = "pv_session_id provenance"
  obtain row summary where sum: "observe_session se ?s t = Ok summary" "tb_manifest t = [row]" "su_schema_version summary = 3"
    "su_manifest summary = manifest_of row" "mf_head_sequence row = log_length t" by (rule observe_session_reads [OF t])
  have inv: "store_inv se provenance t" by (rule reachable_inv [OF t])
  then have reads: "store_reads se ?s t" and sel: "selections_ok se ?s t" by (simp_all add: store_inv_def store_ok_def)
  then have log: "log_ok se ?s t" "0 < log_length t" and sch: "schema_ok t" by (simp_all add: store_reads_def)
  have sorted: "sort_key ev_sequence (tb_events t) = tb_events t"
    using log_sorted [OF log(1), of "\<lambda>_. True"] by (simp add: sort_key_id_if_sorted)
  have title: "later_title None (tb_events t) = Some (mf_title row)"
    using reachable_titles [OF t] sum(2) by (simp add: title_ok_def later_title_def)
  have rows: "history_rows se ?s 3 (tb_events t) 0 None [] = Ok (of_int (log_length t), Some (mf_title row), List.map_filter row_selection (tb_events t))"
    using history_rows_reads [of "tb_events t" 0 3 se ?s None "[]"] log title unfolding log_ok_def by simp
  have cmds: "history_commands se ?s t (sort (map cm_operation_id (filter (\<lambda>r. cm_method r = ''accept_history_run'' \<and> cm_operation_id r > []) (tb_commands t)))) = Ok ()"
    by (rule history_commands_reads [OF t]) auto
  have runs: "history_runs se ?s t (sort_key rn_accepted_sequence (filter (\<lambda>r. rn_accepted_sequence r > 0) (tb_runs t))) = Ok ()"
    by (rule history_runs_reads) (use run_row_parsed [OF t] validate_run_reachable [OF t] in auto)
  have known: "\<not> list_ex (\<lambda>e. case ev_run_id e of None \<Rightarrow> False
        | Some run \<Rightarrow> \<not> list_ex (\<lambda>r. rn_run_id r = run \<and> (ev_event_type e \<noteq> ''run.accepted'' \<or> rn_accepted_sequence r = ev_sequence e))
            (tb_runs t)) (tb_events t)"
    using acceptance_known [OF t] by (fastforce simp: list_ex_iff split: option.splits)
  have "validate_history se payload_value ''ok'' ?s summary t = (if digests_match payload_value (se_crates se) (tb_events t) then Ok () else Err integrity)"
    unfolding validate_history_def sorted sum(3) rows
    using foreign_keys_hold [OF sch] prefix_digest_decided [OF log(1) sel log(2) sum(2,5) json] cmds runs known
    by (simp add: sum(4,5) manifest_of_def reject_ok)
  then show ?thesis using sum(1) by blast
qed

section \<open>An example with a selection\<close>

lemma hex_bytes_valid: "length b = 32 \<Longrightarrow> valid_digest (hex_bytes b)"
proof -
  have "length (hex_bytes b) = 2 * length b \<and> list_all is_lower_hex (hex_bytes b)"
    by (induction b) (use hex_digits_lower [of _ 2] nat_of_char_less_256 in \<open>auto simp: hex_bytes_def\<close>)
  then show "length b = 32 \<Longrightarrow> valid_digest (hex_bytes b)" by (simp add: valid_digest_def)
qed

definition example_selection :: "str \<Rightarrow> StoredHistorySelection" where
  "example_selection digest = \<lparr>sel_policy = ''closed-exchanges-v1'', sel_through_sequence = 1, sel_history_digest = digest,
     sel_provider_id = ''p'', sel_requested_model = ''m'', sel_expected_identity = None\<rparr>"

lemma example_selection_typed:
  assumes "valid_digest digest"
  shows "StoredHistorySelection_try_from example_crates (example_selection digest) = Ok (example_selection digest)"
proof -
  have p: "\<not> is_blank ''p''" by code_simp
  show ?thesis
    using assms by (simp add: StoredHistorySelection_try_from_def StoredHistorySelection_new_def example_selection_def one_small p
      SessionOptions_new_def SessionOptions_validate_def reject_if_def example_not_blank example_crates_def example_display_def SessionOptions_value_def
      MAX_INPUT_ITEMS_def MAX_INPUT_BYTES_def MAX_TOOLS_def)
qed

lemma example_history_call:
  assumes "valid_digest digest"
  shows "call_ok example_env ''owner'' (Ok 7) example_fresh ''accept'' ''run'' (AcceptHistory example_input (example_selection digest))"
  using example_input_typed example_selection_typed [OF assms] by (simp add: call_ok_def ids_ok_def example_ids) (simp add: example_env_def)

lemma example_history:
  assumes "valid_digest digest"
  obtains t where "reachable example_env example_provenance t"
    "tb_events t = tb_events example_tables @ mutation_rows 2 example_fresh 7 ''run'' ''owner'' (AcceptHistory example_input (example_selection digest))"
proof -
  note call = example_history_call [OF assms]
  have len: "log_length example_tables = 1" by (simp add: created_tables_def)
  have sel: "sel_through_sequence (example_selection digest) = of_int 1" "selection_matches_input (example_selection digest) example_input"
    by (simp_all add: example_selection_def selection_matches_input_def example_input_def SessionOptions_new_def)
  have fresh: "example_fresh 2 \<notin> set [''created'']" "example_fresh 3 \<notin> set [''created'']" "example_fresh 2 \<noteq> example_fresh 3"
    by code_simp+
  obtain receipt t where m: "mutate example_env example_provenance ''owner'' (Ok 7) example_fresh ''accept'' ''run''
      (AcceptHistory example_input (example_selection digest)) example_tables = (Ok (receipt, False), t)"
    using accept_history_succeeds [OF reachable_inv [OF example_reachable] example_empty(1-3), unfolded len,
        where owner = "''owner''" and timestamp = 7 and fresh = example_fresh and operation = "''accept''" and run = "''run''"
          and input = example_input and selection = "example_selection digest"]
      sel fresh example_laws(1,3) example_empty(4) by auto
  have new: "new_command example_env example_provenance ''owner'' (Ok 7) example_fresh ''accept'' ''run''
      (AcceptHistory example_input (example_selection digest)) example_tables = (Ok receipt, t)"
    using m unfolding mutate_def by (auto simp: transact_Ok sql_Ok split: option.splits)
  show thesis
    using that reachable.stepped [OF example_reachable store_step.mutated [OF call m]]
      new_command_keeps(4) [OF reachable_ok [OF example_reachable] call new, unfolded len] by simp
qed

lemma example_selected:
  assumes "tb_events t = tb_events example_tables @ mutation_rows 2 example_fresh 7 ''run'' ''owner'' (AcceptHistory example_input (example_selection digest))"
  shows "list_ex (\<lambda>row. ev_event_type row = ''run.history.selected'') (tb_events t)"
    "(\<forall>row \<in> set (tb_events t). \<forall>p. ev_payload_json row = RunHistorySelected p \<longrightarrow>
      sel_history_digest (hp_selection p) =
        prefix_hash (\<lambda>_. Null) (se_crates example_env) (take (unat (sel_through_sequence (hp_selection p))) (tb_events t))) \<longleftrightarrow>
      digest = prefix_hash (\<lambda>_. Null) example_crates (tb_events example_tables)" (is ?digests)
proof -
  have "length (tb_events example_tables) = 1" by (simp add: created_tables_def)
  then have "take 1 (tb_events t) = tb_events example_tables" unfolding assms by simp
  moreover have "ev_payload_json row \<noteq> RunHistorySelected p" if "row \<in> set (tb_events example_tables)" for row p
    using that by (simp add: created_tables_def created_row_def)
  ultimately show ?digests unfolding assms by (auto simp: new_event_def example_selection_def example_env_def)
qed (simp add: assms new_event_def)

lemma example_digest: "valid_digest (prefix_hash (\<lambda>_. Null) example_crates rows)" "valid_digest (replicate 64 CHR ''0'')"
    "replicate 64 CHR ''0'' \<noteq> prefix_hash (\<lambda>_. Null) example_crates rows"
proof -
  show "valid_digest (prefix_hash (\<lambda>_. Null) example_crates rows)"
    unfolding prefix_hash_def by (rule hex_bytes_valid) (simp add: example_crates_def)
  show "valid_digest (replicate 64 CHR ''0'')" by code_simp
  have "hd (prefix_hash (\<lambda>_. Null) example_crates rows) = CHR ''7''"
    by (simp add: prefix_hash_def prefix_text_def example_crates_def hex_bytes_def) code_simp
  moreover have "hd (replicate 64 CHR ''0'') = CHR ''0''" by simp
  ultimately show "replicate 64 CHR ''0'' \<noteq> prefix_hash (\<lambda>_. Null) example_crates rows" by (intro notI) simp
qed

section \<open>Property\<close>

text \<open>C5: The repair check decides every session the store can produce by the digests of its history selections, and by nothing else.
  Whatever sequence of run mutations, renames and reconciliations led to a session database, \<open>catalog_sync::observe\<close> reads it as
  ready, and \<open>validate_history\<close> accepts it if each stored selection carries the digest of the log prefix it names and answers the
  integrity error if one does not: the foreign keys, the gapless log, the title, the history commands, the owner of every event,
  and the replay of each run against its row and tool results never fail.  \<open>accept_history_run\<close> stores the digest it is given, so
  both cases occur.  The hypothesis is about serde_json: it renders every event; SQLite's own \<open>quick_check\<close> answers ok.\<close>

theorem repair_decided_by_digests:
  assumes "reachable se provenance t"
    and "\<And>row. row \<in> set (tb_events t) \<Longrightarrow> \<exists>json. canonical_row payload_value (se_crates se) row = Ok json"
  shows "\<exists>summary. observe_session se (pv_session_id provenance) t = Ok summary \<and> su_availability summary = SessionReady \<and>
    validate_history se payload_value ''ok'' (pv_session_id provenance) summary t =
      (if \<forall>row \<in> set (tb_events t). \<forall>p. ev_payload_json row = RunHistorySelected p \<longrightarrow>
            sel_history_digest (hp_selection p) = prefix_hash payload_value (se_crates se) (take (unat (sel_through_sequence (hp_selection p))) (tb_events t))
       then Ok () else Err integrity)"
proof -
  have "store_inv se provenance t" by (rule reachable_inv [OF assms(1)])
  then have log: "log_ok se (pv_session_id provenance) t" "selections_ok se (pv_session_id provenance) t"
    by (simp_all add: store_inv_def store_ok_def store_reads_def)
  have "unat (sel_through_sequence (hp_selection p)) = nat (ev_sequence row - 2)"
    if row: "row \<in> set (tb_events t)" "ev_payload_json row = RunHistorySelected p" for row p
  proof -
    note s = selection_checkpoint [OF log row]
    have "ev_sequence row \<le> log_length t" "log_length t < 2 ^ 63" using log_member [OF log(1) row(1)] log(1) by (simp_all add: log_ok_def)
    then show ?thesis unfolding s(1) by (intro unat_of_i64) (use s(2) in auto)
  qed
  then have d: "digests_match payload_value (se_crates se) (tb_events t) \<longleftrightarrow>
      (\<forall>row \<in> set (tb_events t). \<forall>p. ev_payload_json row = RunHistorySelected p \<longrightarrow>
            sel_history_digest (hp_selection p) = prefix_hash payload_value (se_crates se) (take (unat (sel_through_sequence (hp_selection p))) (tb_events t)))"
    unfolding digests_match_def by auto
  obtain summary where "observe_session se (pv_session_id provenance) t = Ok summary"
    "validate_history se payload_value ''ok'' (pv_session_id provenance) summary t =
      (if digests_match payload_value (se_crates se) (tb_events t) then Ok () else Err integrity)"
    using validate_history_decided [OF assms] by blast
  moreover from this(1) have "su_availability summary = SessionReady" by (auto simp: observe_session_def wi_results)
  ultimately show ?thesis unfolding d by blast
qed

text \<open>A run accepted with a selection of the first event: the digest of that prefix is accepted, another one is committed all the same
  and refused by the check.\<close>

theorem repair_decided_by_digests_witness:
  "(\<exists>t summary. reachable example_env example_provenance t \<and> list_ex (\<lambda>row. ev_event_type row = ''run.history.selected'') (tb_events t) \<and>
      observe_session example_env ''session'' t = Ok summary \<and> validate_history example_env (\<lambda>_. Null) ''ok'' ''session'' summary t = Ok ()) \<and>
   (\<exists>t summary. reachable example_env example_provenance t \<and> list_ex (\<lambda>row. ev_event_type row = ''run.history.selected'') (tb_events t) \<and>
      observe_session example_env ''session'' t = Ok summary \<and> validate_history example_env (\<lambda>_. Null) ''ok'' ''session'' summary t = Err integrity)"
proof -
  let ?hash = "prefix_hash (\<lambda>_. Null) example_crates (tb_events example_tables)"
  have c: "\<exists>json. canonical_row (\<lambda>_. Null) (se_crates example_env) row = Ok json" for row
    by (simp add: canonical_row_def canonical_json_def example_env_def example_crates_def)
  have "\<exists>t summary. reachable example_env example_provenance t \<and> list_ex (\<lambda>row. ev_event_type row = ''run.history.selected'') (tb_events t) \<and>
      observe_session example_env ''session'' t = Ok summary \<and>
      validate_history example_env (\<lambda>_. Null) ''ok'' ''session'' summary t = (if digest = ?hash then Ok () else Err integrity)"
    if valid: "valid_digest digest" for digest
  proof -
    obtain t where t: "reachable example_env example_provenance t"
      "tb_events t = tb_events example_tables @ mutation_rows 2 example_fresh 7 ''run'' ''owner'' (AcceptHistory example_input (example_selection digest))"
      by (rule example_history [OF valid])
    show ?thesis
      using repair_decided_by_digests [OF t(1) c, unfolded example_selected(2) [OF t(2)] example_laws(5)] t(1) example_selected(1) [OF t(2)] by blast
  qed
  from this [of ?hash] this [of "replicate 64 CHR ''0''"] show ?thesis using example_digest by simp
qed

end
