(* ===== verification/Spec2Isabelle.thy ===== *)
theory Spec2Isabelle
  imports Text_Chunks Source_Keys Cursors Run_Session Sse Stream_Consistency Repair_Complete
begin

text \<open>
  Verification of \<open>wi\<close>, a gateway that runs model conversations with local tools and keeps them in one SQLite
  database per session.  Paths below are relative to \<open>src/\<close> of the repository.

  \<^bold>\<open>The program.\<close>  A provider session streams server-sent events.  They are cut into frames
  (\<open>providers/openai_codex/sse.rs\<close>), decoded to provider-neutral events (\<open>codec.rs\<close>, with \<open>finalized.rs\<close>
  recovering output that only appeared item by item and \<open>consistency.rs\<close> checking the final response against the
  stream) and consumed by the run controller (\<open>run/\<close>), which collects a response, executes its tool calls
  (\<open>tools.rs\<close>), asks again, and reports every step as a numbered event.  The events of a run are committed to the
  session store (\<open>storage/\<close>), from which later runs are replayed (\<open>provider/replay.rs\<close>) and the conversation view is
  read with opaque cursors and ordered keys (\<open>conversation/\<close>).

  \<^bold>\<open>Modelling.\<close>  A string is the list of its UTF-8 bytes, \<open>u64\<close> is a 64-bit word, \<open>i64\<close> an integer with its range
  checks written out, \<open>usize\<close> a natural number.  \<open>Result<T, E>\<close> is a sum with \<open>Err\<close> on the left; the \<open>?\<close> operator is
  \<open>and_then\<close>.  Code with effects is a program on an explicit state (theory \<open>Programs\<close>) that returns the state also
  when it fails.  Crates that are not part of the repository are fields of parameter records: \<open>uuid_crate\<close>
  (\<open>uuid\<close>), \<open>crates\<close> (\<open>serde_json\<close>, \<open>base64\<close>, SHA-256), \<open>run_env\<close> (provider session, tools, observer, cancellation),
  \<open>store_env\<close> (ids, JSON codecs and the display rows of the session store).  What a property needs of them is a named
  hypothesis, and a witness shows it can hold.

  \<^bold>\<open>Theories.\<close>
  \<^item> \<open>Wi_Prelude\<close>, \<open>Rust_Text\<close>, \<open>Rust_Numbers\<close>, \<open>Programs\<close>: results, lists, UTF-8, number printing and parsing, programs
    with their Hoare triples and preserved relations (locale \<open>step_relation\<close>).
  \<^item> \<open>Identifiers\<close>: \<open>identifiers.rs\<close>, \<open>storage/ids.rs\<close>, \<open>conversation/ids.rs\<close>.  Each kind of id has one accepted spelling.
  \<^item> \<open>Order_Keys\<close>, \<open>Source_Keys\<close>, \<open>Text_Chunks\<close>: \<open>conversation/primitives.rs\<close>.  The text order of printed keys is the order of
    keys (locale \<open>order_code\<close>); hashed identities are injective; chunking loses nothing.
  \<^item> \<open>Json\<close>, \<open>Cursors\<close>: JSON values and \<open>conversation/cursors.rs\<close>.  Tokens and cursors correspond one to one.
  \<^item> \<open>Provider_Contract\<close>: \<open>error.rs\<close>, \<open>provider.rs\<close>, \<open>gateway.rs\<close>.
  \<^item> \<open>Tools\<close>, \<open>Replay\<close>: \<open>tools.rs\<close>, \<open>provider/replay.rs\<close>.  Preflight accepts exactly executable responses, results are cached,
    and executed exchanges can be replayed.
  \<^item> \<open>Run_Controller\<close>, \<open>Run_Trace\<close>, \<open>Run_Session\<close>: \<open>run/\<close>.  For every environment the delivered events form a prefix of a
    well-formed run, and the provider session is closed exactly once.  The source has no turn limit: the loop ends because
    every turn delivers an event and the 64-bit sequence is incremented with a check, so the controller is a total function
    (its termination measure is the room left below the largest word) and no fuel is introduced.  The log of actions that
    \<open>Run_Session\<close> speaks about records opening, requests, tool runs and closing; polling for events and the installation of a
    replay are not logged.
  \<^item> \<open>Sse\<close>, \<open>Finalized\<close>, \<open>Response_Codec\<close>, \<open>Stream_Consistency\<close>: \<open>providers/openai_codex/\<close>.  Framed payloads are decoded
    exactly, buffers are bounded, recovered output is exactly the finished items, the collector accepts what the decoder
    produces, and an accepted terminal response agrees with what was streamed.
  \<^item> \<open>Storage_Records\<close>, \<open>Session_Tables\<close>, \<open>Run_Store\<close>: the session database (\<open>storage/records.rs\<close>, \<open>history.rs\<close>,
    \<open>session.rs\<close>, \<open>session_schema.rs\<close>, \<open>run_store.rs\<close>): its tables with the constraints of the schema, event log, manifest checks,
    runs, tool results, and the transactions that append to them.
  \<^item> \<open>Store_Rows\<close>, \<open>Store_Invariant\<close>, \<open>Store_Transactions\<close>, \<open>Store_Commands\<close>: what single statements do to the rows, the
    invariant of a session database, that each transaction keeps it, and that commands are applied once.
  \<^item> \<open>Store_Progress\<close>: every reachable database reads back; creation succeeds; what accepting a run does in each case.  It also
    holds the example store of the witnesses.
  \<^item> \<open>Store_Repair\<close>, \<open>Repair_Replay\<close>, \<open>Repair_Tools\<close>, \<open>Repair_Steps\<close>, \<open>Repair_Complete\<close>: the repair check (\<open>run_store/repair.rs\<close>,
    \<open>history_prefix.rs\<close>, \<open>catalog_repair.rs\<close>, \<open>catalog_sync.rs\<close>), the replay of a run's events as a fold, that every step of the
    store extends it, and that on reachable databases only the digests of the history selections decide the check.

  \<^bold>\<open>Abstractions of the store.\<close>  An event row holds the typed payload, so writing and reading its JSON is the identity
  followed by the checks of the deserializer; floating-point numbers inside tool values are taken to survive.  The ids inside stored
  provenance, created payloads and receipts are not parsed again.  \<open>initialize\<close> starts from empty tables with the schema in place,
  and the schema check leaves out \<open>application_id\<close> and the comparison of the DDL.  A transaction commits or rolls back; a COMMIT
  of unknown outcome is not modelled.  The rows of the conversation display are an arbitrary state with an arbitrary fallible
  update (\<open>se_display_apply\<close>), so every store property holds whatever the projector writes or refuses; no property assumes that it
  succeeds.  \<open>foreign_keys\<close> covers the tables of schema version 2, the keyset loops of the repair check are passes over the
  sorted rows, and the answer of SQLite's \<open>quick_check\<close> is an argument.

  \<^bold>\<open>Not modelled.\<close>  Process and network I/O (\<open>cli/\<close>, \<open>http_api/\<close>, \<open>service/\<close>, OAuth and token storage), thread and task
  scheduling, the catalog of session files, and the SQLite engine below the statements the sources write.
\<close>

end
